(* ===== verification/Prelude.thy ===== *)
theory Prelude
  imports Main "HOL-Library.Word"
begin

text \<open>
  Shared vocabulary of the development: the machine types of the C program, its failure
  modes as values, byte lists with bounds-checked \<open>memcpy\<close>, little-endian coding of
  integers, and the list lemmas that several components use.
\<close>

unbundle bit_operations_syntax

named_theorems bytes_simps "lengths and positions of byte lists"
named_theorems step_simps "the operations a thread step is composed of"

section \<open>Machine types\<close>

type_synonym u8 = "8 word"
type_synonym u16 = "16 word"
type_synonym u32 = "32 word"
type_synonym u64 = "64 word"
type_synonym byte = u8

text \<open>A pointer of the LP64 target; \<open>0\<close> is \<open>NULL\<close>.\<close>

type_synonym ptr = u64

abbreviation NULL :: ptr where
  "NULL \<equiv> 0"

text \<open>
  Undefined behaviour and aborts of the C program are values, so that every function of
  the model says when the code would go wrong.
\<close>

datatype c_error = NullDeref | OutOfBounds | UseAfterFree | ShiftRange

section \<open>Byte lists\<close>

definition mem_write :: "'a list \<Rightarrow> nat \<Rightarrow> 'a list \<Rightarrow> 'a list" where
  "mem_write dst off src = take off dst @ src @ drop (off + length src) dst"

text \<open>\<open>memcpy(dst + off, src, n)\<close>, failing when either object is too small.\<close>

definition memcpy :: "'a list \<Rightarrow> nat \<Rightarrow> 'a list \<Rightarrow> nat \<Rightarrow> c_error + 'a list" where
  "memcpy dst off src n =
     (if n \<le> length src \<and> off + n \<le> length dst
      then Inr (mem_write dst off (take n src)) else Inl OutOfBounds)"

lemma length_mem_write [bytes_simps]:
  "off + length src \<le> length dst \<Longrightarrow> length (mem_write dst off src) = length dst"
  by (simp add: mem_write_def)

lemma nth_mem_write [bytes_simps]:
  assumes "off + length src \<le> length dst" "i < length dst"
  shows "mem_write dst off src ! i =
    (if i < off then dst ! i else if i < off + length src then src ! (i - off) else dst ! i)"
  using assms by (auto simp: mem_write_def nth_append min_def)

lemma mem_write_0: "length src = length dst \<Longrightarrow> mem_write dst 0 src = src"
  by (simp add: mem_write_def)

lemma take_mem_write_0: "take (length src) (mem_write dst 0 src) = src"
  by (simp add: mem_write_def)

lemma memcpy_ok:
  "n \<le> length src \<Longrightarrow> off + n \<le> length dst \<Longrightarrow>
   memcpy dst off src n = Inr (mem_write dst off (take n src))"
  by (simp add: memcpy_def)

lemma memcpy_overflow: "length dst < off + n \<Longrightarrow> memcpy dst off src n = Inl OutOfBounds"
  by (simp add: memcpy_def)

lemma memcpy_InrE:
  assumes "memcpy dst off src n = Inr r"
  obtains "n \<le> length src" "off + n \<le> length dst" "r = mem_write dst off (take n src)"
    "length r = length dst"
  using assms by (auto simp: memcpy_def bytes_simps split: if_splits)

section \<open>Little-endian integers\<close>

fun le_bytes :: "nat \<Rightarrow> nat \<Rightarrow> byte list" where
  "le_bytes 0 x = []"
| "le_bytes (Suc n) x = of_nat x # le_bytes n (x div 256)"

fun le_nat :: "byte list \<Rightarrow> nat" where
  "le_nat [] = 0"
| "le_nat (b # bs) = unat b + 256 * le_nat bs"

lemma length_le_bytes [simp]: "length (le_bytes n x) = n"
  by (induction n arbitrary: x) auto

lemma le_nat_zeros [simp]: "le_nat (replicate n 0) = 0"
  by (induction n) simp_all

lemma unat_u8_of_nat: "unat (of_nat x :: u8) = x mod 256"
  by (simp add: unsigned_of_nat take_bit_eq_mod)

lemma le_bytes_eq_Nil [simp]: "le_bytes n x = [] \<longleftrightarrow> n = 0"
  by (cases n) auto

lemma le_nat_le_bytes: "le_nat (le_bytes n x) = x mod 256 ^ n"
proof (induction n arbitrary: x)
  case 0
  then show ?case by simp
next
  case (Suc n)
  have "x mod (256 * 256 ^ n) = 256 * (x div 256 mod 256 ^ n) + x mod 256"
    by (rule mod_mult2_eq)
  with Suc show ?case by (simp add: unat_u8_of_nat)
qed

lemma unat_of_nat_small: "x < 2 ^ LENGTH('a::len) \<Longrightarrow> unat (of_nat x :: 'a word) = x"
  by (simp add: unsigned_of_nat take_bit_nat_eq_self)

lemma unat_ucast_up:
  "LENGTH('a) \<le> LENGTH('b) \<Longrightarrow> unat (ucast (x :: 'a::len word) :: 'b::len word) = unat x"
proof -
  assume "LENGTH('a) \<le> LENGTH('b)"
  then have "(2::nat) ^ LENGTH('a) \<le> 2 ^ LENGTH('b)" by (intro power_increasing) auto
  then have "unat x < 2 ^ LENGTH('b)" using unsigned_less [of x, where 'a = nat] by linarith
  then show ?thesis by (simp add: unsigned_ucast_eq take_bit_nat_eq_self)
qed

lemma unat_u8_bound: "unat (b :: u8) < 256"
  using unsigned_less [of b] by simp

lemma le_bytes_le_nat: "le_bytes (length bs) (le_nat bs) = bs"
proof (induction bs)
  case Nil
  then show ?case by simp
next
  case (Cons b bs)
  have b: "unat b < 256" by (rule unat_u8_bound)
  have "of_nat (unat b + 256 * le_nat bs) = b"
  proof -
    have "(unat b + 256 * le_nat bs) mod 256 = unat b" using b by simp
    then have "unat (of_nat (unat b + 256 * le_nat bs) :: u8) = unat b"
      by (simp only: unat_u8_of_nat)
    then show ?thesis by (simp only: word_unat_eq_iff)
  qed
  moreover have "(unat b + 256 * le_nat bs) div 256 = le_nat bs" using b by simp
  ultimately show ?case using Cons by simp
qed

lemma le_nat_bound: "le_nat bs < 256 ^ length bs"
proof (induction bs)
  case Nil
  then show ?case by simp
next
  case (Cons b bs)
  have "unat b < 256" by (rule unat_u8_bound)
  with Cons show ?case by simp
qed

lemma of_nat_le_nat_le_bytes:
  assumes "256 ^ n = (2::nat) ^ LENGTH('a::len)"
  shows "of_nat (le_nat (le_bytes n (unat (w :: 'a word)))) = w"
proof -
  have "unat w < 256 ^ n" using assms unsigned_less [of w] by simp
  then show ?thesis by (simp add: le_nat_le_bytes)
qed

section \<open>Lists\<close>

lemma distinct_snocD: "distinct (xs @ [x]) \<Longrightarrow> distinct xs \<and> x \<notin> set xs"
  by simp

lemma find_Some_mem: "List.find P xs = Some x \<Longrightarrow> x \<in> set xs \<and> P x"
  by (auto simp: find_Some_iff)

lemma list_update_same: "i < length xs \<Longrightarrow> xs ! i = x \<Longrightarrow> xs[i := x] = xs"
  by (auto simp: list_update_id)

end
