(* ===== verification/Pkt_Headers.thy ===== *)
theory Pkt_Headers
  imports Prelude
begin

text \<open>
  The packet formats of \<open>src/pkt_headers.h\<close>: \<open>Msg_Header\<close> with its four bit fields,
  the fragment request \<open>rUdpFragmntReq\<close>, and \<open>Msg_Buf\<close>, the buffer that travels
  through every queue of the service.  All three structs are \<open>packed\<close>, so the model gives
  their exact bytes (little endian, LP64: \<open>sizeof(Msg_Buf_t)\<close> is 99).
\<close>

section \<open>Constants\<close>

definition MAX_MSG_SIZE :: nat where "MAX_MSG_SIZE = 60"

definition MSG_CODE_REG_DATA :: "2 word" where "MSG_CODE_REG_DATA = 0"
definition MSG_CODE_REPLY_FRAG :: "2 word" where "MSG_CODE_REPLY_FRAG = 1"
definition MSG_CODE_REQUEST_FRAG :: "2 word" where "MSG_CODE_REQUEST_FRAG = 2"

definition SEQ_MASK :: u8 where "SEQ_MASK = 0b1111"
definition FRAG_MASK :: u8 where "FRAG_MASK = 0b11111"

lemmas pkt_consts = MAX_MSG_SIZE_def MSG_CODE_REG_DATA_def MSG_CODE_REPLY_FRAG_def
  MSG_CODE_REQUEST_FRAG_def SEQ_MASK_def FRAG_MASK_def

section \<open>Structs\<close>

record Msg_Header =
  h_msgCode :: "2 word"
  h_frgmntIdx :: "5 word"
  h_frgmnts :: "5 word"
  h_seqNum :: "4 word"
  h_size :: u8

record rUdpFragmntReq =
  q_msgCode :: "2 word"
  q_pad :: "6 word"
  q_fragmntLost :: u8
  q_seqNum :: u8

record timeval =
  tv_sec :: u64
  tv_usec :: u64

record Msg_Buf =
  msgHeader :: Msg_Header
  m_data :: "byte list"
  m_opCode :: u8
  m_termId :: u16
  m_hiSkyId :: "byte list"
  m_msgLen :: u16
  m_seqNum :: u8
  m_time :: timeval
  m_next :: ptr

definition sizeof_Msg_Header :: nat where "sizeof_Msg_Header = 3"
definition sizeof_Msg_Buf :: nat where "sizeof_Msg_Buf = 99"

lemmas sizeofs = sizeof_Msg_Header_def sizeof_Msg_Buf_def

section \<open>Bytes of the structs\<close>

text \<open>The 16-bit unit that holds the four bit fields, first field in the low bits.\<close>

definition Msg_Header_word :: "Msg_Header \<Rightarrow> u16" where
  "Msg_Header_word h =
     ucast (h_msgCode h) OR push_bit 2 (ucast (h_frgmntIdx h))
     OR push_bit 7 (ucast (h_frgmnts h)) OR push_bit 12 (ucast (h_seqNum h))"

definition Msg_Header_bytes :: "Msg_Header \<Rightarrow> byte list" where
  "Msg_Header_bytes h =
     [ucast (Msg_Header_word h), ucast (drop_bit 8 (Msg_Header_word h)), h_size h]"

definition Msg_Header_of_bytes :: "byte list \<Rightarrow> Msg_Header" where
  "Msg_Header_of_bytes bs =
     (let w = (ucast (bs ! 0) OR push_bit 8 (ucast (bs ! 1)) :: u16) in
      \<lparr> h_msgCode = ucast w, h_frgmntIdx = ucast (drop_bit 2 w),
        h_frgmnts = ucast (drop_bit 7 w), h_seqNum = ucast (drop_bit 12 w),
        h_size = bs ! 2 \<rparr>)"

definition rUdpFragmntReq_bytes :: "rUdpFragmntReq \<Rightarrow> byte list" where
  "rUdpFragmntReq_bytes r =
     [ucast (q_msgCode r) OR push_bit 2 (ucast (q_pad r)), q_fragmntLost r, q_seqNum r]"

definition rUdpFragmntReq_of_bytes :: "byte list \<Rightarrow> rUdpFragmntReq" where
  "rUdpFragmntReq_of_bytes bs =
     \<lparr> q_msgCode = ucast (bs ! 0), q_pad = ucast (drop_bit 2 (bs ! 0)),
       q_fragmntLost = bs ! 1, q_seqNum = bs ! 2 \<rparr>"

definition Msg_Buf_bytes :: "Msg_Buf \<Rightarrow> byte list" where
  "Msg_Buf_bytes m =
     Msg_Header_bytes (msgHeader m) @ m_data m @ [m_opCode m] @ le_bytes 2 (unat (m_termId m))
     @ m_hiSkyId m @ le_bytes 2 (unat (m_msgLen m)) @ [m_seqNum m]
     @ le_bytes 8 (unat (tv_sec (m_time m))) @ le_bytes 8 (unat (tv_usec (m_time m)))
     @ le_bytes 8 (unat (m_next m))"

definition Msg_Buf_of_bytes :: "byte list \<Rightarrow> Msg_Buf" where
  "Msg_Buf_of_bytes bs =
     \<lparr> msgHeader = Msg_Header_of_bytes (take 3 bs), m_data = take 60 (drop 3 bs),
       m_opCode = bs ! 63, m_termId = of_nat (le_nat (take 2 (drop 64 bs))),
       m_hiSkyId = take 6 (drop 66 bs), m_msgLen = of_nat (le_nat (take 2 (drop 72 bs))),
       m_seqNum = bs ! 74,
       m_time = \<lparr> tv_sec = of_nat (le_nat (take 8 (drop 75 bs))),
                  tv_usec = of_nat (le_nat (take 8 (drop 83 bs))) \<rparr>,
       m_next = of_nat (le_nat (take 8 (drop 91 bs))) \<rparr>"

text \<open>A buffer of zero bytes.\<close>

definition zero_Msg_Buf :: Msg_Buf where
  "zero_Msg_Buf = \<lparr> msgHeader = \<lparr> h_msgCode = 0, h_frgmntIdx = 0, h_frgmnts = 0, h_seqNum = 0, h_size = 0 \<rparr>,
     m_data = replicate 60 0, m_opCode = 0, m_termId = 0, m_hiSkyId = replicate 6 0, m_msgLen = 0,
     m_seqNum = 0, m_time = \<lparr> tv_sec = 0, tv_usec = 0 \<rparr>, m_next = NULL \<rparr>"

text \<open>The arrays inside a \<open>Msg_Buf\<close> have their declared lengths.\<close>

definition wf_Msg_Buf :: "Msg_Buf \<Rightarrow> bool" where
  "wf_Msg_Buf m \<longleftrightarrow> length (m_data m) = MAX_MSG_SIZE \<and> length (m_hiSkyId m) = 6"

lemma wf_zero_Msg_Buf [simp]: "wf_Msg_Buf zero_Msg_Buf"
  by (simp add: wf_Msg_Buf_def zero_Msg_Buf_def MAX_MSG_SIZE_def)

lemma length_Msg_Header_bytes [simp]: "length (Msg_Header_bytes h) = 3"
  by (simp add: Msg_Header_bytes_def)

lemma length_Msg_Buf_bytes [bytes_simps]:
  "wf_Msg_Buf m \<Longrightarrow> length (Msg_Buf_bytes m) = sizeof_Msg_Buf"
  by (simp add: Msg_Buf_bytes_def wf_Msg_Buf_def pkt_consts sizeofs)

lemma Msg_Header_word_split:
  "(ucast (ucast w :: u8) :: u16) OR push_bit 8 (ucast (ucast (drop_bit 8 w) :: u8)) = w"
  by (rule bit_word_eqI) (auto simp: bit_simps)

lemma Msg_Header_word_fields:
  "ucast (Msg_Header_word h) = h_msgCode h"
  "ucast (drop_bit 2 (Msg_Header_word h)) = h_frgmntIdx h"
  "ucast (drop_bit 7 (Msg_Header_word h)) = h_frgmnts h"
  "ucast (drop_bit 12 (Msg_Header_word h)) = h_seqNum h"
  by (rule bit_word_eqI;
      auto simp: Msg_Header_word_def bit_simps dest: bit_imp_le_length)+

lemma Msg_Header_roundtrip: "Msg_Header_of_bytes (Msg_Header_bytes h @ bs) = h"
  by (simp add: Msg_Header_of_bytes_def Msg_Header_bytes_def Let_def
      Msg_Header_word_split Msg_Header_word_fields)

lemma Msg_Header_of_bytes_take:
  "3 \<le> n \<Longrightarrow> Msg_Header_of_bytes (take n bs) = Msg_Header_of_bytes bs"
  by (simp add: Msg_Header_of_bytes_def)


text \<open>Decoding and re-encoding the header loses nothing either: all 16 bits are used.\<close>

lemma Msg_Header_word_join:
  "Msg_Header_word \<lparr> h_msgCode = ucast w, h_frgmntIdx = ucast (drop_bit 2 w),
     h_frgmnts = ucast (drop_bit 7 w), h_seqNum = ucast (drop_bit 12 w), h_size = s \<rparr> = w"
proof (rule bit_word_eqI)
  fix n
  assume n: "n < LENGTH(16)"
  then consider "n < 2" | "2 \<le> n" "n < 7" | "7 \<le> n" "n < 12" | "12 \<le> n" "n < 16" by force
  then show "bit (Msg_Header_word \<lparr> h_msgCode = ucast w, h_frgmntIdx = ucast (drop_bit 2 w),
     h_frgmnts = ucast (drop_bit 7 w), h_seqNum = ucast (drop_bit 12 w), h_size = s \<rparr>) n = bit w n"
    by cases (auto simp: Msg_Header_word_def bit_simps Suc_diff_le numeral_2_eq_2
        simp flip: numeral_2_eq_2 dest: le_add_diff_inverse)
qed

lemma byte_lo_join: "(ucast (ucast a OR push_bit 8 (ucast b) :: u16) :: u8) = (a :: u8)"
  by (rule bit_word_eqI) (auto simp: bit_simps)

lemma byte_hi_join:
  "(ucast (drop_bit 8 (ucast (a :: u8) OR push_bit 8 (ucast b) :: u16)) :: u8) = (b :: u8)"
  by (rule bit_word_eqI) (auto simp: bit_simps dest: bit_imp_le_length)

lemma Msg_Header_bytes_of_bytes:
  assumes "3 \<le> length bs"
  shows "Msg_Header_bytes (Msg_Header_of_bytes bs) = take 3 bs"
proof -
  obtain a b c r where "bs = a # b # c # r"
    using assms by (auto simp: numeral_3_eq_3 Suc_le_length_iff)
  then show ?thesis
    by (simp add: Msg_Header_bytes_def Msg_Header_of_bytes_def Let_def Msg_Header_word_join
        byte_lo_join byte_hi_join del: drop_bit_or)
qed

lemma of_nat_le_nat_2 [bytes_simps]: "of_nat (le_nat (le_bytes 2 (unat (w :: u16)))) = w"
  by (rule of_nat_le_nat_le_bytes) simp

lemma of_nat_le_nat_8 [bytes_simps]: "of_nat (le_nat (le_bytes 8 (unat (w :: u64)))) = w"
  by (rule of_nat_le_nat_le_bytes) simp

lemma Msg_Buf_roundtrip:
  assumes "wf_Msg_Buf m"
  shows "Msg_Buf_of_bytes (Msg_Buf_bytes m) = m"
proof -
  have len: "length (m_data m) = 60" "length (m_hiSkyId m) = 6"
    using assms by (simp_all add: wf_Msg_Buf_def pkt_consts)
  show ?thesis
    unfolding Msg_Buf_of_bytes_def Msg_Buf_bytes_def
    using Msg_Header_roundtrip [of "msgHeader m" "[]"]
    by (simp add: len nth_append bytes_simps)
qed

lemma unat_of_nat_le_nat_2 [bytes_simps]:
  "length bs = 2 \<Longrightarrow> le_bytes 2 (unat (of_nat (le_nat bs) :: u16)) = bs"
  using le_nat_bound [of bs] le_bytes_le_nat [of bs]
  by (simp add: unsigned_of_nat take_bit_nat_eq_self)

lemma unat_of_nat_le_nat_8 [bytes_simps]:
  "length bs = 8 \<Longrightarrow> le_bytes 8 (unat (of_nat (le_nat bs) :: u64)) = bs"
  using le_nat_bound [of bs] le_bytes_le_nat [of bs]
  by (simp add: unsigned_of_nat take_bit_nat_eq_self)

lemma take_1_drop: "i < length bs \<Longrightarrow> [bs ! i] = take 1 (drop i bs)"
  by (simp add: take_Suc_conv_app_nth hd_drop_conv_nth)

lemma Msg_Buf_bytes_of_bytes:
  assumes "length bs = sizeof_Msg_Buf"
  shows "Msg_Buf_bytes (Msg_Buf_of_bytes bs) = bs"
proof -
  have len: "length bs = 99" using assms by (simp add: sizeofs)
  have split: "take a (drop i bs) @ drop (a + i) bs = drop i bs" for a i
    by (metis append_take_drop_id drop_drop)
  have "Msg_Buf_bytes (Msg_Buf_of_bytes bs) =
      take 3 bs @ take 60 (drop 3 bs) @ take 1 (drop 63 bs) @ take 2 (drop 64 bs) @
      take 6 (drop 66 bs) @ take 2 (drop 72 bs) @ take 1 (drop 74 bs) @ take 8 (drop 75 bs) @
      take 8 (drop 83 bs) @ take 8 (drop 91 bs)"
    by (simp add: Msg_Buf_bytes_def Msg_Buf_of_bytes_def Msg_Header_bytes_of_bytes
        take_1_drop len bytes_simps del: One_nat_def)
  also have "\<dots> = bs"
    using split [of 8 83] split [of 8 75] split [of 1 74] split [of 2 72] split [of 6 66]
      split [of 2 64] split [of 1 63] split [of 60 3]
    by (simp add: len del: One_nat_def)
  finally show ?thesis .
qed

lemma wf_Msg_Buf_of_bytes: "length bs = sizeof_Msg_Buf \<Longrightarrow> wf_Msg_Buf (Msg_Buf_of_bytes bs)"
  by (simp add: wf_Msg_Buf_def Msg_Buf_of_bytes_def sizeofs pkt_consts)

text \<open>The bytes from offset 3, where \<open>m_data\<close> starts, are what \<open>memcpy(..., msg->data, n)\<close> reads.\<close>

lemma take_drop_3_Msg_Buf_bytes:
  "wf_Msg_Buf m \<Longrightarrow> n \<le> MAX_MSG_SIZE \<Longrightarrow> take n (drop 3 (Msg_Buf_bytes m)) = take n (m_data m)"
  by (simp add: Msg_Buf_bytes_def wf_Msg_Buf_def)

section \<open>Reading a request out of a message buffer\<close>

text \<open>
  \<open>fusion_receive_routine\<close> casts a received \<open>Msg_Buf_t *\<close> to \<open>rUdpFragmntReq_t *\<close>; the
  message code sits in the same two bits of the first byte of both structs.
\<close>

lemma rUdpFragmntReq_roundtrip: "rUdpFragmntReq_of_bytes (rUdpFragmntReq_bytes r @ bs) = r"
proof -
  have lo: "ucast (ucast a OR push_bit 2 (ucast b) :: u8) = (a :: 2 word)" for a :: "2 word" and b :: "6 word"
    by (rule bit_word_eqI) (auto simp: bit_simps)
  have hi: "ucast (drop_bit 2 (ucast a OR push_bit 2 (ucast b) :: u8)) = (b :: 6 word)"
    for a :: "2 word" and b :: "6 word"
    by (rule bit_word_eqI) (auto simp: bit_simps dest: bit_imp_le_length)
  show ?thesis
    by (simp add: rUdpFragmntReq_of_bytes_def rUdpFragmntReq_bytes_def lo hi del: drop_bit_or)
qed

lemma msgCode_same_bits:
  "h_msgCode (Msg_Header_of_bytes bs) = q_msgCode (rUdpFragmntReq_of_bytes bs)"
  unfolding Msg_Header_of_bytes_def rUdpFragmntReq_of_bytes_def Let_def
  by (simp, rule bit_word_eqI) (auto simp: bit_simps)

end
