(* ===== verification/Fragments.thy ===== *)
theory Fragments
  imports Pkt_Headers
begin

text \<open>
  \<open>src/hs_udp_fragments.h\<close> and \<open>src/hs_udp_fragments.c\<close>: the table of packets under
  reassembly.  A handle (\<open>UDP_Fragment_t *\<close>) is the pair of indices of the slot it points to.
\<close>

definition NET_PACKET_SIZE :: nat where "NET_PACKET_SIZE = 1500"
definition TERMINAL_ID :: u16 where "TERMINAL_ID = 0"
definition FRAGMENTS_TABLE_COUNT :: nat where "FRAGMENTS_TABLE_COUNT = 1"
definition MAX_PKTS :: nat where "MAX_PKTS = 4"

lemmas frag_consts = NET_PACKET_SIZE_def TERMINAL_ID_def FRAGMENTS_TABLE_COUNT_def MAX_PKTS_def

record UDP_Fragment =
  f_used :: bool
  f_frgmntIdx :: u8
  f_accumulatedFrgmnts :: u8
  f_frgmnts :: u8
  f_pktSeqNum :: u8
  f_frags_mask :: u32
  f_lastTime :: timeval
  f_size :: u16
  f_terminalId :: u16
  f_data :: "byte list"

record UDP_Fragments_Table =
  unusedIdx :: u8
  fragments :: "UDP_Fragment list list"

type_synonym handle = "nat \<times> nat"

definition zero_fragment :: UDP_Fragment where
  "zero_fragment = \<lparr> f_used = False, f_frgmntIdx = 0, f_accumulatedFrgmnts = 0, f_frgmnts = 0,
     f_pktSeqNum = 0, f_frags_mask = 0, f_lastTime = \<lparr> tv_sec = 0, tv_usec = 0 \<rparr>, f_size = 0,
     f_terminalId = 0, f_data = replicate NET_PACKET_SIZE 0 \<rparr>"

text \<open>The global table starts as zeroed static storage.\<close>

definition zero_table :: UDP_Fragments_Table where
  "zero_table = \<lparr> unusedIdx = 0,
     fragments = replicate FRAGMENTS_TABLE_COUNT (replicate (MAX_PKTS + 1) zero_fragment) \<rparr>"

definition frag_at :: "UDP_Fragments_Table \<Rightarrow> handle \<Rightarrow> UDP_Fragment" where
  "frag_at T h = fragments T ! fst h ! snd h"

definition frag_upd :: "UDP_Fragments_Table \<Rightarrow> handle \<Rightarrow> UDP_Fragment \<Rightarrow> UDP_Fragments_Table" where
  "frag_upd T h F = T\<lparr>fragments := (fragments T)[fst h := (fragments T ! fst h)[snd h := F]]\<rparr>"

section \<open>Operations\<close>

text \<open>The loops clear the slots \<open>0 \<dots> MAX_PKTS - 1\<close> of every row; each row has one slot more.\<close>

definition init_fragments_table :: "UDP_Fragments_Table \<Rightarrow> UDP_Fragments_Table" where
  "init_fragments_table T =
     fold (\<lambda>i T. fold (\<lambda>j T. frag_upd T (i, j) zero_fragment) [0..<MAX_PKTS] T)
       [0..<FRAGMENTS_TABLE_COUNT] (T\<lparr>unusedIdx := 0\<rparr>)"

definition find_terminal :: "UDP_Fragments_Table \<Rightarrow> u16 \<Rightarrow> u8 \<Rightarrow> handle option" where
  "find_terminal T termId pktSeq =
     (if MAX_PKTS \<le> unat pktSeq then None
      else map_option (\<lambda>i. (i, unat pktSeq))
        (List.find (\<lambda>i. f_terminalId (frag_at T (i, unat pktSeq)) = termId
                       \<and> f_used (frag_at T (i, unat pktSeq)))
           [0..<FRAGMENTS_TABLE_COUNT]))"

text \<open>
  There is no check of \<open>pktSeq\<close> here: beyond the \<open>MAX_PKTS + 1\<close> slots of a row the first
  test already reads outside the row.
\<close>

definition get_freeFragment :: "UDP_Fragments_Table \<Rightarrow> u16 \<Rightarrow> u8
    \<Rightarrow> c_error + (UDP_Fragments_Table \<times> handle option)" where
  "get_freeFragment T termId pktSeq =
     (if MAX_PKTS + 1 \<le> unat pktSeq then Inl OutOfBounds
      else (case List.find (\<lambda>i. \<not> f_used (frag_at T (i, unat pktSeq))) [0..<FRAGMENTS_TABLE_COUNT] of
          None \<Rightarrow> Inr (T, None)
        | Some i \<Rightarrow>
            (let h = (i, unat pktSeq) in
             Inr (frag_upd (T\<lparr>unusedIdx := of_nat i\<rparr>) h
                    ((frag_at T h)\<lparr>f_terminalId := termId, f_used := True, f_frgmntIdx := 0,
                       f_accumulatedFrgmnts := 0, f_frgmnts := 0, f_frags_mask := 0, f_size := 0,
                       f_pktSeqNum := 0xFF\<rparr>),
                  Some h))))"

definition release_fragment :: "UDP_Fragments_Table \<Rightarrow> handle option \<Rightarrow> c_error + UDP_Fragments_Table" where
  "release_fragment T h =
     (case h of None \<Rightarrow> Inl NullDeref | Some h \<Rightarrow> Inr (frag_upd T h zero_fragment))"

section \<open>Shape of the table\<close>

definition wf_table :: "UDP_Fragments_Table \<Rightarrow> bool" where
  "wf_table T \<longleftrightarrow> length (fragments T) = FRAGMENTS_TABLE_COUNT
     \<and> (\<forall>row \<in> set (fragments T). length row = MAX_PKTS + 1)
     \<and> (\<forall>row \<in> set (fragments T). \<forall>F \<in> set row. length (f_data F) = NET_PACKET_SIZE)"

text \<open>With one row the table is a list of five slots.\<close>

definition slots :: "UDP_Fragments_Table \<Rightarrow> UDP_Fragment list" where
  "slots T = fragments T ! 0"

lemma wf_tableE:
  assumes "wf_table T"
  obtains S where "fragments T = [S]" "slots T = S" "length S = 5"
    "\<And>F. F \<in> set S \<Longrightarrow> length (f_data F) = 1500"
  using assms by (auto simp: wf_table_def slots_def frag_consts length_Suc_conv)

lemma wf_zero_table: "wf_table zero_table"
  by (simp add: wf_table_def zero_table_def zero_fragment_def frag_consts)

lemma frag_at_slots [simp]: "frag_at T (0, j) = slots T ! j"
  by (simp add: frag_at_def slots_def)

lemma slots_frag_upd:
  "wf_table T \<Longrightarrow> slots (frag_upd T (0, j) F) = (slots T)[j := F]"
  by (erule wf_tableE) (simp add: frag_upd_def slots_def)

lemma wf_frag_upd:
  "wf_table T \<Longrightarrow> length (f_data F) = 1500 \<Longrightarrow> wf_table (frag_upd T (0, j) F)"
  by (erule wf_tableE)
    (auto simp: wf_table_def frag_upd_def frag_consts dest!: set_update_subset_insert [THEN subsetD])

lemma wf_unusedIdx [simp]: "wf_table (T\<lparr>unusedIdx := i\<rparr>) = wf_table T"
  and slots_unusedIdx [simp]: "slots (T\<lparr>unusedIdx := i\<rparr>) = slots T"
  by (simp_all add: wf_table_def slots_def)

lemma length_f_data: "wf_table T \<Longrightarrow> j < 5 \<Longrightarrow> length (f_data (slots T ! j)) = 1500"
  by (erule wf_tableE) simp

lemma length_slots: "wf_table T \<Longrightarrow> length (slots T) = 5"
  by (erule wf_tableE) simp

lemma find_0: "List.find P [0..<FRAGMENTS_TABLE_COUNT] = (if P 0 then Some 0 else None)"
  by (simp add: frag_consts)

lemma find_terminal_slots:
  "find_terminal T termId s =
     (if unat s < 4 \<and> f_terminalId (slots T ! unat s) = termId \<and> f_used (slots T ! unat s)
      then Some (0, unat s) else None)"
  by (simp add: find_terminal_def find_0) (simp add: frag_consts)

lemma get_freeFragment_slots:
  "get_freeFragment T termId s =
     (if 5 \<le> unat s then Inl OutOfBounds
      else if f_used (slots T ! unat s) then Inr (T, None)
      else Inr (frag_upd (T\<lparr>unusedIdx := 0\<rparr>) (0, unat s)
                 ((slots T ! unat s)\<lparr>f_terminalId := termId, f_used := True, f_frgmntIdx := 0,
                    f_accumulatedFrgmnts := 0, f_frgmnts := 0, f_frags_mask := 0, f_size := 0,
                    f_pktSeqNum := 0xFF\<rparr>), Some (0, unat s)))"
  by (simp add: get_freeFragment_def find_0 Let_def) (simp add: frag_consts)

section \<open>The table as an array of slots\<close>

text \<open>What the reassembly relies on: writing one slot leaves the others alone.\<close>

locale slot_array =
  fixes wf :: "'t \<Rightarrow> bool"
    and good :: "'f \<Rightarrow> bool"
    and size_of :: nat
    and get :: "'t \<Rightarrow> nat \<Rightarrow> 'f"
    and put :: "'t \<Rightarrow> nat \<Rightarrow> 'f \<Rightarrow> 't"
  assumes get_good: "wf T \<Longrightarrow> j < size_of \<Longrightarrow> good (get T j)"
    and wf_put: "wf T \<Longrightarrow> good F \<Longrightarrow> wf (put T j F)"
    and get_put: "wf T \<Longrightarrow> i < size_of \<Longrightarrow> get (put T j F) i = (if i = j then F else get T i)"
begin

lemma related_put:
  assumes "wf T" "n \<le> size_of" "\<forall>i<n. R (get T i) (A i)" "R F x"
  shows "\<forall>i<n. R (get (put T j F) i) ((A(j := x)) i)"
  using assms by (simp add: get_put)

end

interpretation tab: slot_array wf_table "\<lambda>F. length (f_data F) = 1500" 5 "\<lambda>T j. slots T ! j"
  "\<lambda>T j F. frag_upd T (0, j) F"
proof unfold_locales
  fix T :: UDP_Fragments_Table and i j F
  assume "wf_table T" "i < (5::nat)"
  then show "slots (frag_upd T (0, j) F) ! i = (if i = j then F else slots T ! i)"
    by (simp add: slots_frag_upd length_slots nth_list_update)
qed (auto simp: length_f_data wf_frag_upd)

end
