(* ===== verification/Rudp_Req.thy ===== *)
theory Rudp_Req
  imports Fragments
begin

text \<open>
  \<open>src/rudp_req.c\<close>: reassembly of fragmented messages and the requests for fragments that
  did not arrive.  The state is the global fragments table, the sequence number of the packet
  being received (an \<open>int8_t\<close>, \<open>-1\<close> before the first packet) and whether the socket towards
  Fusion is set.  What is sent on that socket is returned as a list of datagrams.
\<close>

definition R_UDP_TIMEOUT :: nat where "R_UDP_TIMEOUT = 40"

record rudp_state =
  fragmentsTable :: UDP_Fragments_Table
  last_pkt_seq :: u8
  fusionSock :: bool

text \<open>
  What a call takes from its surroundings: the time of day and the six bits of padding that
  the two stack-allocated requests happen to hold.
\<close>

record rudp_env =
  now :: timeval
  ask_pad :: "6 word"
  complete_pad :: "6 word"

section \<open>Operations\<close>

definition term_set_cur_pkt_seq :: "u8 \<Rightarrow> rudp_state \<Rightarrow> rudp_state" where
  "term_set_cur_pkt_seq seqNum st = st\<lparr>last_pkt_seq := seqNum\<rparr>"

definition term_get_cur_pkt_seq :: "rudp_state \<Rightarrow> u8" where
  "term_get_cur_pkt_seq st = last_pkt_seq st"

text \<open>The body of the timeout loop: slots \<open>0 \<dots> MAX_PKTS - 1\<close>; \<open>tm\<close> is a signed difference.\<close>

definition r_udp_req_sweep :: "timeval \<Rightarrow> rudp_state \<Rightarrow> rudp_state" where
  "r_udp_req_sweep curTime st =
     st\<lparr>fragmentsTable :=
       fold (\<lambda>(i, j) T.
           (let frag = frag_at T (i, j) in
            if \<not> f_used frag then T
            else if int R_UDP_TIMEOUT < sint (tv_sec curTime - tv_sec (f_lastTime frag))
            then frag_upd T (i, j) (frag\<lparr>f_used := False\<rparr>) else T))
         (List.product [0..<FRAGMENTS_TABLE_COUNT] [0..<MAX_PKTS]) (fragmentsTable st)\<rparr>"

definition hub_send_req :: "bool \<Rightarrow> rUdpFragmntReq \<Rightarrow> c_error + byte list" where
  "hub_send_req sock req = (if \<not> sock then Inl NullDeref else Inr (rUdpFragmntReq_bytes req))"

definition rrudp_ask_retransmit :: "bool \<Rightarrow> 6 word \<Rightarrow> u8 \<Rightarrow> Msg_Header \<Rightarrow> c_error + byte list list" where
  "rrudp_ask_retransmit sock pad idx h =
     (case hub_send_req sock \<lparr> q_msgCode = MSG_CODE_REQUEST_FRAG, q_pad = pad,
             q_fragmntLost = idx, q_seqNum = ucast (h_seqNum h) \<rparr> of
        Inl e \<Rightarrow> Inl e | Inr d \<Rightarrow> Inr [d])"

text \<open>The loop over \<open>i \<dots> i + n - 1\<close>: one request for every clear bit of the mask.\<close>

fun rtx_loop :: "bool \<Rightarrow> rUdpFragmntReq \<Rightarrow> u32 \<Rightarrow> nat \<Rightarrow> nat \<Rightarrow> c_error + byte list list" where
  "rtx_loop sock req fmask i 0 = Inr []"
| "rtx_loop sock req fmask i (Suc n) =
     (if 32 \<le> i then Inl ShiftRange
      else if fmask AND push_bit i 1 = 0
      then (case hub_send_req sock (req\<lparr>q_fragmntLost := of_nat i\<rparr>) of
              Inl e \<Rightarrow> Inl e
            | Inr d \<Rightarrow> (case rtx_loop sock req fmask (Suc i) n of Inl e \<Rightarrow> Inl e | Inr ds \<Rightarrow> Inr (d # ds)))
      else rtx_loop sock req fmask (Suc i) n)"

definition rrudp_complete_last_pkt :: "bool \<Rightarrow> 6 word \<Rightarrow> UDP_Fragments_Table \<Rightarrow> u8
    \<Rightarrow> c_error + byte list list" where
  "rrudp_complete_last_pkt sock pad T pkt_seq =
     (case find_terminal T TERMINAL_ID pkt_seq of
        None \<Rightarrow> Inr []
      | Some h \<Rightarrow>
          (let frag = frag_at T h in
           rtx_loop sock \<lparr> q_msgCode = MSG_CODE_REQUEST_FRAG, q_pad = pad, q_fragmntLost = 0,
                           q_seqNum = pkt_seq \<rparr> (f_frags_mask frag) 0 (unat (f_frgmnts frag))))"

definition retransmit_msg :: "Msg_Buf \<Rightarrow> bool" where
  "retransmit_msg msg \<longleftrightarrow> h_msgCode (msgHeader msg) = MSG_CODE_REQUEST_FRAG"

text \<open>
  The part of \<open>defragment\<close> that looks the packet up: the handle, the state after the lookup
  and the requests for the packet that was being received before.
\<close>

definition defrag_lookup :: "rudp_env \<Rightarrow> rudp_state \<Rightarrow> Msg_Buf \<Rightarrow> c_error + (rudp_state \<times> handle \<times> byte list list)" where
  "defrag_lookup env st msg =
     (let seq = ucast (h_seqNum (msgHeader msg)) :: u8;
          found = find_terminal (fragmentsTable st) TERMINAL_ID seq;
          st1 = (if found \<noteq> None \<and> \<not> retransmit_msg msg then term_set_cur_pkt_seq seq st else st)
      in case (case found of
                 Some h \<Rightarrow> Inr (fragmentsTable st1, h)
               | None \<Rightarrow>
                   (case get_freeFragment (fragmentsTable st1) TERMINAL_ID seq of
                      Inl e \<Rightarrow> Inl e
                    | Inr (T, None) \<Rightarrow> Inl NullDeref  \<comment> \<open>\<open>memset(handle, \<dots>)\<close> with a NULL handle\<close>
                    | Inr (T, Some h) \<Rightarrow> Inr (T, h))) of
           Inl e \<Rightarrow> Inl e
         | Inr (T, h) \<Rightarrow>
             (let st2 = st1\<lparr>fragmentsTable := T\<rparr> in
              if sint (term_get_cur_pkt_seq st2) \<noteq> int (unat seq)
              then (case rrudp_complete_last_pkt (fusionSock st2) (complete_pad env) T
                           (term_get_cur_pkt_seq st2) of
                      Inl e \<Rightarrow> Inl e | Inr ds \<Rightarrow> Inr (st2, h, ds))
              else Inr (st2, h, [])))"

text \<open>The slot after the fragment is stored; \<open>memcpy\<close> reads from \<open>msg->data\<close> on.\<close>

definition defrag_store :: "rudp_env \<Rightarrow> Msg_Buf \<Rightarrow> UDP_Fragment \<Rightarrow> c_error + UDP_Fragment" where
  "defrag_store env msg F =
     (let hdr = msgHeader msg; idx = unat (h_frgmntIdx hdr);
          off = (if h_frgmnts hdr \<noteq> 0 then idx * MAX_MSG_SIZE else 0)
      in case memcpy (f_data F) off (drop 3 (Msg_Buf_bytes msg)) (unat (m_msgLen msg)) of
           Inl e \<Rightarrow> Inl e
         | Inr d \<Rightarrow> Inr (F\<lparr>f_data := d, f_size := f_size F + m_msgLen msg,
                           f_accumulatedFrgmnts := f_accumulatedFrgmnts F + 1,
                           f_pktSeqNum := ucast (h_seqNum hdr), f_frgmnts := ucast (h_frgmnts hdr),
                           f_frags_mask := f_frags_mask F OR push_bit idx 1,
                           f_lastTime := now env\<rparr>))"

text \<open>
  The rest of \<open>defragment\<close> with the handle found: new state, return value, \<open>*outFragment\<close>, datagrams
  sent.  Between the two parts the table may change, as no lock protects it.
\<close>

definition defrag_finish :: "rudp_env \<Rightarrow> Msg_Buf \<Rightarrow> rudp_state \<Rightarrow> handle \<Rightarrow> byte list list
    \<Rightarrow> c_error + (rudp_state \<times> int \<times> handle option \<times> byte list list)" where
  "defrag_finish env msg st2 h ds =
     (let hdr = msgHeader msg; seq = ucast (h_seqNum hdr) :: u8 in
      case defrag_store env msg ((frag_at (fragmentsTable st2) h)\<lparr>f_pktSeqNum := seq\<rparr>) of
        Inl e \<Rightarrow> Inl e
      | Inr F \<Rightarrow>
          (let st3 = (if \<not> retransmit_msg msg then term_set_cur_pkt_seq seq st2 else st2) in
           case (if unat (f_frgmntIdx F) + 1 < unat (h_frgmntIdx hdr)
                 then rrudp_ask_retransmit (fusionSock st3) (ask_pad env)
                        (ucast (h_frgmntIdx hdr) - 1) hdr
                 else Inr []) of
             Inl e \<Rightarrow> Inl e
           | Inr ds' \<Rightarrow>
               (let F' = F\<lparr>f_frgmntIdx := ucast (h_frgmntIdx hdr)\<rparr>;
                    st4 = st3\<lparr>fragmentsTable := frag_upd (fragmentsTable st3) h F'\<rparr>
                in if unat (h_frgmnts hdr) \<le> unat (f_accumulatedFrgmnts F')
                   then Inr (st4, 0, Some h, ds @ ds')
                   else if h_frgmntIdx hdr < h_frgmnts hdr
                   then Inr (st4, -1, None, ds @ ds')
                   else Inr (st4\<lparr>fragmentsTable := frag_upd (fragmentsTable st4) h zero_fragment\<rparr>,
                             -1, None, ds @ ds'))))"

definition defragment :: "rudp_env \<Rightarrow> rudp_state \<Rightarrow> Msg_Buf
    \<Rightarrow> c_error + (rudp_state \<times> int \<times> handle option \<times> byte list list)" where
  "defragment env st msg =
     (if h_frgmntIdx (msgHeader msg) < h_frgmnts (msgHeader msg) then
        (case defrag_lookup env st msg of
           Inl e \<Rightarrow> Inl e
         | Inr (st2, h, ds) \<Rightarrow> defrag_finish env msg st2 h ds)
      else Inr (st, 0, None, []))"

text \<open>The requests sent by the lookup are only put in front.\<close>

lemma defrag_finish_append:
  "defrag_finish env msg st h ds = (case defrag_finish env msg st h [] of
     Inl e \<Rightarrow> Inl e | Inr (st', r, m, ds') \<Rightarrow> Inr (st', r, m, ds @ ds'))"
  by (simp add: defrag_finish_def Let_def split: sum.split)

lemmas defragment_unfold = defragment_def defrag_finish_def

section \<open>The requests sent\<close>

lemma rtx_loop_eq:
  "i + n \<le> 32 \<Longrightarrow> rtx_loop True req fmask i n =
     Inr (map (\<lambda>j. rUdpFragmntReq_bytes (req\<lparr>q_fragmntLost := of_nat j\<rparr>))
           (filter (\<lambda>j. \<not> bit fmask j) [i..<i + n]))"
proof (induction n arbitrary: i)
  case 0
  then show ?case by simp
next
  case (Suc n)
  then have IH: "rtx_loop True req fmask (Suc i) n =
     Inr (map (\<lambda>j. rUdpFragmntReq_bytes (req\<lparr>q_fragmntLost := of_nat j\<rparr>))
           (filter (\<lambda>j. \<not> bit fmask j) [Suc i..<Suc i + n]))" by simp
  have "fmask AND push_bit i 1 = 0 \<longleftrightarrow> \<not> bit fmask i"
    by (simp add: bit_iff_and_push_bit_not_eq_0)
  moreover have "[i..<i + Suc n] = i # [Suc i..<Suc i + n]" by (simp add: upt_rec)
  ultimately show ?case using Suc.prems by (simp add: IH hub_send_req_def del: upt_Suc)
qed

lemma rrudp_complete_last_pkt_Inr:
  assumes "\<And>s. s < 4 \<Longrightarrow> f_used (slots T ! s) \<Longrightarrow> unat (f_frgmnts (slots T ! s)) \<le> 32"
  shows "\<exists>ds. rrudp_complete_last_pkt True pad T pkt_seq = Inr ds"
  using assms [of "unat pkt_seq"]
  by (auto simp: rrudp_complete_last_pkt_def find_terminal_slots rtx_loop_eq Let_def)

end
