(* ===== verification/Hs_Udp.thy ===== *)
theory Hs_Udp
  imports Prelude
begin

text \<open>
  \<open>src/hs_udp.c\<close>: UDP sockets.  What the operating system answers is an argument: the result
  of \<open>socket\<close> and \<open>bind\<close>, the file status flags, the datagram \<open>recvfrom\<close> takes and its sender.
  An address is kept as \<open>struct sockaddr_in\<close> holds it, the port in network byte order.
\<close>

definition AF_INET :: u16 where "AF_INET = 2"
definition INADDR_ANY :: u32 where "INADDR_ANY = 0"
definition O_NONBLOCK :: u32 where "O_NONBLOCK = 0x800"

record sockaddr_in =
  sin_family :: u16
  sin_port :: u16
  s_addr :: u32

definition zero_addr :: sockaddr_in where
  "zero_addr = \<lparr> sin_family = 0, sin_port = 0, s_addr = 0 \<rparr>"

record UDP_socket =
  sk_port :: u16
  sockFD :: int
  sk_addr :: sockaddr_in
  sockOption :: int

text \<open>The socket inside the kernel: its bound address and its flags.\<close>

record kernel_socket =
  k_bound :: "sockaddr_in option"
  k_flags :: u32

definition htons :: "u16 \<Rightarrow> u16" where
  "htons x = push_bit 8 x OR drop_bit 8 x"

section \<open>Operations\<close>

definition set_nonblocking :: "kernel_socket \<Rightarrow> kernel_socket" where
  "set_nonblocking k = k\<lparr>k_flags := k_flags k OR O_NONBLOCK\<rparr>"

definition bind_server_socket :: "int \<Rightarrow> u16 \<Rightarrow> kernel_socket \<Rightarrow> kernel_socket \<times> int" where
  "bind_server_socket bind_res port k =
     (if bind_res < 0 then (k, bind_res)
      else (set_nonblocking (k\<lparr>k_bound := Some \<lparr> sin_family = AF_INET, sin_port = htons port, s_addr = INADDR_ANY \<rparr>\<rparr>), 0))"

definition create_server_socket :: "int \<Rightarrow> int \<Rightarrow> u16 \<Rightarrow> UDP_socket \<Rightarrow> kernel_socket
    \<Rightarrow> UDP_socket \<times> kernel_socket \<times> int" where
  "create_server_socket fd bind_res port sock k =
     (let s1 = sock\<lparr>sockFD := fd, sk_port := port, sk_addr := zero_addr\<rparr> in
      if fd < 0 then (s1, k, fd)
      else (let (k', r) = bind_server_socket bind_res port k in (s1\<lparr>sockOption := 1\<rparr>, k', r)))"

text \<open>The \<open>ipAddr\<close> argument is not used: its conversion is commented out in the source.\<close>

definition bind_client_address :: "string \<Rightarrow> u16 \<Rightarrow> UDP_socket \<Rightarrow> kernel_socket
    \<Rightarrow> UDP_socket \<times> kernel_socket \<times> int" where
  "bind_client_address ipAddr port sock k =
     (sock\<lparr>sk_addr := \<lparr> sin_family = AF_INET, sin_port = htons port, s_addr = INADDR_ANY \<rparr>\<rparr>, set_nonblocking k, 0)"

definition create_client_socket :: "int \<Rightarrow> string \<Rightarrow> u16 \<Rightarrow> UDP_socket \<Rightarrow> kernel_socket
    \<Rightarrow> UDP_socket \<times> kernel_socket \<times> int" where
  "create_client_socket fd ipAddr port sock k =
     (let s1 = sock\<lparr>sockFD := fd, sk_port := port\<rparr> in
      if fd < 0 then (s1, k, fd)
      else bind_client_address ipAddr port (s1\<lparr>sockOption := 1\<rparr>) k)"

text \<open>
  \<open>recvfrom\<close> writes at most \<open>n\<close> bytes of the datagram into the buffer and its sender into the
  socket's address; without a datagram it returns \<open>-1\<close>.
\<close>

definition udp_recv :: "UDP_socket \<Rightarrow> byte list \<Rightarrow> nat \<Rightarrow> (sockaddr_in \<times> byte list) option
    \<Rightarrow> UDP_socket \<times> byte list \<times> int" where
  "udp_recv sock buf n d =
     (case d of
        None \<Rightarrow> (sock, buf, -1)
      | Some (from, bs) \<Rightarrow> (sock\<lparr>sk_addr := from\<rparr>, mem_write buf 0 (take n bs), int (min n (length bs))))"

text \<open>\<open>sendto\<close> transmits the first \<open>n\<close> bytes at \<open>data\<close>.\<close>

definition sendto :: "byte list \<Rightarrow> nat \<Rightarrow> c_error + byte list" where
  "sendto data n = (if n \<le> length data then Inr (take n data) else Inl OutOfBounds)"

definition udp_send :: "UDP_socket \<Rightarrow> byte list \<Rightarrow> nat \<Rightarrow> c_error + (sockaddr_in \<times> byte list)" where
  "udp_send sock data n = (case sendto data n of Inl e \<Rightarrow> Inl e | Inr d \<Rightarrow> Inr (sk_addr sock, d))"

section \<open>Where datagrams go\<close>

lemma htons_htons: "htons (htons x) = x"
  unfolding htons_def by (rule bit_word_eqI) (auto simp: bit_simps dest: bit_imp_le_length)

text \<open>A server socket taking a series of datagrams, some of the calls finding none.\<close>

definition recv_all :: "(sockaddr_in \<times> byte list) option list \<Rightarrow> UDP_socket \<Rightarrow> UDP_socket" where
  "recv_all ds sock = fold (\<lambda>d s. fst (udp_recv s (replicate 1500 0) 1500 d)) ds sock"

lemma recv_all_addr:
  "sk_addr (recv_all ds sock) = (case filter (\<lambda>d. d \<noteq> None) ds of [] \<Rightarrow> sk_addr sock | x # xs \<Rightarrow> fst (the (last (x # xs))))"
proof (induction ds arbitrary: sock)
  case (Cons d ds)
  then show ?case
    by (cases d) (auto simp: recv_all_def udp_recv_def split: list.splits)
qed (simp add: recv_all_def)

text \<open>
  A server socket sends to whoever it heard from last; until the
  first datagram arrives it sends to the all-zero address, as the notes in the source warn.
\<close>

theorem server_sends_to_last_sender:
  assumes "0 \<le> fd" "0 \<le> bind_res" "n \<le> length data"
    and "create_server_socket fd bind_res port sock k = (s1, k1, r)"
  shows "r = 0 \<and> k_bound k1 = Some \<lparr> sin_family = AF_INET, sin_port = htons port, s_addr = INADDR_ANY \<rparr>
    \<and> udp_send (recv_all ds s1) data n = Inr
        (case filter (\<lambda>d. d \<noteq> None) ds of [] \<Rightarrow> zero_addr | x # xs \<Rightarrow> fst (the (last (x # xs))), take n data)"
  using assms
  by (auto simp: create_server_socket_def bind_server_socket_def set_nonblocking_def Let_def udp_send_def
      sendto_def recv_all_addr split: list.splits)

theorem server_sends_to_last_sender_witness:
  "(0::int) = 0 \<and> k_bound (set_nonblocking \<lparr> k_bound = Some \<lparr> sin_family = AF_INET, sin_port = htons 8080,
        s_addr = INADDR_ANY \<rparr>, k_flags = 2 \<rparr>) = Some \<lparr> sin_family = AF_INET, sin_port = htons 8080, s_addr = INADDR_ANY \<rparr>
    \<and> udp_send (recv_all [Some (\<lparr> sin_family = 2, sin_port = 7, s_addr = 5 \<rparr>, [1]), None]
          \<lparr> sk_port = 8080, sockFD = 3, sk_addr = zero_addr, sockOption = 1 \<rparr>) [9, 8] 1 = Inr
        (case filter (\<lambda>d. d \<noteq> None) [Some (\<lparr> sin_family = 2, sin_port = 7, s_addr = 5 \<rparr>, [1 :: byte]), None] of
           [] \<Rightarrow> zero_addr | x # xs \<Rightarrow> fst (the (last (x # xs))), take 1 [9, 8])"
  by (rule server_sends_to_last_sender [where fd = 3 and bind_res = 0 and port = 8080
        and sock = "\<lparr> sk_port = 0, sockFD = 0, sk_addr = zero_addr, sockOption = 0 \<rparr>"
        and k = "\<lparr> k_bound = None, k_flags = 2 \<rparr>"])
    (simp_all add: create_server_socket_def bind_server_socket_def set_nonblocking_def Let_def)

end
