(* ===== verification/Reassembly.thy ===== *)
theory Reassembly
  imports Rudp_Req Hs_Udp
begin

text \<open>
  Correctness of the reassembly of \<open>src/rudp_req.c\<close> against an abstract reassembler that
  keeps, for each sequence number, the list of fragments received so far.
\<close>

section \<open>Delivering a reassembled message\<close>

text \<open>
  The part of \<open>iot_transmit_routine\<close> that takes a message through \<open>defragment\<close>, sends what is
  complete to the IoT device and releases the handle; it returns the datagram sent, if any,
  and the requests sent to Fusion.
\<close>

definition iot_deliver :: "rudp_env \<Rightarrow> rudp_state \<Rightarrow> Msg_Buf
    \<Rightarrow> c_error + (rudp_state \<times> byte list option \<times> byte list list)" where
  "iot_deliver env st msg =
     (case defragment env st msg of
        Inl e \<Rightarrow> Inl e
      | Inr (st', res, msgHandle, ds) \<Rightarrow>
          if res = 0 then
            (let (dataPtr, dataSizeToSend) =
                (case msgHandle of
                   Some h \<Rightarrow> (f_data (frag_at (fragmentsTable st') h),
                              unat (f_size (frag_at (fragmentsTable st') h)))
                 | None \<Rightarrow> (drop 3 (Msg_Buf_bytes msg), unat (m_msgLen msg)))
             in case sendto dataPtr dataSizeToSend of
                  Inl e \<Rightarrow> Inl e
                | Inr d \<Rightarrow>
                    (case release_fragment (fragmentsTable st') msgHandle of
                       Inl e \<Rightarrow> Inl e
                     | Inr T \<Rightarrow> Inr (st'\<lparr>fragmentsTable := T\<rparr>, Some d, ds)))
          else Inr (st', None, ds))"

section \<open>The abstract reassembler\<close>

text \<open>\<open>A s\<close> is \<open>[]\<close> when no packet with sequence number \<open>s\<close> is under reassembly.\<close>

type_synonym reasm = "nat \<Rightarrow> byte list option list"

definition chunk_of :: "Msg_Buf \<Rightarrow> byte list" where
  "chunk_of msg = take (unat (m_msgLen msg)) (m_data msg)"

abbreviation msg_seq :: "Msg_Buf \<Rightarrow> nat" where "msg_seq m \<equiv> unat (h_seqNum (msgHeader m))"
abbreviation msg_idx :: "Msg_Buf \<Rightarrow> nat" where "msg_idx m \<equiv> unat (h_frgmntIdx (msgHeader m))"
abbreviation msg_cnt :: "Msg_Buf \<Rightarrow> nat" where "msg_cnt m \<equiv> unat (h_frgmnts (msgHeader m))"

definition reasm_slot :: "reasm \<Rightarrow> Msg_Buf \<Rightarrow> byte list option list" where
  "reasm_slot A msg = (if A (msg_seq msg) = [] then replicate (msg_cnt msg) None else A (msg_seq msg))"

definition reasm_step :: "reasm \<Rightarrow> Msg_Buf \<Rightarrow> reasm \<times> byte list option" where
  "reasm_step A msg =
     (let xs = (reasm_slot A msg)[msg_idx msg := Some (chunk_of msg)] in
      if None \<notin> set xs then (A(msg_seq msg := []), Some (concat (map the xs)))
      else (A(msg_seq msg := xs), None))"

text \<open>
  The messages of a well-behaved sender: a sequence number that has a slot, at most 25
  fragments, each of 60 bytes but for a possibly shorter last one, no fragment twice.
\<close>

definition fragment_ok :: "reasm \<Rightarrow> Msg_Buf \<Rightarrow> bool" where
  "fragment_ok A msg \<longleftrightarrow> wf_Msg_Buf msg \<and> msg_seq msg < 4 \<and> msg_idx msg < msg_cnt msg \<and> msg_cnt msg \<le> 25
     \<and> unat (m_msgLen msg) \<le> 60 \<and> (Suc (msg_idx msg) < msg_cnt msg \<longrightarrow> unat (m_msgLen msg) = 60)
     \<and> length (reasm_slot A msg) = msg_cnt msg \<and> reasm_slot A msg ! msg_idx msg = None"

section \<open>What a slot of the table holds\<close>

fun olen :: "byte list option \<Rightarrow> nat" where
  "olen None = 0" | "olen (Some c) = length c"

fun ocount :: "byte list option \<Rightarrow> nat" where
  "ocount None = 0" | "ocount (Some c) = 1"

definition chunks_in :: "byte list option list \<Rightarrow> byte list \<Rightarrow> bool" where
  "chunks_in xs d \<longleftrightarrow> (\<forall>j<length xs. \<forall>c. xs ! j = Some c \<longrightarrow>
     length c \<le> 60 \<and> (Suc j < length xs \<longrightarrow> length c = 60) \<and> take (length c) (drop (60 * j) d) = c)"

definition slot_holds :: "UDP_Fragment \<Rightarrow> byte list option list \<Rightarrow> bool" where
  "slot_holds F xs \<longleftrightarrow> f_used F \<and> f_terminalId F = TERMINAL_ID \<and> length (f_data F) = 1500
     \<and> length xs \<le> 25 \<and> unat (f_accumulatedFrgmnts F) = sum_list (map ocount xs)
     \<and> (\<forall>j. bit (f_frags_mask F) j \<longleftrightarrow> j < length xs \<and> xs ! j \<noteq> None)
     \<and> unat (f_size F) = sum_list (map olen xs) \<and> chunks_in xs (f_data F)"

definition slot_rel :: "UDP_Fragment \<Rightarrow> byte list option list \<Rightarrow> bool" where
  "slot_rel F xs \<longleftrightarrow>
     (if xs = [] then \<not> f_used F else slot_holds F xs \<and> unat (f_frgmnts F) = length xs)"

definition rudp_rel :: "rudp_state \<Rightarrow> reasm \<Rightarrow> bool" where
  "rudp_rel st A \<longleftrightarrow> wf_table (fragmentsTable st) \<and> fusionSock st
     \<and> (\<forall>s<4. slot_rel (slots (fragmentsTable st) ! s) (A s))"

lemma sum_ocount_le: "sum_list (map ocount xs) \<le> length xs"
proof (induction xs)
  case (Cons x xs)
  then show ?case by (cases x) auto
qed simp

lemma sum_ocount_full: "sum_list (map ocount xs) = length xs \<longleftrightarrow> None \<notin> set xs"
proof (induction xs)
  case (Cons x xs)
  then show ?case using sum_ocount_le [of xs] by (cases x) auto
qed simp

lemma sum_upd_None:
  assumes "i < length xs" "xs ! i = None"
  shows "sum_list (map ocount (xs[i := Some c])) = Suc (sum_list (map ocount xs))"
    and "sum_list (map olen (xs[i := Some c])) = sum_list (map olen xs) + length c"
  using assms by (simp_all add: map_update sum_list_update)

lemma sum_olen_le: "chunks_in xs d \<Longrightarrow> sum_list (map olen xs) \<le> 60 * length xs"
proof -
  assume c: "chunks_in xs d"
  have "olen x \<le> 60" if "x \<in> set xs" for x
  proof (cases x)
    case (Some e)
    with that obtain j where "j < length xs" "xs ! j = Some e" by (auto simp: in_set_conv_nth)
    with c Some show ?thesis by (simp add: chunks_in_def)
  qed simp
  then show ?thesis using sum_list_mono [of xs olen "\<lambda>_. 60"] by (simp add: sum_list_triv mult.commute)
qed

lemma chunks_in_write:
  assumes c: "chunks_in xs d" and i: "i < length xs" "xs ! i = None"
    and len: "length c \<le> 60" "Suc i < length xs \<longrightarrow> length c = 60" "60 * i + length c \<le> length d"
    and l25: "60 * length xs \<le> length d"
  shows "chunks_in (xs[i := Some c]) (mem_write d (60 * i) c)"
  unfolding chunks_in_def
proof (intro allI impI)
  fix j e
  assume j: "j < length (xs[i := Some c])" and e: "xs[i := Some c] ! j = Some e"
  show "length e \<le> 60 \<and> (Suc j < length (xs[i := Some c]) \<longrightarrow> length e = 60)
    \<and> take (length e) (drop (60 * j) (mem_write d (60 * i) c)) = e"
  proof (cases "j = i")
    case True
    with e i have "e = c" by simp
    with True len show ?thesis by (simp add: mem_write_def)
  next
    case False
    with e j c have e': "length e \<le> 60" "Suc j < length xs \<longrightarrow> length e = 60"
      "take (length e) (drop (60 * j) d) = e" by (auto simp: chunks_in_def)
    have jl: "60 * j + length e \<le> length d" using l25 j e'(1) by simp
    have "take (length e) (drop (60 * j) (mem_write d (60 * i) c)) = take (length e) (drop (60 * j) d)"
    proof (rule nth_equalityI)
      fix k
      assume "k < length (take (length e) (drop (60 * j) (mem_write d (60 * i) c)))"
      then have k: "k < length e" by simp
      have "60 * j + k < 60 * i \<or> 60 * i + length c \<le> 60 * j + k"
        using False k e'(1) len(1) by (cases "j < i") auto
      then show "take (length e) (drop (60 * j) (mem_write d (60 * i) c)) ! k
          = take (length e) (drop (60 * j) d) ! k"
        using k jl len(3) by (auto simp: bytes_simps)
    qed (use jl len(3) in \<open>simp add: bytes_simps\<close>)
    with e' False j show ?thesis by simp
  qed
qed

text \<open>When nothing is missing, the slot starts with the whole packet.\<close>

lemma chunks_in_prefix:
  assumes "chunks_in xs d" "None \<notin> set xs" "k \<le> length xs"
  shows "concat (map the (take k xs)) = take (sum_list (map olen (take k xs))) d
    \<and> (k < length xs \<longrightarrow> sum_list (map olen (take k xs)) = 60 * k)"
  using assms(3)
proof (induction k)
  case 0
  then show ?case by simp
next
  case (Suc k)
  then have k: "k < length xs" by simp
  then obtain c where c: "xs ! k = Some c" using assms(2) by (metis not_None_eq nth_mem)
  with k assms(1) have c': "length c \<le> 60" "Suc k < length xs \<longrightarrow> length c = 60"
    "take (length c) (drop (60 * k) d) = c" by (auto simp: chunks_in_def)
  have "take (Suc k) xs = take k xs @ [Some c]" using k c by (simp add: take_Suc_conv_app_nth)
  with Suc k c' show ?case by (simp add: take_add)
qed

lemma chunks_in_complete:
  assumes "chunks_in xs d" "None \<notin> set xs"
  shows "concat (map the xs) = take (sum_list (map olen xs)) d"
  using chunks_in_prefix [OF assms, of "length xs"] by simp

section \<open>One fragment\<close>

lemma wf_chunk: "wf_Msg_Buf m \<Longrightarrow> unat (m_msgLen m) \<le> 60 \<Longrightarrow>
    take (unat (m_msgLen m)) (drop 3 (Msg_Buf_bytes m)) = chunk_of m
    \<and> length (chunk_of m) = unat (m_msgLen m) \<and> unat (m_msgLen m) \<le> length (drop 3 (Msg_Buf_bytes m))"
  by (simp add: take_drop_3_Msg_Buf_bytes chunk_of_def bytes_simps sizeofs pkt_consts)
    (simp add: wf_Msg_Buf_def pkt_consts)

lemma bit_or_one: "i < 32 \<Longrightarrow> bit ((w :: u32) OR push_bit i 1) j \<longleftrightarrow> bit w j \<or> i = j"
  by (auto simp: bit_simps)

text \<open>What a slot that holds its packet says of it: when it is complete, and what it then gives.\<close>

lemma slot_holds_full:
  assumes "slot_holds F xs"
  shows "length xs \<le> unat (f_accumulatedFrgmnts F) \<longleftrightarrow> None \<notin> set xs"
proof -
  have "unat (f_accumulatedFrgmnts F) = sum_list (map ocount xs)" using assms by (simp add: slot_holds_def)
  then show ?thesis using sum_ocount_full [of xs] sum_ocount_le [of xs] by linarith
qed

lemma slot_holds_complete:
  assumes "slot_holds F xs" "None \<notin> set xs"
  shows "unat (f_size F) \<le> 1500" "take (unat (f_size F)) (f_data F) = concat (map the xs)"
proof -
  have s: "unat (f_size F) = sum_list (map olen xs)" "chunks_in xs (f_data F)" "length xs \<le> 25"
    using assms(1) by (simp_all add: slot_holds_def)
  show "unat (f_size F) \<le> 1500" using sum_olen_le [OF s(2)] s(1,3) by simp
  show "take (unat (f_size F)) (f_data F) = concat (map the xs)"
    using chunks_in_complete [OF s(2) assms(2)] s(1) by simp
qed

text \<open>The counters of a slot that gets a missing fragment stay below their widths.\<close>

lemma slot_holds_room:
  assumes F: "slot_holds F xs" and i: "i < length xs" "xs ! i = None"
    and ch: "chunks_in (xs[i := Some c]) d" and n: "unat (n :: u16) = length c"
  shows "unat (f_accumulatedFrgmnts F + 1) = sum_list (map ocount (xs[i := Some c]))"
    and "unat (f_size F + n) = sum_list (map olen (xs[i := Some c]))"
proof -
  have l: "length xs \<le> 25" using F by (simp add: slot_holds_def)
  have "sum_list (map ocount (xs[i := Some c])) \<le> 25" using sum_ocount_le [of "xs[i := Some c]"] l by simp
  then show "unat (f_accumulatedFrgmnts F + 1) = sum_list (map ocount (xs[i := Some c]))"
    using F sum_upd_None(1) [OF i] by (simp add: slot_holds_def unat_word_ariths)
  have "sum_list (map olen (xs[i := Some c])) \<le> 1500" using sum_olen_le [OF ch] l by simp
  then show "unat (f_size F + n) = sum_list (map olen (xs[i := Some c]))"
    using F sum_upd_None(2) [OF i] n by (simp add: slot_holds_def unat_word_ariths)
qed

text \<open>Storing a fragment that was not there keeps \<open>slot_holds\<close> and records it.\<close>

lemma defrag_store_holds:
  assumes F: "slot_holds F xs" and msg: "wf_Msg_Buf msg" "msg_idx msg < msg_cnt msg"
    and len: "unat (m_msgLen msg) \<le> 60" "Suc (msg_idx msg) < msg_cnt msg \<longrightarrow> unat (m_msgLen msg) = 60"
    and xs: "length xs = msg_cnt msg" "xs ! msg_idx msg = None"
  shows "\<exists>F'. defrag_store env msg F = Inr F' \<and> slot_holds F' (xs[msg_idx msg := Some (chunk_of msg)])
     \<and> unat (f_frgmnts F') = msg_cnt msg \<and> f_frgmntIdx F' = f_frgmntIdx F \<and> f_lastTime F' = now env"
proof -
  let ?i = "msg_idx msg" and ?c = "chunk_of msg"
  note ck = wf_chunk [OF msg(1) len(1)]
  have n: "length xs \<le> 25" "length (f_data F) = 1500" "chunks_in xs (f_data F)"
    using F by (simp_all add: slot_holds_def)
  have i: "?i < length xs" using msg(2) xs(1) by simp
  have nz: "h_frgmnts (msgHeader msg) \<noteq> 0" using msg(2) by (auto simp: unat_0)
  have off: "?i * 60 + unat (m_msgLen msg) \<le> 1500" using i n(1) len(1) by linarith
  let ?d = "mem_write (f_data F) (60 * ?i) ?c"
  have cp: "memcpy (f_data F) (?i * 60) (drop 3 (Msg_Buf_bytes msg)) (unat (m_msgLen msg)) = Inr ?d"
    using memcpy_ok [of "unat (m_msgLen msg)" "drop 3 (Msg_Buf_bytes msg)" "?i * 60" "f_data F"]
      ck off n(2) by (simp add: mult.commute)
  have ch: "chunks_in (xs[?i := Some ?c]) ?d"
    using n off len ck xs(1) by (intro chunks_in_write i xs(2)) (simp_all add: mult.commute)
  from ck have "unat (m_msgLen msg) = length ?c" by simp
  note room = slot_holds_room [OF F i xs(2) ch this]
  have fits: "unat (ucast (h_frgmnts (msgHeader msg)) :: u8) = msg_cnt msg"
    by (rule unat_ucast_up) simp
  let ?F = "F\<lparr>f_data := ?d, f_size := f_size F + m_msgLen msg,
      f_accumulatedFrgmnts := f_accumulatedFrgmnts F + 1,
      f_pktSeqNum := ucast (h_seqNum (msgHeader msg)), f_frgmnts := ucast (h_frgmnts (msgHeader msg)),
      f_frags_mask := f_frags_mask F OR push_bit ?i 1, f_lastTime := now env\<rparr>"
  have store: "defrag_store env msg F = Inr ?F"
    by (simp add: defrag_store_def Let_def pkt_consts nz cp)
  have len_d: "length ?d = 1500" using off ck n(2) by (simp add: bytes_simps mult.commute)
  have m: "bit (f_frags_mask F OR push_bit ?i 1) j
      \<longleftrightarrow> j < length (xs[?i := Some ?c]) \<and> xs[?i := Some ?c] ! j \<noteq> None" for j
  proof -
    have "bit (f_frags_mask F) j \<longleftrightarrow> j < length xs \<and> xs ! j \<noteq> None"
      using F unfolding slot_holds_def by blast
    moreover have "?i < 32" using i n(1) by simp
    ultimately show ?thesis using i by (cases "j = ?i") (simp_all only: bit_or_one, simp_all)
  qed
  have "slot_holds ?F (xs[?i := Some ?c])"
    unfolding slot_holds_def
  proof (intro conjI allI)
    show "f_used ?F" "f_terminalId ?F = TERMINAL_ID"
      using F by (simp_all add: slot_holds_def)
  qed (use room m ch len_d n(1) in simp_all)
  moreover have "unat (f_frgmnts ?F) = msg_cnt msg" using fits by simp
  ultimately show ?thesis using store by auto
qed

section \<open>Looking the packet up\<close>

text \<open>A slot just taken by \<open>get_freeFragment\<close>, and the table after the lookup of packet \<open>s\<close>.\<close>

definition fresh_fragment :: "UDP_Fragment \<Rightarrow> UDP_Fragment" where
  "fresh_fragment F = F\<lparr>f_terminalId := TERMINAL_ID, f_used := True, f_frgmntIdx := 0,
     f_accumulatedFrgmnts := 0, f_frgmnts := 0, f_frags_mask := 0, f_size := 0, f_pktSeqNum := 0xFF\<rparr>"

definition lookup_table :: "UDP_Fragments_Table \<Rightarrow> nat \<Rightarrow> UDP_Fragments_Table" where
  "lookup_table T s = (if f_used (slots T ! s) then T
     else frag_upd (T\<lparr>unusedIdx := 0\<rparr>) (0, s) (fresh_fragment (slots T ! s)))"

lemma lookup_table_simps:
  assumes "wf_table T" "s < 5"
  shows "wf_table (lookup_table T s)"
    and "slots (lookup_table T s) ! s = (if f_used (slots T ! s) then slots T ! s else fresh_fragment (slots T ! s))"
    and "j < 5 \<Longrightarrow> j \<noteq> s \<Longrightarrow> slots (lookup_table T s) ! j = slots T ! j"
  using assms length_f_data [OF assms]
  by (auto simp: lookup_table_def wf_frag_upd tab.get_put fresh_fragment_def)

lemma slot_holds_fresh:
  "length (f_data F) = 1500 \<Longrightarrow> n \<le> 25 \<Longrightarrow> slot_holds (fresh_fragment F) (replicate n None)"
  by (simp add: slot_holds_def chunks_in_def fresh_fragment_def)

lemma slot_holds_pktSeqNum [simp]: "slot_holds (F\<lparr>f_pktSeqNum := q\<rparr>) xs = slot_holds F xs"
  by (simp add: slot_holds_def)

lemma slot_holds_frgmntIdx [simp]: "slot_holds (F\<lparr>f_frgmntIdx := q\<rparr>) xs = slot_holds F xs"
  by (simp add: slot_holds_def)

lemma unat_seq_u8: "unat (ucast (s :: 4 word) :: u8) = unat s"
  by (rule unat_ucast_up) simp

lemma unat_idx_u8: "unat (ucast (s :: 5 word) :: u8) = unat s"
  by (rule unat_ucast_up) simp

lemma rudp_relD:
  assumes "rudp_rel st A"
  shows "wf_table (fragmentsTable st)" "fusionSock st"
    "s < 4 \<Longrightarrow> slot_rel (slots (fragmentsTable st) ! s) (A s)"
  using assms by (simp_all add: rudp_rel_def)

lemma slot_rel_used:
  assumes "slot_rel F xs"
  shows "f_used F \<longleftrightarrow> xs \<noteq> []" "f_used F \<Longrightarrow> f_terminalId F = TERMINAL_ID"
    "f_used F \<Longrightarrow> unat (f_frgmnts F) \<le> 32"
  using assms by (auto simp: slot_rel_def slot_holds_def split: if_splits)

text \<open>
  What the lookup needs of the table: its shape, and in every used slot the one terminal and a
  fragment count that a header can announce.  Messages that do not fit their slot keep it too.
\<close>

definition table_ready :: "rudp_state \<Rightarrow> bool" where
  "table_ready st \<longleftrightarrow> wf_table (fragmentsTable st) \<and> fusionSock st
     \<and> (\<forall>j<4. f_used (slots (fragmentsTable st) ! j) \<longrightarrow>
          f_terminalId (slots (fragmentsTable st) ! j) = TERMINAL_ID \<and> unat (f_frgmnts (slots (fragmentsTable st) ! j)) \<le> 32)"

lemma rudp_rel_ready: "rudp_rel st A \<Longrightarrow> table_ready st"
  using slot_rel_used by (auto simp: table_ready_def rudp_rel_def)

text \<open>
  In every such state the lookup succeeds for the sequence numbers that have a slot; the
  spare slot 4 can be taken once, but never found again.
\<close>

definition has_slot :: "UDP_Fragments_Table \<Rightarrow> nat \<Rightarrow> bool" where
  "has_slot T s \<longleftrightarrow> s < 4 \<or> s = 4 \<and> \<not> f_used (slots T ! 4)"

lemma has_slot_less [simp]: "s < 4 \<Longrightarrow> has_slot T s"
  by (simp add: has_slot_def)

lemma defrag_lookup_eq:
  assumes rdy: "table_ready st" and slot: "has_slot (fragmentsTable st) (msg_seq msg)"
  shows "\<exists>st2 ds. defrag_lookup env st msg = Inr (st2, (0, msg_seq msg), ds)
    \<and> fragmentsTable st2 = lookup_table (fragmentsTable st) (msg_seq msg) \<and> fusionSock st2"
proof -
  let ?T = "fragmentsTable st" and ?s = "msg_seq msg"
  let ?T2 = "lookup_table ?T ?s" and ?seq = "ucast (h_seqNum (msgHeader msg)) :: u8"
  have wf: "wf_table ?T" "fusionSock st"
    and sl: "\<And>j. j < 4 \<Longrightarrow> f_used (slots ?T ! j) \<Longrightarrow> f_terminalId (slots ?T ! j) = TERMINAL_ID \<and> unat (f_frgmnts (slots ?T ! j)) \<le> 32"
    using rdy by (auto simp: table_ready_def)
  have s5: "?s < 5" and s4: "f_used (slots ?T ! ?s) \<Longrightarrow> ?s < 4"
    using slot by (auto simp: has_slot_def)
  have found: "find_terminal ?T TERMINAL_ID ?seq = (if f_used (slots ?T ! ?s) then Some (0, ?s) else None)"
    using sl [OF s4] s4 by (auto simp: find_terminal_slots unat_seq_u8)
  have free: "get_freeFragment ?T TERMINAL_ID ?seq = Inr (?T2, Some (0, ?s))" if "\<not> f_used (slots ?T ! ?s)"
    using that s5 by (simp add: get_freeFragment_slots unat_seq_u8 lookup_table_def fresh_fragment_def)
  have T2: "f_used (slots ?T ! ?s) \<Longrightarrow> ?T2 = ?T" by (simp add: lookup_table_def)
  have bound: "unat (f_frgmnts (slots ?T2 ! j)) \<le> 32" if "j < 4" "f_used (slots ?T2 ! j)" for j
    using that s5 sl [of j] lookup_table_simps(2,3) [OF wf(1), of ?s]
    by (cases "j = ?s") (auto simp: fresh_fragment_def split: if_splits)
  obtain ds where ds: "rrudp_complete_last_pkt True (complete_pad env) ?T2 p = Inr (ds p)" for p
    using rrudp_complete_last_pkt_Inr [OF bound] by metis
  then show ?thesis
    using found free T2 wf(2)
    by (cases "f_used (slots ?T ! ?s)") (auto simp: defrag_lookup_def Let_def term_set_cur_pkt_seq_def)
qed

text \<open>A fragmented message with a slot: what happens is decided by storing the fragment.\<close>

lemma defragment_eq:
  assumes rdy: "table_ready st" and slot: "has_slot (fragmentsTable st) (msg_seq msg)"
    and lt: "msg_idx msg < msg_cnt msg"
  defines "F1 \<equiv> (slots (lookup_table (fragmentsTable st) (msg_seq msg)) ! msg_seq msg)
      \<lparr>f_pktSeqNum := ucast (h_seqNum (msgHeader msg))\<rparr>"
  shows "defrag_store env msg F1 = Inl e \<Longrightarrow> defragment env st msg = Inl e"
    and "defrag_store env msg F1 = Inr F \<Longrightarrow>
      \<exists>st' ds. defragment env st msg = Inr (st', if msg_cnt msg \<le> unat (f_accumulatedFrgmnts F) then 0 else -1,
          if msg_cnt msg \<le> unat (f_accumulatedFrgmnts F) then Some (0, msg_seq msg) else None, ds)
        \<and> fragmentsTable st' = frag_upd (lookup_table (fragmentsTable st) (msg_seq msg)) (0, msg_seq msg)
            (F\<lparr>f_frgmntIdx := ucast (h_frgmntIdx (msgHeader msg))\<rparr>) \<and> fusionSock st'"
proof -
  let ?s = "msg_seq msg"
  from defrag_lookup_eq [OF rdy slot, of env] obtain st2 ds where
    lk: "defrag_lookup env st msg = Inr (st2, (0, ?s), ds)"
      "fragmentsTable st2 = lookup_table (fragmentsTable st) ?s" "fusionSock st2" by blast
  have lt': "h_frgmntIdx (msgHeader msg) < h_frgmnts (msgHeader msg)"
    using lt by (simp add: word_less_nat_alt)
  have F1: "(slots (fragmentsTable st2) ! ?s)\<lparr>f_pktSeqNum := ucast (h_seqNum (msgHeader msg))\<rparr> = F1"
    by (simp add: F1_def lk(2))
  show "defragment env st msg = Inl e" if "defrag_store env msg F1 = Inl e"
    using lt' lk(1) that by (simp add: defragment_unfold Let_def F1)
  let ?st3 = "if \<not> retransmit_msg msg then term_set_cur_pkt_seq (ucast (h_seqNum (msgHeader msg))) st2 else st2"
  have st3: "fragmentsTable ?st3 = lookup_table (fragmentsTable st) ?s" "fusionSock ?st3"
    using lk(2,3) by (simp_all add: term_set_cur_pkt_seq_def)
  show "\<exists>st' ds. defragment env st msg = Inr (st', if msg_cnt msg \<le> unat (f_accumulatedFrgmnts F) then 0 else -1,
          if msg_cnt msg \<le> unat (f_accumulatedFrgmnts F) then Some (0, ?s) else None, ds)
        \<and> fragmentsTable st' = frag_upd (lookup_table (fragmentsTable st) ?s) (0, ?s)
            (F\<lparr>f_frgmntIdx := ucast (h_frgmntIdx (msgHeader msg))\<rparr>) \<and> fusionSock st'"
    if "defrag_store env msg F1 = Inr F"
    using lt' lk(1) that st3
    by (simp add: defragment_unfold Let_def F1 hub_send_req_def rrudp_ask_retransmit_def)
qed

section \<open>The refinement\<close>

lemma lookup_holds:
  assumes rel: "rudp_rel st A" and ok: "fragment_ok A msg"
  shows "slot_holds (slots (lookup_table (fragmentsTable st) (msg_seq msg)) ! msg_seq msg) (reasm_slot A msg)"
proof -
  have s4: "msg_seq msg < 4" and n: "msg_cnt msg \<le> 25" using ok by (auto simp: fragment_ok_def)
  note wf = rudp_relD(1) [OF rel] and sl = rudp_relD(3) [OF rel s4]
  have "length (f_data (slots (fragmentsTable st) ! msg_seq msg)) = 1500"
    using wf s4 by (simp add: length_f_data)
  from slot_holds_fresh [OF this n] show ?thesis
    using sl s4 slot_rel_used(1) [OF sl] lookup_table_simps(2) [OF wf, of "msg_seq msg"]
    by (auto simp: reasm_slot_def slot_rel_def)
qed

text \<open>One message: \<open>iot_deliver\<close> sends exactly what the abstract reassembler delivers.\<close>

lemma iot_deliver_rel:
  assumes rel: "rudp_rel st A" and ok: "fragment_ok A msg"
  shows "\<exists>st' ds. iot_deliver env st msg = Inr (st', snd (reasm_step A msg), ds)
    \<and> rudp_rel st' (fst (reasm_step A msg))"
proof -
  define xs where "xs = (reasm_slot A msg)[msg_idx msg := Some (chunk_of msg)]"
  let ?s = "msg_seq msg" and ?T = "fragmentsTable st"
  have m: "wf_Msg_Buf msg" "?s < 4" "msg_idx msg < msg_cnt msg" "unat (m_msgLen msg) \<le> 60"
    "Suc (msg_idx msg) < msg_cnt msg \<longrightarrow> unat (m_msgLen msg) = 60"
    "length (reasm_slot A msg) = msg_cnt msg" "reasm_slot A msg ! msg_idx msg = None"
    using ok by (simp_all add: fragment_ok_def)
  note wf = rudp_relD(1) [OF rel]
  have "slot_holds ((slots (lookup_table ?T ?s) ! ?s)\<lparr>f_pktSeqNum := ucast (h_seqNum (msgHeader msg))\<rparr>)
      (reasm_slot A msg)" using lookup_holds [OF rel ok] by simp
  from defrag_store_holds [OF this m(1,3-7), of env, folded xs_def] obtain F where
    st: "defrag_store env msg ((slots (lookup_table ?T ?s) ! ?s)
        \<lparr>f_pktSeqNum := ucast (h_seqNum (msgHeader msg))\<rparr>) = Inr F"
      and F: "slot_holds F xs" "unat (f_frgmnts F) = msg_cnt msg" by blast
  have lx: "length xs = msg_cnt msg" using m(6) by (simp add: xs_def)
  note full = slot_holds_full [OF F(1), unfolded lx]
  let ?F = "F\<lparr>f_frgmntIdx := ucast (h_frgmntIdx (msgHeader msg))\<rparr>"
  from defragment_eq(2) [OF rudp_rel_ready [OF rel] has_slot_less [OF m(2)] m(3) st, unfolded full] obtain st' ds where
    d: "defragment env st msg = Inr (st', if None \<notin> set xs then 0 else -1,
          if None \<notin> set xs then Some (0, ?s) else None, ds)" and
    T': "fragmentsTable st' = frag_upd (lookup_table ?T ?s) (0, ?s) ?F" and fs: "fusionSock st'"
    by blast
  have sz: "length (f_data F) = 1500" using F(1) by (simp add: slot_holds_def)
  have wf': "wf_table (fragmentsTable st')"
    using wf m(2) sz unfolding T' by (simp add: wf_frag_upd lookup_table_simps)
  have sl: "slots (fragmentsTable st') ! j = (if j = ?s then ?F else slots ?T ! j)" if "j < 4" for j
    using that wf m(2) unfolding T' by (simp add: tab.get_put lookup_table_simps)
  have old: "\<forall>j<4. j \<noteq> ?s \<longrightarrow> slot_rel (slots (fragmentsTable st') ! j) (A j)"
    using rudp_relD(3) [OF rel] sl by simp
  show ?thesis
  proof (cases "None \<in> set xs")
    case True
    have "rudp_rel st' (A(?s := xs))"
      using wf' fs old F lx m(2,3) by (auto simp: rudp_rel_def slot_rel_def sl)
    with True d show ?thesis
      by (auto simp: iot_deliver_def reasm_step_def Let_def xs_def [symmetric])
  next
    case False
    have "rudp_rel (st'\<lparr>fragmentsTable := frag_upd (fragmentsTable st') (0, ?s) zero_fragment\<rparr>)
        (A(?s := []))"
      using wf' fs old m(2) by (simp add: rudp_rel_def tab.get_put wf_frag_upd zero_fragment_def
          NET_PACKET_SIZE_def slot_rel_def)
    then show ?thesis
      using False d sz sl [OF m(2)] slot_holds_complete [OF F(1) False]
      by (simp add: iot_deliver_def reasm_step_def Let_def xs_def [symmetric] sendto_def release_fragment_def)
  qed
qed

section \<open>Streams of messages\<close>

text \<open>A stream of messages, each with its own surroundings; the datagrams sent to the device.\<close>

fun iot_deliver_all :: "(rudp_env \<times> Msg_Buf) list \<Rightarrow> rudp_state \<Rightarrow> c_error + (rudp_state \<times> byte list list)" where
  "iot_deliver_all [] st = Inr (st, [])"
| "iot_deliver_all ((env, msg) # ms) st =
     (case iot_deliver env st msg of
        Inl e \<Rightarrow> Inl e
      | Inr (st', d, _) \<Rightarrow>
          (case iot_deliver_all ms st' of
             Inl e \<Rightarrow> Inl e
           | Inr (st'', ds) \<Rightarrow> Inr (st'', case d of None \<Rightarrow> ds | Some x \<Rightarrow> x # ds)))"

fun reasm_all :: "Msg_Buf list \<Rightarrow> reasm \<Rightarrow> reasm \<times> byte list list" where
  "reasm_all [] A = (A, [])"
| "reasm_all (msg # ms) A =
     (let (A', d) = reasm_step A msg; (A'', ds) = reasm_all ms A'
      in (A'', case d of None \<Rightarrow> ds | Some x \<Rightarrow> x # ds))"

fun stream_ok :: "Msg_Buf list \<Rightarrow> reasm \<Rightarrow> bool" where
  "stream_ok [] A = True"
| "stream_ok (msg # ms) A = (fragment_ok A msg \<and> stream_ok ms (fst (reasm_step A msg)))"

lemma iot_deliver_all_rel:
  assumes "rudp_rel st A" "stream_ok (map snd ms) A"
  shows "\<exists>st'. iot_deliver_all ms st = Inr (st', snd (reasm_all (map snd ms) A))
    \<and> rudp_rel st' (fst (reasm_all (map snd ms) A))"
  using assms
proof (induction ms arbitrary: st A)
  case Nil
  then show ?case by simp
next
  case (Cons em ms)
  obtain env msg where em: "em = (env, msg)" by fastforce
  with Cons.prems have ok: "fragment_ok A msg" "stream_ok (map snd ms) (fst (reasm_step A msg))"
    by simp_all
  from iot_deliver_rel [OF Cons.prems(1) ok(1), of env] obtain st1 ds1 where
    s1: "iot_deliver env st msg = Inr (st1, snd (reasm_step A msg), ds1)"
      "rudp_rel st1 (fst (reasm_step A msg))" by blast
  from Cons.IH [OF s1(2) ok(2)] s1(1) em show ?case
    by (auto simp: Let_def split_beta)
qed

definition idle_state :: rudp_state where
  "idle_state = \<lparr> fragmentsTable = zero_table, last_pkt_seq = -1, fusionSock = True \<rparr>"

lemma idle_rel: "rudp_rel idle_state (\<lambda>_. [])"
  by (simp add: rudp_rel_def idle_state_def wf_zero_table slot_rel_def)
    (simp add: zero_table_def slots_def frag_consts zero_fragment_def nth_Cons' )

section \<open>All fragments of one packet, in any order\<close>

text \<open>The slot after the fragments with indices in \<open>I\<close> arrived.\<close>

definition partial_slot :: "byte list list \<Rightarrow> nat set \<Rightarrow> byte list option list" where
  "partial_slot cs I = map (\<lambda>j. if j \<in> I then Some (cs ! j) else None) [0..<length cs]"

lemma partial_slot_simps [simp]:
  "length (partial_slot cs I) = length cs"
  "j < length cs \<Longrightarrow> partial_slot cs I ! j = (if j \<in> I then Some (cs ! j) else None)"
  by (simp_all add: partial_slot_def)

lemma partial_slot_insert:
  "i < length cs \<Longrightarrow> (partial_slot cs I)[i := Some (cs ! i)] = partial_slot cs (insert i I)"
  by (rule nth_equalityI) (auto simp: nth_list_update)

lemma partial_slot_empty: "partial_slot cs {} = replicate (length cs) None"
  by (rule nth_equalityI) auto

lemma partial_slot_full: "None \<notin> set (partial_slot cs I) \<longleftrightarrow> {0..<length cs} \<subseteq> I"
  by (auto simp: partial_slot_def image_iff subset_iff)

lemma partial_slot_all: "{0..<length cs} \<subseteq> I \<Longrightarrow> concat (map the (partial_slot cs I)) = concat cs"
proof -
  assume "{0..<length cs} \<subseteq> I"
  then have "map the (partial_slot cs I) = cs"
    by (intro nth_equalityI) (auto simp: subset_iff)
  then show ?thesis by simp
qed

text \<open>\<open>m\<close> carries one of the fragments \<open>cs\<close> of the packet with sequence number \<open>s\<close>.\<close>

definition carries :: "nat \<Rightarrow> byte list list \<Rightarrow> Msg_Buf \<Rightarrow> bool" where
  "carries s cs m \<longleftrightarrow> wf_Msg_Buf m \<and> msg_seq m = s \<and> msg_cnt m = length cs
     \<and> msg_idx m < length cs \<and> chunk_of m = cs ! msg_idx m \<and> unat (m_msgLen m) = length (cs ! msg_idx m)"

definition packet_ok :: "byte list list \<Rightarrow> bool" where
  "packet_ok cs \<longleftrightarrow> cs \<noteq> [] \<and> length cs \<le> 25
     \<and> (\<forall>i<length cs. length (cs ! i) \<le> 60 \<and> (Suc i < length cs \<longrightarrow> length (cs ! i) = 60))"

lemma reasm_packet:
  assumes "packet_ok cs" "s < 4" "\<forall>m \<in> set ms. carries s cs m"
    and "distinct (map msg_idx ms)" "I \<inter> msg_idx ` set ms = {}"
    and "I \<union> msg_idx ` set ms = {0..<length cs}" "ms \<noteq> []"
    and "A s = (if I = {} then [] else partial_slot cs I)"
  shows "stream_ok ms A \<and> reasm_all ms A = (A(s := []), [concat cs])"
  using assms(3-8)
proof (induction ms arbitrary: I A)
  case Nil
  then show ?case by simp
next
  case (Cons m ms)
  have m: "wf_Msg_Buf m" "msg_seq m = s" "msg_cnt m = length cs" "msg_idx m < length cs"
    "chunk_of m = cs ! msg_idx m" "unat (m_msgLen m) = length (cs ! msg_idx m)"
    using Cons.prems(1) by (simp_all add: carries_def)
  have cs: "cs \<noteq> []" "length cs \<le> 25" "length (cs ! msg_idx m) \<le> 60"
    "Suc (msg_idx m) < length cs \<longrightarrow> length (cs ! msg_idx m) = 60"
    using assms(1) m(4) by (simp_all add: packet_ok_def)
  have slot: "reasm_slot A m = partial_slot cs I"
    using Cons.prems(6) m(2,3) cs(1) by (auto simp: reasm_slot_def partial_slot_empty)
      (metis length_0_conv partial_slot_simps(1))
  have notin: "msg_idx m \<notin> I" using Cons.prems(3) by auto
  have ok: "fragment_ok A m"
    using m cs assms(2) notin by (simp add: fragment_ok_def slot)
  let ?I = "insert (msg_idx m) I"
  have step: "reasm_step A m = (if {0..<length cs} \<subseteq> ?I then (A(s := []), Some (concat cs))
      else (A(s := partial_slot cs ?I), None))"
    using partial_slot_full [of cs ?I] partial_slot_all [of cs ?I] m(4)
    by (simp add: reasm_step_def slot m(2,5) partial_slot_insert)
  show ?case
  proof (cases "ms = []")
    case True
    then have "{0..<length cs} \<subseteq> ?I" using Cons.prems(4) by auto
    with True step ok show ?thesis by (simp add: fun_upd_def)
  next
    case False
    then obtain m' where "m' \<in> set ms" by (cases ms) auto
    then have "msg_idx m' \<in> {0..<length cs} - ?I"
      using Cons.prems(2-4) by (auto simp: image_iff)
    then have "\<not> {0..<length cs} \<subseteq> ?I" by blast
    then have step': "reasm_step A m = (A(s := partial_slot cs ?I), None)" using step by simp
    have "stream_ok ms (A(s := partial_slot cs ?I)) \<and> reasm_all ms (A(s := partial_slot cs ?I))
        = ((A(s := partial_slot cs ?I))(s := []), [concat cs])"
      by (rule Cons.IH [of ?I]) (use Cons.prems False in auto)
    with ok step' show ?thesis by (simp add: fun_eq_iff)
  qed
qed

section \<open>Properties of the reassembly\<close>

text \<open>A fragment as a sender builds it, for the examples.\<close>

definition mk_fragment :: "nat \<Rightarrow> nat \<Rightarrow> nat \<Rightarrow> byte list \<Rightarrow> Msg_Buf" where
  "mk_fragment s i n c = zero_Msg_Buf\<lparr>msgHeader := \<lparr> h_msgCode = 0, h_frgmntIdx = of_nat i,
       h_frgmnts = of_nat n, h_seqNum = of_nat s, h_size = of_nat (length c) \<rparr>,
     m_data := mem_write (replicate 60 0) 0 c, m_msgLen := of_nat (length c)\<rparr>"

lemma mk_fragment_simps:
  assumes "s < 16" "i < 32" "n < 32" "length c \<le> 60"
  shows "wf_Msg_Buf (mk_fragment s i n c)" "msg_seq (mk_fragment s i n c) = s"
    "msg_idx (mk_fragment s i n c) = i" "msg_cnt (mk_fragment s i n c) = n"
    "unat (m_msgLen (mk_fragment s i n c)) = length c" "chunk_of (mk_fragment s i n c) = c"
proof -
  have "unat (of_nat (length c) :: u16) = length c" by (rule unat_of_nat_small) (use assms in simp)
  then show "wf_Msg_Buf (mk_fragment s i n c)" "msg_seq (mk_fragment s i n c) = s"
    "msg_idx (mk_fragment s i n c) = i" "msg_cnt (mk_fragment s i n c) = n"
    "unat (m_msgLen (mk_fragment s i n c)) = length c" "chunk_of (mk_fragment s i n c) = c"
    using assms by (simp_all add: mk_fragment_def wf_Msg_Buf_def zero_Msg_Buf_def MAX_MSG_SIZE_def
        bytes_simps unat_of_nat_small chunk_of_def take_mem_write_0)
qed

definition env_example :: rudp_env where
  "env_example = \<lparr> now = \<lparr> tv_sec = 1000, tv_usec = 0 \<rparr>, ask_pad = 0, complete_pad = 0 \<rparr>"

text \<open>
  C4: For any interleaving of the fragments of packets with sequence numbers
  below 4, the code never fails, sends to the device exactly the datagrams the abstract
  reassembler delivers, each the concatenation of its fragments, and ends in a related state.
\<close>

theorem reassembly_refines:
  assumes "rudp_rel st A" "stream_ok (map snd ms) A"
  shows "\<exists>st'. iot_deliver_all ms st = Inr (st', snd (reasm_all (map snd ms) A))
    \<and> rudp_rel st' (fst (reasm_all (map snd ms) A))"
  by (rule iot_deliver_all_rel [OF assms])

text \<open>Two packets interleaved and out of order, one of them complete.\<close>

theorem reassembly_refines_witness:
  "\<exists>st'. iot_deliver_all [(env_example, mk_fragment 1 1 2 [7, 8]), (env_example, mk_fragment 2 0 2 (replicate 60 5)),
        (env_example, mk_fragment 1 0 2 (replicate 60 6))] idle_state
      = Inr (st', [replicate 60 6 @ [7, 8]])
    \<and> rudp_rel st' ((\<lambda>_. [])(2 := [Some (replicate 60 5), None]))"
proof -
  let ?A = "\<lambda>_. [] :: byte list option list"
  let ?m1 = "mk_fragment 1 1 2 [7, 8]" and ?m2 = "mk_fragment 2 0 2 (replicate 60 5)"
    and ?m3 = "mk_fragment 1 0 2 (replicate 60 6)"
  have s: "reasm_step ?A ?m1 = (?A(1 := [None, Some [7, 8]]), None)"
    "reasm_step (?A(1 := [None, Some [7, 8]])) ?m2 =
       (?A(1 := [None, Some [7, 8]], 2 := [Some (replicate 60 5), None]), None)"
    "reasm_step (?A(1 := [None, Some [7, 8]], 2 := [Some (replicate 60 5), None])) ?m3 =
       (?A(2 := [Some (replicate 60 5), None]), Some (replicate 60 6 @ [7, 8]))"
    by (simp_all add: reasm_step_def reasm_slot_def mk_fragment_simps Let_def numeral_2_eq_2 fun_eq_iff)
  have ok: "stream_ok [?m1, ?m2, ?m3] ?A"
    by (simp add: s fragment_ok_def reasm_slot_def mk_fragment_simps del: One_nat_def)
  show ?thesis
    using reassembly_refines [OF idle_rel, of "[(env_example, ?m1), (env_example, ?m2), (env_example, ?m3)]"] ok
    by (simp add: s del: One_nat_def)
qed

lemma iot_deliver_all_packet:
  assumes "rudp_rel st A" "packet_ok cs" "s < 4" "A s = []"
    and "\<forall>m \<in> snd ` set ms. carries s cs m"
    and "distinct (map (msg_idx \<circ> snd) ms)" "(msg_idx \<circ> snd) ` set ms = {0..<length cs}"
  shows "\<exists>st'. iot_deliver_all ms st = Inr (st', [concat cs]) \<and> rudp_rel st' A"
proof -
  have "ms \<noteq> []" using assms(2,7) by (auto simp: packet_ok_def)
  then have "stream_ok (map snd ms) A \<and> reasm_all (map snd ms) A = (A(s := []), [concat cs])"
    using assms by (intro reasm_packet [where I = "{}"]) (auto simp: image_comp)
  moreover have "A(s := []) = A" using assms(4) by (simp add: fun_upd_idem)
  ultimately show ?thesis using iot_deliver_all_rel [OF assms(1), of ms] by simp
qed

text \<open>
  The fragments of one packet, each once and in any order, make the
  device receive that packet once and whole, and free its slot.
\<close>

theorem reassembly_any_order:
  assumes "rudp_rel st A" "packet_ok cs" "s < 4" "A s = []"
    and "\<forall>m \<in> snd ` set ms. carries s cs m"
    and "distinct (map (msg_idx \<circ> snd) ms)" "(msg_idx \<circ> snd) ` set ms = {0..<length cs}"
  shows "\<exists>st'. iot_deliver_all ms st = Inr (st', [concat cs]) \<and> rudp_rel st' A"
  by (rule iot_deliver_all_packet [OF assms])

theorem reassembly_any_order_witness:
  "\<exists>st'. iot_deliver_all [(env_example, mk_fragment 3 1 2 [9]), (env_example, mk_fragment 3 0 2 (replicate 60 1))] idle_state
      = Inr (st', [concat [replicate 60 1, [9]]]) \<and> rudp_rel st' (\<lambda>_. [])"
  by (rule reassembly_any_order [OF idle_rel, where s = 3])
    (auto simp: packet_ok_def carries_def mk_fragment_simps less_Suc_eq nth_Cons' )

end
