(* ===== verification/Rudp_Behaviour.thy ===== *)
theory Rudp_Behaviour
  imports Reassembly
begin

text \<open>
  What \<open>src/rudp_req.c\<close> does around the reassembly: the requests it sends when packets are
  incomplete, the expiry of abandoned packets, and the inputs on which it goes wrong.
\<close>

section \<open>Requests for lost fragments\<close>

definition request_for :: "6 word \<Rightarrow> nat \<Rightarrow> nat \<Rightarrow> byte list" where
  "request_for pad s j = rUdpFragmntReq_bytes \<lparr> q_msgCode = MSG_CODE_REQUEST_FRAG, q_pad = pad,
     q_fragmntLost = of_nat j, q_seqNum = of_nat s \<rparr>"

lemma complete_last_pkt_missing:
  assumes "slot_rel (slots T ! s) xs" "xs \<noteq> []" "s < 4"
  shows "rrudp_complete_last_pkt True pad T (of_nat s) =
    Inr (map (request_for pad s) (filter (\<lambda>j. xs ! j = None) [0..<length xs]))"
proof -
  have h: "slot_holds (slots T ! s) xs" "unat (f_frgmnts (slots T ! s)) = length xs"
    using assms by (simp_all add: slot_rel_def)
  have s: "unat (of_nat s :: u8) = s" using assms(3) by (simp add: unat_of_nat_small)
  have bits: "\<And>j. bit (f_frags_mask (slots T ! s)) j \<longleftrightarrow> j < length xs \<and> xs ! j \<noteq> None"
    using h(1) unfolding slot_holds_def by blast
  have u: "f_used (slots T ! s)" "f_terminalId (slots T ! s) = TERMINAL_ID" "length xs \<le> 25"
    using h(1) by (simp_all add: slot_holds_def)
  have "filter (\<lambda>j. \<not> bit (f_frags_mask (slots T ! s)) j) [0..<length xs]
      = filter (\<lambda>j. xs ! j = None) [0..<length xs]"
    by (rule filter_cong) (auto simp: bits)
  then show ?thesis
    using u assms(3) by (simp add: rrudp_complete_last_pkt_def find_terminal_slots s Let_def h(2)
        rtx_loop_eq request_for_def)
qed

lemma sint_small_u8: "s < 128 \<Longrightarrow> sint (of_nat s :: u8) = int s"
  by (simp add: signed_of_nat signed_take_bit_int_eq_self)

text \<open>
  C12: When the first fragment of a new packet arrives while another
  packet is incomplete, exactly the missing fragments of that packet are requested, in order;
  if the fragment itself is not among the first two of its packet, its predecessor is requested too.
\<close>

theorem new_packet_requests_missing:
  assumes rel: "rudp_rel st A" and ok: "fragment_ok A msg" and new: "A (msg_seq msg) = []"
    and old: "last_pkt_seq st = of_nat s0" "s0 < 4" "s0 \<noteq> msg_seq msg" "A s0 \<noteq> []"
  shows "\<exists>st' r h. defragment env st msg = Inr (st', r, h,
      map (request_for (complete_pad env) s0) (filter (\<lambda>j. A s0 ! j = None) [0..<length (A s0)])
      @ (if 1 < msg_idx msg then [request_for (ask_pad env) (msg_seq msg) (msg_idx msg - 1)] else []))"
proof -
  let ?T = "fragmentsTable st" and ?s = "msg_seq msg" and ?hdr = "msgHeader msg"
  let ?seq = "ucast (h_seqNum ?hdr) :: u8"
  let ?F0 = "fresh_fragment (slots ?T ! ?s)"
  let ?T2 = "frag_upd (?T\<lparr>unusedIdx := 0\<rparr>) (0, ?s) ?F0"
  let ?st2 = "st\<lparr>fragmentsTable := ?T2\<rparr>"
  let ?reqs = "map (request_for (complete_pad env) s0) (filter (\<lambda>j. A s0 ! j = None) [0..<length (A s0)])"
  have wf: "wf_table ?T" "fusionSock st" and sl: "\<And>s. s < 4 \<Longrightarrow> slot_rel (slots ?T ! s) (A s)"
    using rel by (simp_all add: rudp_rel_def)
  have m: "wf_Msg_Buf msg" "?s < 4" "msg_idx msg < msg_cnt msg" "unat (m_msgLen msg) \<le> 60"
    "Suc (msg_idx msg) < msg_cnt msg \<longrightarrow> unat (m_msgLen msg) = 60" "msg_cnt msg \<le> 25"
    using ok by (simp_all add: fragment_ok_def)
  have unused: "\<not> f_used (slots ?T ! ?s)" using sl [OF m(2)] new by (simp add: slot_rel_def)
  have data: "length (f_data (slots ?T ! ?s)) = 1500" using wf m(2) by (simp add: length_f_data)
  have s0: "slots ?T2 ! s0 = slots ?T ! s0" using old(2,3) wf by (simp add: tab.get_put)
  have "rrudp_complete_last_pkt True (complete_pad env) ?T2 (of_nat s0) = Inr ?reqs"
    by (rule complete_last_pkt_missing) (use s0 sl [OF old(2)] old(2,4) in simp_all)
  moreover have "sint (of_nat s0 :: u8) \<noteq> int (unat ?seq)"
    using old(2,3) sint_small_u8 [of s0] by (simp only: unat_seq_u8 of_nat_eq_iff) simp
  ultimately have lk: "defrag_lookup env st msg = Inr (?st2, (0, ?s), ?reqs)"
    using unused m(2) wf(2) old(1)
    by (simp add: defrag_lookup_def Let_def find_terminal_slots get_freeFragment_slots unat_seq_u8
        term_get_cur_pkt_seq_def fresh_fragment_def)
  have h: "slot_holds (?F0\<lparr>f_pktSeqNum := ?seq\<rparr>) (replicate (msg_cnt msg) None)"
    using slot_holds_fresh [OF data m(6)] by (simp only: slot_holds_pktSeqNum)
  from defrag_store_holds [OF h m(1,3-5), of env] obtain F where
    F: "defrag_store env msg (?F0\<lparr>f_pktSeqNum := ?seq\<rparr>) = Inr F" "f_frgmntIdx F = 0"
    using m(3) by (auto simp: fresh_fragment_def)
  have lt: "h_frgmntIdx ?hdr < h_frgmnts ?hdr" using m(3) by (simp add: word_less_nat_alt)
  have at: "slots ?T2 ! ?s = ?F0" using wf(1) m(2) by (simp add: tab.get_put)
  have f0: "length (f_data ?F0) = 1500" using data by (simp add: fresh_fragment_def)
  have idx: "ucast (h_frgmntIdx ?hdr) - (1 :: u8) = of_nat (msg_idx msg - 1)" if "1 < msg_idx msg"
    using that by (simp add: of_nat_diff)
  have seq: "ucast (h_seqNum ?hdr) = (of_nat ?s :: u8)" by simp
  show ?thesis
    using lt lk F wf(2) idx
    by (cases "1 < msg_idx msg")
      (simp_all add: defragment_unfold Let_def at rrudp_ask_retransmit_def hub_send_req_def
        request_for_def term_set_cur_pkt_seq_def seq [symmetric])
qed

text \<open>A state in which fragment 1 of the three fragments of packet 1 has arrived.\<close>

definition half_state :: rudp_state where
  "half_state = \<lparr> fragmentsTable = \<lparr> unusedIdx = 0, fragments = [[zero_fragment,
       \<lparr> f_used = True, f_frgmntIdx = 1, f_accumulatedFrgmnts = 1, f_frgmnts = 3, f_pktSeqNum = 1,
         f_frags_mask = 2, f_lastTime = \<lparr> tv_sec = 990, tv_usec = 0 \<rparr>, f_size = 60, f_terminalId = 0,
         f_data = mem_write (replicate 1500 0) 60 (replicate 60 7) \<rparr>,
       zero_fragment, zero_fragment, zero_fragment]] \<rparr>,
     last_pkt_seq = 1, fusionSock = True \<rparr>"

definition half_reasm :: reasm where
  "half_reasm = (\<lambda>_. [])(1 := [None, Some (replicate 60 7), None])"

lemma less_4_cases: "s < (4::nat) \<longleftrightarrow> s = 0 \<or> s = 1 \<or> s = 2 \<or> s = 3"
  by auto

lemma bit_2_u32: "bit (2 :: u32) j \<longleftrightarrow> j = 1"
proof -
  have "(2 :: u32) = push_bit 1 1" by simp
  then show ?thesis by (simp only: bit_simps) auto
qed

lemma half_rel: "rudp_rel half_state half_reasm"
proof -
  let ?T = "fragmentsTable half_state"
  have z: "length (f_data zero_fragment) = 1500" "\<not> f_used zero_fragment"
    by (simp_all add: zero_fragment_def NET_PACKET_SIZE_def)
  have sl: "slots ?T ! 0 = zero_fragment" "slots ?T ! 2 = zero_fragment" "slots ?T ! 3 = zero_fragment"
    by (simp_all add: half_state_def slots_def numeral_2_eq_2 numeral_3_eq_3)
  have d: "length (mem_write (replicate 1500 (0::byte)) 60 (replicate 60 7)) = 1500"
    by (simp add: length_mem_write)
  have w: "wf_table ?T" using z d by (simp add: wf_table_def half_state_def frag_consts)
  have c: "take 60 (drop 60 (mem_write (replicate 1500 (0::byte)) 60 (replicate 60 7))) = replicate 60 7"
    by (simp add: mem_write_def)
  have "chunks_in [None, Some (replicate 60 7), None] (f_data (slots ?T ! 1))"
    using c by (auto simp: chunks_in_def half_state_def slots_def less_Suc_eq nth_Cons')
  moreover have "f_frags_mask (slots ?T ! 1) = 2" by (simp add: half_state_def slots_def)
  then have "bit (f_frags_mask (slots ?T ! 1)) j \<longleftrightarrow>
      j < length [None, Some (replicate 60 (7::byte)), None] \<and> [None, Some (replicate 60 (7::byte)), None] ! j \<noteq> None" for j
    by (simp only: bit_2_u32) (auto simp: less_Suc_eq nth_Cons')
  moreover have "f_used (slots ?T ! 1)" "f_terminalId (slots ?T ! 1) = TERMINAL_ID"
    "length (f_data (slots ?T ! 1)) = 1500" "unat (f_accumulatedFrgmnts (slots ?T ! 1)) = 1"
    "unat (f_size (slots ?T ! 1)) = 60"
    using d by (simp_all add: half_state_def slots_def TERMINAL_ID_def)
  ultimately have "slot_holds (slots ?T ! 1) [None, Some (replicate 60 7), None]"
    unfolding slot_holds_def by simp
  moreover have "unat (f_frgmnts (slots ?T ! 1)) = 3" by (simp add: half_state_def slots_def)
  ultimately have "\<forall>s<4. slot_rel (slots ?T ! s) (half_reasm s)"
    by (auto simp: less_4_cases sl z slot_rel_def half_reasm_def)
  with w show ?thesis by (simp add: rudp_rel_def) (simp add: half_state_def)
qed

theorem new_packet_requests_missing_witness:
  "\<exists>st' r h. defragment env_example half_state (mk_fragment 2 2 4 (replicate 60 9)) = Inr (st', r, h,
      map (request_for (complete_pad env_example) 1)
        (filter (\<lambda>j. half_reasm 1 ! j = None) [0..<length (half_reasm 1)])
      @ (if 1 < msg_idx (mk_fragment 2 2 4 (replicate 60 9))
         then [request_for (ask_pad env_example) (msg_seq (mk_fragment 2 2 4 (replicate 60 9)))
                (msg_idx (mk_fragment 2 2 4 (replicate 60 9)) - 1)] else []))"
  by (rule new_packet_requests_missing [OF half_rel])
    (simp_all add: fragment_ok_def mk_fragment_simps reasm_slot_def half_reasm_def half_state_def)

section \<open>Expiry of abandoned packets\<close>

definition timed_out :: "timeval \<Rightarrow> UDP_Fragment \<Rightarrow> bool" where
  "timed_out t F \<longleftrightarrow> 40 < sint (tv_sec t - tv_sec (f_lastTime F))"

definition age :: "timeval \<Rightarrow> UDP_Fragment \<Rightarrow> UDP_Fragment" where
  "age t F = (if f_used F \<and> timed_out t F then F\<lparr>f_used := False\<rparr> else F)"

lemma sweep_slot:
  assumes "wf_table T" "j < 5"
  shows "(let frag = frag_at T (0, j) in
            if \<not> f_used frag then T
            else if int R_UDP_TIMEOUT < sint (tv_sec t - tv_sec (f_lastTime frag))
            then frag_upd T (0, j) (frag\<lparr>f_used := False\<rparr>) else T)
         = (if f_used (slots T ! j) \<and> timed_out t (slots T ! j)
            then frag_upd T (0, j) (age t (slots T ! j)) else T)"
  by (simp add: Let_def timed_out_def age_def R_UDP_TIMEOUT_def)

lemma sweep_slots:
  assumes wf: "wf_table (fragmentsTable st)"
  shows "wf_table (fragmentsTable (r_udp_req_sweep t st))"
    and "j < 5 \<Longrightarrow> slots (fragmentsTable (r_udp_req_sweep t st)) ! j =
      (if j < 4 then age t (slots (fragmentsTable st) ! j) else slots (fragmentsTable st) ! j)"
proof -
  define f where "f = (\<lambda>(i, j) T. (let frag = frag_at T (i, j) in
      if \<not> f_used frag then T
      else if int R_UDP_TIMEOUT < sint (tv_sec t - tv_sec (f_lastTime frag))
      then frag_upd T (i, j) (frag\<lparr>f_used := False\<rparr>) else T))"
  have f: "wf_table (f (0, j) T) \<and> (\<forall>k<5. slots (f (0, j) T) ! k = (if k = j then age t (slots T ! k) else slots T ! k))"
    if "wf_table T" "j < 5" for T j
    using sweep_slot [OF that, of t] that length_f_data [OF that]
    by (auto simp: f_def tab.get_put wf_frag_upd age_def)
  have seq: "wf_table (fold f (map (Pair 0) js) T) \<and> (\<forall>k<5. slots (fold f (map (Pair 0) js) T) ! k =
      (if k \<in> set js then age t (slots T ! k) else slots T ! k))"
    if "wf_table T" "\<forall>j \<in> set js. j < 5" "distinct js" for js T
    using that
  proof (induction js arbitrary: T)
    case (Cons j js)
    with f [of T j] Cons.IH [of "f (0, j) T"] show ?case by auto
  qed simp
  have p: "List.product [0..<FRAGMENTS_TABLE_COUNT] [0..<MAX_PKTS] = map (Pair 0) [0, 1, 2, 3]"
    by (simp add: frag_consts upt_rec)
  have r: "fragmentsTable (r_udp_req_sweep t st) = fold f (map (Pair 0) [0, 1, 2, 3]) (fragmentsTable st)"
    unfolding r_udp_req_sweep_def f_def p by simp
  show "wf_table (fragmentsTable (r_udp_req_sweep t st))"
    unfolding r using seq [OF wf, of "[0, 1, 2, 3]"] by simp
  show "slots (fragmentsTable (r_udp_req_sweep t st)) ! j =
      (if j < 4 then age t (slots (fragmentsTable st) ! j) else slots (fragmentsTable st) ! j)" if "j < 5"
    unfolding r using seq [OF wf, of "[0, 1, 2, 3]"] that by auto
qed

lemma sweep_rel:
  assumes "rudp_rel st A"
  shows "rudp_rel (r_udp_req_sweep t st)
      (\<lambda>s. if s < 4 \<and> timed_out t (slots (fragmentsTable st) ! s) then [] else A s)
    \<and> slots (fragmentsTable (r_udp_req_sweep t st)) ! 4 = slots (fragmentsTable st) ! 4"
proof -
  have wf: "wf_table (fragmentsTable st)" and sl: "\<And>s. s < 4 \<Longrightarrow> slot_rel (slots (fragmentsTable st) ! s) (A s)"
    and fs: "fusionSock st" using assms by (simp_all add: rudp_rel_def)
  have "slot_rel (age t (slots (fragmentsTable st) ! s))
      (if timed_out t (slots (fragmentsTable st) ! s) then [] else A s)" if "s < 4" for s
    using sl [OF that] by (auto simp: slot_rel_def age_def slot_holds_def split: if_splits)
  then show ?thesis
    using sweep_slots(1) [OF wf, of t] sweep_slots(2) [OF wf, of _ t] fs by (simp add: rudp_rel_def) (simp add: r_udp_req_sweep_def)
qed

text \<open>
  C13: One round of the timeout thread makes the abstract reassembler forget
  exactly the packets whose last fragment is more than 40 seconds old; packets with sequence
  number 4, kept in the extra slot of the row, are never dropped.
\<close>

theorem sweep_drops_timed_out:
  assumes "rudp_rel st A"
  shows "rudp_rel (r_udp_req_sweep t st)
      (\<lambda>s. if s < 4 \<and> timed_out t (slots (fragmentsTable st) ! s) then [] else A s)
    \<and> slots (fragmentsTable (r_udp_req_sweep t st)) ! 4 = slots (fragmentsTable st) ! 4"
  by (rule sweep_rel [OF assms])

theorem sweep_drops_timed_out_witness:
  "rudp_rel (r_udp_req_sweep \<lparr> tv_sec = 1031, tv_usec = 0 \<rparr> half_state)
      (\<lambda>s. if s < 4 \<and> timed_out \<lparr> tv_sec = 1031, tv_usec = 0 \<rparr> (slots (fragmentsTable half_state) ! s)
           then [] else half_reasm s)
    \<and> slots (fragmentsTable (r_udp_req_sweep \<lparr> tv_sec = 1031, tv_usec = 0 \<rparr> half_state)) ! 4
      = slots (fragmentsTable half_state) ! 4"
  by (rule sweep_drops_timed_out [OF half_rel])

section \<open>Inputs on which the code goes wrong\<close>

text \<open>
  A fragment whose sequence number is 5 or more makes
  \<open>get_freeFragment\<close> index past the row of slots; every such message ends in an
  out-of-bounds access, although the header has room for sixteen sequence numbers.
\<close>

theorem seq_beyond_table_fails:
  assumes "msg_idx msg < msg_cnt msg" "5 \<le> msg_seq msg"
  shows "defragment env st msg = Inl OutOfBounds"
  using assms
  by (simp add: defragment_unfold defrag_lookup_def Let_def find_terminal_slots get_freeFragment_slots
      unat_seq_u8 word_less_nat_alt)

theorem seq_beyond_table_fails_witness:
  "defragment env_example idle_state (mk_fragment 5 0 1 [1, 2]) = Inl OutOfBounds"
  by (rule seq_beyond_table_fails) (simp_all add: mk_fragment_simps)

lemma frag_lookup_seq4:
  assumes "msg_seq msg = 4" "wf_table (fragmentsTable st)"
  shows "find_terminal (fragmentsTable st) TERMINAL_ID (ucast (h_seqNum (msgHeader msg))) = None"
    and "f_used (slots (fragmentsTable st) ! 4) \<Longrightarrow> defrag_lookup env st msg = Inl NullDeref"
  using assms
  by (simp_all add: defrag_lookup_def Let_def find_terminal_slots get_freeFragment_slots unat_seq_u8)

text \<open>Storing into a slot that has room keeps the data length and the \<open>used\<close> flag.\<close>

lemma defrag_store_Inr:
  assumes "wf_Msg_Buf msg" "msg_idx msg < 25" "unat (m_msgLen msg) \<le> 60" "length (f_data F) = 1500"
  shows "\<exists>F'. defrag_store env msg F = Inr F' \<and> f_used F' = f_used F \<and> length (f_data F') = 1500
    \<and> f_accumulatedFrgmnts F' = f_accumulatedFrgmnts F + 1 \<and> f_size F' = f_size F + m_msgLen msg
    \<and> f_data F' = mem_write (f_data F) (if msg_cnt msg = 0 then 0 else 60 * msg_idx msg) (chunk_of msg)"
proof -
  let ?off = "if h_frgmnts (msgHeader msg) \<noteq> 0 then msg_idx msg * 60 else 0"
  have ck: "take (unat (m_msgLen msg)) (drop 3 (Msg_Buf_bytes msg)) = chunk_of msg"
    "length (chunk_of msg) = unat (m_msgLen msg)" "unat (m_msgLen msg) \<le> length (drop 3 (Msg_Buf_bytes msg))"
    using wf_chunk [OF assms(1,3)] by blast+
  have off: "?off + unat (m_msgLen msg) \<le> 1500" using assms(2,3) by simp
  have "memcpy (f_data F) ?off (drop 3 (Msg_Buf_bytes msg)) (unat (m_msgLen msg))
      = Inr (mem_write (f_data F) ?off (chunk_of msg))"
    using memcpy_ok [OF ck(3), of ?off "f_data F"] ck(1) off assms(4) by simp
  moreover have "?off = (if msg_cnt msg = 0 then 0 else 60 * msg_idx msg)"
    by (simp add: unat_eq_0 mult.commute)
  moreover have "length (mem_write (f_data F) ?off (chunk_of msg)) = 1500"
    using off ck(2) assms(4) by (subst length_mem_write) auto
  ultimately show ?thesis
    unfolding defrag_store_def Let_def pkt_consts by simp
qed

text \<open>A fragment that does not complete its packet: nothing is sent to the device.\<close>

lemma iot_deliver_partial:
  assumes rdy: "table_ready st" and slot: "has_slot (fragmentsTable st) (msg_seq msg)"
    and lt: "msg_idx msg < msg_cnt msg"
    and st: "defrag_store env msg ((slots (lookup_table (fragmentsTable st) (msg_seq msg)) ! msg_seq msg)
      \<lparr>f_pktSeqNum := ucast (h_seqNum (msgHeader msg))\<rparr>) = Inr F"
    and F: "unat (f_accumulatedFrgmnts F) < msg_cnt msg" "length (f_data F) = 1500"
  shows "\<exists>st' ds. iot_deliver env st msg = Inr (st', None, ds) \<and> wf_table (fragmentsTable st') \<and> fusionSock st'
    \<and> slots (fragmentsTable st') ! msg_seq msg = F\<lparr>f_frgmntIdx := ucast (h_frgmntIdx (msgHeader msg))\<rparr>
    \<and> (\<forall>j<5. j \<noteq> msg_seq msg \<longrightarrow> slots (fragmentsTable st') ! j = slots (fragmentsTable st) ! j)"
proof -
  let ?T = "lookup_table (fragmentsTable st) (msg_seq msg)"
  have wf: "wf_table (fragmentsTable st)" using rdy by (simp add: table_ready_def)
  have s5: "msg_seq msg < 5" using slot by (auto simp: has_slot_def)
  have c: "\<not> msg_cnt msg \<le> unat (f_accumulatedFrgmnts F)" using F(1) by simp
  from defragment_eq(2) [OF rdy slot lt st] c obtain st' ds where
    d: "defragment env st msg = Inr (st', -1, None, ds)" "fusionSock st'"
      "fragmentsTable st' = frag_upd ?T (0, msg_seq msg) (F\<lparr>f_frgmntIdx := ucast (h_frgmntIdx (msgHeader msg))\<rparr>)"
    by auto
  note T = lookup_table_simps [OF wf s5]
  have "iot_deliver env st msg = Inr (st', None, ds)" using d(1) by (simp add: iot_deliver_def)
  moreover have "wf_table (fragmentsTable st')" using T(1) F(2) by (simp add: d(3) wf_frag_upd)
  ultimately show ?thesis
    using d(2) T s5 by (simp add: d(3) tab.get_put)
qed

text \<open>
  C14: A packet with sequence number 4 and several fragments: its first
  fragment is stored in the spare slot of the row, which \<open>find_terminal\<close> never searches, and
  the second one makes \<open>defragment\<close> clear a NULL handle.
\<close>

theorem seq_4_second_fragment_fails:
  assumes rel: "rudp_rel st A" and free: "\<not> f_used (slots (fragmentsTable st) ! 4)"
    and m1: "wf_Msg_Buf m1" "msg_seq m1 = 4" "msg_idx m1 < msg_cnt m1" "2 \<le> msg_cnt m1" "msg_cnt m1 \<le> 25"
      "unat (m_msgLen m1) \<le> 60"
    and m2: "msg_seq m2 = 4" "msg_idx m2 < msg_cnt m2"
  shows "\<exists>st' ds. iot_deliver e1 st m1 = Inr (st', None, ds) \<and> iot_deliver e2 st' m2 = Inl NullDeref"
proof -
  let ?F = "(slots (lookup_table (fragmentsTable st) 4) ! 4)\<lparr>f_pktSeqNum := ucast (h_seqNum (msgHeader m1))\<rparr>"
  note wf = rudp_relD(1) [OF rel]
  have F0: "slots (lookup_table (fragmentsTable st) 4) ! 4 = fresh_fragment (slots (fragmentsTable st) ! 4)"
    using free wf by (simp add: lookup_table_simps)
  then have f: "f_used ?F" "length (f_data ?F) = 1500" "f_accumulatedFrgmnts ?F = 0"
    using wf by (simp_all add: fresh_fragment_def length_f_data)
  have "msg_idx m1 < 25" using m1(3,5) by simp
  from defrag_store_Inr [OF m1(1) this m1(6) f(2), of e1] f(1,3) obtain F' where
    F': "defrag_store e1 m1 ?F = Inr F'" "f_used F'" "length (f_data F') = 1500" "f_accumulatedFrgmnts F' = 1"
    by auto
  have "unat (f_accumulatedFrgmnts F') < msg_cnt m1" using F'(4) m1(4) by simp
  from iot_deliver_partial [OF rudp_rel_ready [OF rel] _ m1(3) F'(1) [folded m1(2)] this F'(3)] free m1(2) obtain st' ds where
    d: "iot_deliver e1 st m1 = Inr (st', None, ds)" "wf_table (fragmentsTable st')"
      "f_used (slots (fragmentsTable st') ! 4)"
    using F'(2) by (auto simp: has_slot_def)
  have "h_frgmntIdx (msgHeader m2) < h_frgmnts (msgHeader m2)" using m2(2) by (simp add: word_less_nat_alt)
  then have "iot_deliver e2 st' m2 = Inl NullDeref"
    using frag_lookup_seq4(2) [OF m2(1) d(2,3)] by (simp add: iot_deliver_def defragment_unfold Let_def)
  with d(1) show ?thesis by blast
qed

theorem seq_4_second_fragment_fails_witness:
  "\<exists>st' ds. iot_deliver env_example idle_state (mk_fragment 4 0 2 (replicate 60 1)) = Inr (st', None, ds)
    \<and> iot_deliver env_example st' (mk_fragment 4 1 2 [3]) = Inl NullDeref"
proof (rule seq_4_second_fragment_fails [OF idle_rel])
  show "\<not> f_used (slots (fragmentsTable idle_state) ! 4)"
    by (simp add: idle_state_def zero_table_def slots_def frag_consts zero_fragment_def)
qed (simp_all add: mk_fragment_simps)

text \<open>
  A header may announce up to 31 fragments, but the slot has room for
  25: a fragment with index 25 or more is written past the slot's 1500 bytes.
\<close>

theorem fragment_index_overflow:
  assumes rel: "rudp_rel st A" and m: "msg_seq msg < 4" "msg_idx msg < msg_cnt msg" "25 \<le> msg_idx msg"
    and len: "0 < unat (m_msgLen msg)"
  shows "defragment env st msg = Inl OutOfBounds"
proof (rule defragment_eq(1) [OF rudp_rel_ready [OF rel] _ m(2)])
  let ?F = "(slots (lookup_table (fragmentsTable st) (msg_seq msg)) ! msg_seq msg)
      \<lparr>f_pktSeqNum := ucast (h_seqNum (msgHeader msg))\<rparr>"
  have "length (f_data ?F) = 1500"
    using rudp_relD(1) [OF rel] m(1) by (simp add: lookup_table_simps length_f_data fresh_fragment_def)
  moreover have "h_frgmnts (msgHeader msg) \<noteq> 0" using m(2) by (auto simp: unat_0)
  ultimately show "defrag_store env msg ?F = Inl OutOfBounds"
    using m(3) len by (simp add: defrag_store_def Let_def pkt_consts memcpy_overflow)
qed (use m(1) in simp)

theorem fragment_index_overflow_witness:
  "defragment env_example idle_state (mk_fragment 0 25 26 [1]) = Inl OutOfBounds"
  by (rule fragment_index_overflow [OF idle_rel]) (simp_all add: mk_fragment_simps)

text \<open>
  A message whose index is not below its fragment count counts as
  a whole packet: it is sent, but then \<open>release_fragment\<close> clears a NULL handle.
\<close>

theorem unfragmented_message_fails:
  assumes "msg_cnt msg \<le> msg_idx msg" "wf_Msg_Buf msg" "unat (m_msgLen msg) \<le> 60"
  shows "defragment env st msg = Inr (st, 0, None, [])
    \<and> sendto (drop 3 (Msg_Buf_bytes msg)) (unat (m_msgLen msg)) = Inr (chunk_of msg)
    \<and> iot_deliver env st msg = Inl NullDeref"
proof -
  have d: "defragment env st msg = Inr (st, 0, None, [])"
    using assms(1) by (simp add: defragment_unfold Let_def word_less_nat_alt)
  have u: "sendto (drop 3 (Msg_Buf_bytes msg)) (unat (m_msgLen msg)) = Inr (chunk_of msg)"
    using wf_chunk [OF assms(2,3)] by (simp add: sendto_def)
  show ?thesis by (simp add: iot_deliver_def d u release_fragment_def)
qed

theorem unfragmented_message_fails_witness:
  "defragment env_example idle_state (mk_fragment 1 0 0 [1, 2, 3]) = Inr (idle_state, 0, None, [])
    \<and> sendto (drop 3 (Msg_Buf_bytes (mk_fragment 1 0 0 [1, 2, 3]))) (unat (m_msgLen (mk_fragment 1 0 0 [1, 2, 3])))
       = Inr (chunk_of (mk_fragment 1 0 0 [1, 2, 3]))
    \<and> iot_deliver env_example idle_state (mk_fragment 1 0 0 [1, 2, 3]) = Inl NullDeref"
  by (rule unfragmented_message_fails) (simp_all add: mk_fragment_simps)

text \<open>The fragment that completes the count: the slot's data are sent and the slot is cleared.\<close>

lemma iot_deliver_complete:
  assumes rdy: "table_ready st" and slot: "has_slot (fragmentsTable st) (msg_seq msg)"
    and lt: "msg_idx msg < msg_cnt msg"
    and st: "defrag_store env msg ((slots (lookup_table (fragmentsTable st) (msg_seq msg)) ! msg_seq msg)
      \<lparr>f_pktSeqNum := ucast (h_seqNum (msgHeader msg))\<rparr>) = Inr F"
    and F: "msg_cnt msg \<le> unat (f_accumulatedFrgmnts F)" "length (f_data F) = 1500" "unat (f_size F) \<le> 1500"
  shows "\<exists>st' ds. iot_deliver env st msg = Inr (st', Some (take (unat (f_size F)) (f_data F)), ds)"
proof -
  let ?T = "lookup_table (fragmentsTable st) (msg_seq msg)"
  have wf: "wf_table (fragmentsTable st)" using rdy by (simp add: table_ready_def)
  have s5: "msg_seq msg < 5" using slot by (auto simp: has_slot_def)
  from defragment_eq(2) [OF rdy slot lt st] F(1) obtain st' ds where
    d: "defragment env st msg = Inr (st', 0, Some (0, msg_seq msg), ds)"
      "fragmentsTable st' = frag_upd ?T (0, msg_seq msg) (F\<lparr>f_frgmntIdx := ucast (h_frgmntIdx (msgHeader msg))\<rparr>)"
    by auto
  have "slots (fragmentsTable st') ! msg_seq msg = F\<lparr>f_frgmntIdx := ucast (h_frgmntIdx (msgHeader msg))\<rparr>"
    using lookup_table_simps(1) [OF wf s5] s5 by (simp add: d(2) tab.get_put)
  with F(2,3) show ?thesis
    by (simp add: iot_deliver_def d(1) sendto_def release_fragment_def)
qed

lemma mem_write_twice:
  "off + length c \<le> length d \<Longrightarrow> mem_write (mem_write d off c) off c = mem_write d off c"
  by (simp add: mem_write_def)

text \<open>
  C16: Arrivals are counted, not fragments: if the network delivers the
  same fragment of a two-fragment packet twice, the packet is declared complete and a
  datagram of twice its length goes to the device, in which the bytes of the other fragment
  are whatever an earlier packet left in the slot.
\<close>

theorem duplicate_fragment_completes:
  assumes rel: "rudp_rel st A" and ok: "fragment_ok A msg" and new: "A (msg_seq msg) = []" "msg_cnt msg = 2"
  shows "\<exists>st'. iot_deliver_all [(e1, msg), (e2, msg)] st = Inr (st', [take (2 * length (chunk_of msg))
      (mem_write (f_data (slots (fragmentsTable st) ! msg_seq msg)) (60 * msg_idx msg) (chunk_of msg))])"
proof -
  let ?s = "msg_seq msg" and ?c = "chunk_of msg"
  let ?q = "ucast (h_seqNum (msgHeader msg)) :: u8"
  let ?F = "fresh_fragment (slots (fragmentsTable st) ! ?s)\<lparr>f_pktSeqNum := ?q\<rparr>"
  let ?d = "mem_write (f_data (slots (fragmentsTable st) ! ?s)) (60 * msg_idx msg) ?c"
  have m: "wf_Msg_Buf msg" "?s < 4" "msg_idx msg < msg_cnt msg" "unat (m_msgLen msg) \<le> 60" "msg_idx msg < 25"
    using ok by (simp_all add: fragment_ok_def)
  note wf = rudp_relD(1) [OF rel] and ck = wf_chunk [OF m(1,4)]
  have free: "\<not> f_used (slots (fragmentsTable st) ! ?s)"
    using slot_rel_used(1) [OF rudp_relD(3) [OF rel m(2)]] new(1) by simp
  have F0: "slots (lookup_table (fragmentsTable st) ?s) ! ?s = fresh_fragment (slots (fragmentsTable st) ! ?s)"
    using free wf m(2) by (simp add: lookup_table_simps)
  have dl: "length (f_data (slots (fragmentsTable st) ! ?s)) = 1500" using wf m(2) by (simp add: length_f_data)
  have f: "f_used ?F" "length (f_data ?F) = 1500" "f_accumulatedFrgmnts ?F = 0" "f_size ?F = 0"
    "f_data ?F = f_data (slots (fragmentsTable st) ! ?s)"
    using dl by (simp_all add: fresh_fragment_def)
  from defrag_store_Inr [OF m(1,5,4) f(2), of e1] f new(2) obtain F1 where
    F1: "defrag_store e1 msg ?F = Inr F1" "f_used F1" "length (f_data F1) = 1500" "f_accumulatedFrgmnts F1 = 1"
      "f_size F1 = m_msgLen msg" "f_data F1 = ?d" by auto
  from iot_deliver_partial [OF rudp_rel_ready [OF rel] has_slot_less [OF m(2)] m(3), unfolded F0, OF F1(1)] F1(3,4) new(2)
  obtain st1 ds1 where
    d1: "iot_deliver e1 st msg = Inr (st1, None, ds1)" "wf_table (fragmentsTable st1)"
      "slots (fragmentsTable st1) ! ?s = F1\<lparr>f_frgmntIdx := ucast (h_frgmntIdx (msgHeader msg))\<rparr>" by auto
  from iot_deliver_rel [OF rel ok, of e1] d1(1) obtain A1 where rel1: "rudp_rel st1 A1" by auto
  let ?F1 = "F1\<lparr>f_frgmntIdx := ucast (h_frgmntIdx (msgHeader msg)), f_pktSeqNum := ?q\<rparr>"
  have F1': "slots (lookup_table (fragmentsTable st1) ?s) ! ?s = F1\<lparr>f_frgmntIdx := ucast (h_frgmntIdx (msgHeader msg))\<rparr>"
    using d1(2,3) F1(2) m(2) by (simp add: lookup_table_simps)
  have "length (f_data ?F1) = 1500" using F1(3) by simp
  from defrag_store_Inr [OF m(1,5,4) this, of e2] F1 new(2) obtain F2 where
    F2: "defrag_store e2 msg ?F1 = Inr F2" "length (f_data F2) = 1500" "f_accumulatedFrgmnts F2 = 2"
      "f_size F2 = m_msgLen msg + m_msgLen msg" "f_data F2 = mem_write ?d (60 * msg_idx msg) ?c" by auto
  have "60 * msg_idx msg + length ?c \<le> 1500" using ck m(4,5) by linarith
  then have data: "f_data F2 = ?d" using F2(5) dl by (simp add: mem_write_twice)
  have size: "unat (f_size F2) = 2 * length ?c"
    using F2(4) ck m(4) by (simp add: unat_word_ariths)
  from iot_deliver_complete [OF rudp_rel_ready [OF rel1] has_slot_less [OF m(2)] m(3), of e2, unfolded F1'] F2 size ck m(4) new(2)
  obtain st2 ds2 where "iot_deliver e2 st1 msg = Inr (st2, Some (take (2 * length ?c) ?d), ds2)"
    using data by auto
  with d1(1) show ?thesis by simp
qed

theorem duplicate_fragment_completes_witness:
  "\<exists>st'. iot_deliver_all [(env_example, mk_fragment 1 0 2 (replicate 60 5)), (env_example, mk_fragment 1 0 2 (replicate 60 5))]
      idle_state = Inr (st', [take (2 * length (chunk_of (mk_fragment 1 0 2 (replicate 60 5))))
        (mem_write (f_data (slots (fragmentsTable idle_state) ! msg_seq (mk_fragment 1 0 2 (replicate 60 5))))
          (60 * msg_idx (mk_fragment 1 0 2 (replicate 60 5))) (chunk_of (mk_fragment 1 0 2 (replicate 60 5))))])"
  by (rule duplicate_fragment_completes [OF idle_rel])
    (simp_all add: fragment_ok_def reasm_slot_def mk_fragment_simps)

section \<open>The timeout thread in the middle of \<open>defragment\<close>\<close>

lemma defrag_store_unused:
  "defrag_store env msg F = Inr F' \<Longrightarrow> defrag_store env msg (F\<lparr>f_used := b\<rparr>) = Inr (F'\<lparr>f_used := b\<rparr>)"
  by (cases "h_frgmnts (msgHeader msg) = 0") (auto simp: defrag_store_def Let_def split: sum.splits)

text \<open>A fragment of a packet that is in the table and stays incomplete.\<close>

definition partial_ok :: "reasm \<Rightarrow> Msg_Buf \<Rightarrow> bool" where
  "partial_ok A msg \<longleftrightarrow> fragment_ok A msg \<and> A (msg_seq msg) \<noteq> [] \<and> None \<in> set ((A (msg_seq msg))[msg_idx msg := Some (chunk_of msg)])"

lemma partial_okD:
  assumes "partial_ok A msg"
  shows "wf_Msg_Buf msg" "msg_seq msg < 4" "msg_idx msg < msg_cnt msg" "unat (m_msgLen msg) \<le> 60"
    "Suc (msg_idx msg) < msg_cnt msg \<longrightarrow> unat (m_msgLen msg) = 60" "length (A (msg_seq msg)) = msg_cnt msg"
    "A (msg_seq msg) ! msg_idx msg = None" "1 < msg_cnt msg"
    "reasm_step A msg = (A(msg_seq msg := (A (msg_seq msg))[msg_idx msg := Some (chunk_of msg)]), None)"
proof -
  show m: "wf_Msg_Buf msg" "msg_seq msg < 4" "msg_idx msg < msg_cnt msg" "unat (m_msgLen msg) \<le> 60"
    "Suc (msg_idx msg) < msg_cnt msg \<longrightarrow> unat (m_msgLen msg) = 60" "length (A (msg_seq msg)) = msg_cnt msg"
    "A (msg_seq msg) ! msg_idx msg = None"
    using assms by (auto simp: partial_ok_def fragment_ok_def reasm_slot_def)
  have p: "None \<in> set ((A (msg_seq msg))[msg_idx msg := Some (chunk_of msg)])" using assms by (simp add: partial_ok_def)
  show "1 < msg_cnt msg"
  proof (rule ccontr)
    assume "\<not> 1 < msg_cnt msg"
    with m(3,6) have "msg_idx msg = 0" "length (A (msg_seq msg)) = Suc 0" by simp_all
    with p show False by (auto simp: length_Suc_conv)
  qed
  show "reasm_step A msg = (A(msg_seq msg := (A (msg_seq msg))[msg_idx msg := Some (chunk_of msg)]), None)"
    using assms p by (simp add: reasm_step_def reasm_slot_def partial_ok_def)
qed

text \<open>The sweep comes first: the packet starts again with this fragment.\<close>

lemma sweep_then_fragment:
  assumes rel: "rudp_rel st A" and ok: "partial_ok A msg" and t: "timed_out t (slots (fragmentsTable st) ! msg_seq msg)"
  shows "\<exists>st1 ds A1. iot_deliver env (r_udp_req_sweep t st) msg = Inr (st1, None, ds)
      \<and> rudp_rel st1 A1 \<and> A1 (msg_seq msg) = (replicate (msg_cnt msg) None)[msg_idx msg := Some (chunk_of msg)]"
proof -
  let ?s = "msg_seq msg" and ?ys = "(replicate (msg_cnt msg) None)[msg_idx msg := Some (chunk_of msg)]"
  let ?A = "\<lambda>s. if s < 4 \<and> timed_out t (slots (fragmentsTable st) ! s) then [] else A s"
  note m = partial_okD [OF ok]
  have rel': "rudp_rel (r_udp_req_sweep t st) ?A" using sweep_rel [OF rel] by blast
  have As: "?A ?s = []" using m(2) t by simp
  have ok': "fragment_ok ?A msg" using ok As m(3) by (simp add: partial_ok_def fragment_ok_def reasm_slot_def)
  have "(if msg_idx msg = 0 then 1 else 0) < length ?ys" "?ys ! (if msg_idx msg = 0 then 1 else 0) = None" using m(8) by auto
  then have "None \<in> set ?ys" by (metis nth_mem)
  then have "reasm_step ?A msg = (?A(?s := ?ys), None)" using As by (simp add: reasm_step_def reasm_slot_def)
  with iot_deliver_rel [OF rel' ok', of env] obtain st1 ds where
    "iot_deliver env (r_udp_req_sweep t st) msg = Inr (st1, None, ds)" "rudp_rel st1 (?A(?s := ?ys))" by auto
  then show ?thesis by (intro exI [of _ st1] exI [of _ ds] exI [of _ "?A(?s := ?ys)"]) simp
qed

text \<open>The fragment as it is stored, whatever the flag \<open>used\<close>.\<close>

lemma partial_store:
  assumes rel: "rudp_rel st A" and ok: "partial_ok A msg"
  obtains G where "defrag_store env msg ((slots (fragmentsTable st) ! msg_seq msg)\<lparr>f_pktSeqNum := ucast (h_seqNum (msgHeader msg))\<rparr>) = Inr G"
    "f_lastTime G = now env" "unat (f_accumulatedFrgmnts G) < msg_cnt msg" "length (f_data G) = 1500"
    "lookup_table (fragmentsTable st) (msg_seq msg) = fragmentsTable st" "f_used (slots (fragmentsTable st) ! msg_seq msg)"
proof -
  let ?F = "slots (fragmentsTable st) ! msg_seq msg" and ?xs = "(A (msg_seq msg))[msg_idx msg := Some (chunk_of msg)]"
  note m = partial_okD [OF ok]
  have F: "slot_holds ?F (A (msg_seq msg))" using rudp_relD(3) [OF rel m(2)] ok by (simp add: slot_rel_def partial_ok_def)
  then have used: "f_used ?F" by (simp add: slot_holds_def)
  have "slot_holds (?F\<lparr>f_pktSeqNum := ucast (h_seqNum (msgHeader msg))\<rparr>) (A (msg_seq msg))" using F by simp
  from defrag_store_holds [OF this m(1,3,4,5,6,7), of env] obtain G where
    G: "defrag_store env msg (?F\<lparr>f_pktSeqNum := ucast (h_seqNum (msgHeader msg))\<rparr>) = Inr G" "slot_holds G ?xs" "f_lastTime G = now env" by blast
  have "sum_list (map ocount ?xs) \<noteq> length ?xs" using sum_ocount_full [of ?xs] ok unfolding partial_ok_def by blast
  then have "unat (f_accumulatedFrgmnts G) < msg_cnt msg"
    using G(2) sum_ocount_le [of ?xs] m(6) by (simp add: slot_holds_def)
  moreover have "length (f_data G) = 1500" using G(2) by (simp add: slot_holds_def)
  ultimately show ?thesis using that [OF G(1,3)] used by (simp add: lookup_table_def)
qed

text \<open>The sweep comes afterwards: the packet is kept, as its last fragment is fresh.\<close>

lemma fragment_then_sweep:
  assumes rel: "rudp_rel st A" and ok: "partial_ok A msg" and t: "sint (tv_sec t - tv_sec (now env)) \<le> 40"
  shows "\<exists>st1 ds A1. iot_deliver env st msg = Inr (st1, None, ds) \<and> rudp_rel (r_udp_req_sweep t st1) A1
      \<and> A1 (msg_seq msg) = (A (msg_seq msg))[msg_idx msg := Some (chunk_of msg)]"
proof -
  let ?s = "msg_seq msg" and ?xs = "(A (msg_seq msg))[msg_idx msg := Some (chunk_of msg)]"
  note m = partial_okD [OF ok]
  obtain G where G: "defrag_store env msg ((slots (fragmentsTable st) ! ?s)\<lparr>f_pktSeqNum := ucast (h_seqNum (msgHeader msg))\<rparr>) = Inr G"
    "f_lastTime G = now env" "unat (f_accumulatedFrgmnts G) < msg_cnt msg" "length (f_data G) = 1500"
    "lookup_table (fragmentsTable st) ?s = fragmentsTable st" by (rule partial_store [OF rel ok])
  from iot_deliver_partial [OF rudp_rel_ready [OF rel] has_slot_less [OF m(2)] m(3), unfolded G(5), OF G(1,3,4)] obtain st1 ds where
    d: "iot_deliver env st msg = Inr (st1, None, ds)"
      "slots (fragmentsTable st1) ! ?s = G\<lparr>f_frgmntIdx := ucast (h_frgmntIdx (msgHeader msg))\<rparr>" by blast
  have "fragment_ok A msg" using ok by (simp add: partial_ok_def)
  from iot_deliver_rel [OF rel this, of env] d(1) m(9) have "rudp_rel st1 (A(?s := ?xs))" by auto
  from sweep_rel [OF this, of t] have "rudp_rel (r_udp_req_sweep t st1)
      (\<lambda>s. if s < 4 \<and> timed_out t (slots (fragmentsTable st1) ! s) then [] else (A(?s := ?xs)) s)" by blast
  moreover have "\<not> timed_out t (slots (fragmentsTable st1) ! ?s)" using t G(2) by (simp add: d(2) timed_out_def)
  ultimately show ?thesis using d(1) by auto
qed

text \<open>The sweep comes in between: packet and fragment are dropped.\<close>

lemma sweep_between:
  assumes rel: "rudp_rel st A" and ok: "partial_ok A msg" and t: "timed_out t (slots (fragmentsTable st) ! msg_seq msg)"
  shows "\<exists>st2 h ds st1 ds1 A1. defrag_lookup env st msg = Inr (st2, h, ds)
      \<and> defrag_finish env msg (r_udp_req_sweep t st2) h ds = Inr (st1, -1, None, ds1) \<and> rudp_rel st1 A1 \<and> A1 (msg_seq msg) = []"
proof -
  let ?s = "msg_seq msg" and ?F = "slots (fragmentsTable st) ! msg_seq msg" and ?q = "ucast (h_seqNum (msgHeader msg)) :: u8"
  note m = partial_okD [OF ok]
  obtain G where G: "defrag_store env msg (?F\<lparr>f_pktSeqNum := ?q\<rparr>) = Inr G" "unat (f_accumulatedFrgmnts G) < msg_cnt msg"
    "length (f_data G) = 1500" "lookup_table (fragmentsTable st) ?s = fragmentsTable st" "f_used ?F" by (rule partial_store [OF rel ok])
  obtain st2 ds2 where l: "defrag_lookup env st msg = Inr (st2, (0, ?s), ds2)" "fragmentsTable st2 = fragmentsTable st" "fusionSock st2"
    using defrag_lookup_eq [OF rudp_rel_ready [OF rel] has_slot_less [OF m(2)], of env] G(4) by auto
  then have rel2: "rudp_rel st2 A" using rel by (simp add: rudp_rel_def)
  let ?st = "r_udp_req_sweep t st2" and ?A = "\<lambda>s. if s < 4 \<and> timed_out t (slots (fragmentsTable st) ! s) then [] else A s"
  have rel3: "rudp_rel ?st ?A" using sweep_rel [OF rel2, of t] l(2) by simp
  have sl: "slots (fragmentsTable ?st) ! ?s = ?F\<lparr>f_used := False\<rparr>"
    using sweep_slots(2) [OF rudp_relD(1) [OF rel2], of ?s t] m(2) G(5) t by (simp add: l(2) age_def)
  have st: "defrag_store env msg ((?F\<lparr>f_used := False\<rparr>)\<lparr>f_pktSeqNum := ?q\<rparr>) = Inr (G\<lparr>f_used := False\<rparr>)"
  proof -
    have "(?F\<lparr>f_used := False\<rparr>)\<lparr>f_pktSeqNum := ?q\<rparr> = (?F\<lparr>f_pktSeqNum := ?q\<rparr>)\<lparr>f_used := False\<rparr>" by (cases ?F) simp
    then show ?thesis by (simp only: defrag_store_unused [OF G(1)])
  qed
  let ?G = "G\<lparr>f_used := False, f_frgmntIdx := ucast (h_frgmntIdx (msgHeader msg))\<rparr>"
  have "h_frgmntIdx (msgHeader msg) < h_frgmnts (msgHeader msg)" using m(3) by (simp add: word_less_nat_alt)
  then have "\<exists>st3 ds3. defrag_finish env msg ?st (0, ?s) ds2 = Inr (st3, -1, None, ds3)
    \<and> fragmentsTable st3 = frag_upd (fragmentsTable ?st) (0, ?s) ?G \<and> fusionSock st3"
    using G(2) rudp_relD(2) [OF rel3]
    by (cases "retransmit_msg msg"; cases "Suc (unat (f_frgmntIdx G)) < msg_idx msg")
      (simp_all add: defrag_finish_def Let_def sl st rrudp_ask_retransmit_def hub_send_req_def term_set_cur_pkt_seq_def)
  then obtain st3 ds3 where f: "defrag_finish env msg ?st (0, ?s) ds2 = Inr (st3, -1, None, ds3)"
    "fragmentsTable st3 = frag_upd (fragmentsTable ?st) (0, ?s) ?G" "fusionSock st3" by blast
  have "rudp_rel st3 (?A(?s := []))"
    using rel3 f(2,3) G(3) m(2) by (auto simp: rudp_rel_def wf_frag_upd tab.get_put slot_rel_def)
  with l(1) f(1) show ?thesis
    by (intro exI [of _ st2] exI [of _ "(0, ?s)"] exI [of _ ds2] exI [of _ st3] exI [of _ ds3] exI [of _ "?A(?s := [])"]) simp
qed

text \<open>
  A fragment that does not complete its packet arrives when the packet
  has just timed out.  Had the sweep come first, the packet would start again with this
  fragment; had it come afterwards, the packet would be kept.  When it comes between the lookup
  and the rest of \<open>defragment\<close>, which no lock prevents, the packet is dropped together with the
  fragment.
\<close>

theorem sweep_within_defragment:
  assumes rel: "rudp_rel st A" and ok: "partial_ok A msg"
    and t: "timed_out t (slots (fragmentsTable st) ! msg_seq msg)" "sint (tv_sec t - tv_sec (now env)) \<le> 40"
  shows "(\<exists>st1 ds A1. iot_deliver env (r_udp_req_sweep t st) msg = Inr (st1, None, ds)
      \<and> rudp_rel st1 A1 \<and> A1 (msg_seq msg) = (replicate (msg_cnt msg) None)[msg_idx msg := Some (chunk_of msg)])
    \<and> (\<exists>st1 ds A1. iot_deliver env st msg = Inr (st1, None, ds)
      \<and> rudp_rel (r_udp_req_sweep t st1) A1 \<and> A1 (msg_seq msg) = (A (msg_seq msg))[msg_idx msg := Some (chunk_of msg)])
    \<and> (\<exists>st2 h ds st1 ds1 A1. defrag_lookup env st msg = Inr (st2, h, ds)
      \<and> defrag_finish env msg (r_udp_req_sweep t st2) h ds = Inr (st1, -1, None, ds1) \<and> rudp_rel st1 A1 \<and> A1 (msg_seq msg) = [])"
  using sweep_then_fragment [OF rel ok t(1), of env] fragment_then_sweep [OF rel ok t(2)] sweep_between [OF rel ok t(1), of env]
  by blast

theorem sweep_within_defragment_witness:
  "\<exists>st2 h ds st1 ds1 A1. defrag_lookup env_example half_state (mk_fragment 1 0 3 (replicate 60 9)) = Inr (st2, h, ds)
    \<and> defrag_finish env_example (mk_fragment 1 0 3 (replicate 60 9)) (r_udp_req_sweep \<lparr> tv_sec = 1031, tv_usec = 0 \<rparr> st2) h ds
      = Inr (st1, -1, None, ds1) \<and> rudp_rel st1 A1 \<and> A1 1 = []"
proof -
  let ?m = "mk_fragment 1 0 3 (replicate 60 9)"
  have s: "msg_seq ?m = 1" by (simp add: mk_fragment_simps)
  have "partial_ok half_reasm ?m"
    by (simp add: partial_ok_def fragment_ok_def reasm_slot_def half_reasm_def mk_fragment_simps)
  moreover have "timed_out \<lparr> tv_sec = 1031, tv_usec = 0 \<rparr> (slots (fragmentsTable half_state) ! msg_seq ?m)"
    unfolding s by (simp add: timed_out_def half_state_def slots_def)
  ultimately show ?thesis
    using sweep_within_defragment [OF half_rel, of ?m "\<lparr> tv_sec = 1031, tv_usec = 0 \<rparr>" env_example] s
    by (simp add: env_example_def)
qed

end
