(* ===== verification/Buffer_Pool.thy ===== *)
theory Buffer_Pool
  imports Prelude
begin

text \<open>
  \<open>src/hs_buffer_pool.c\<close>: a ring of equally sized buffers in one \<open>malloc\<close>ed block.  \<open>head\<close>
  is the next buffer to hand out, \<open>tail\<close> the oldest one handed out; one slot always stays
  free.  The index arithmetic is the C code's: \<open>int\<close> differences masked with
  \<open>elem_count - 1\<close> in \<open>uint32_t\<close>.
\<close>

definition MAX_BUFFER_COUNT :: u32 where "MAX_BUFFER_COUNT = 8192"
definition MAX_BUFFER_SIZE :: u32 where "MAX_BUFFER_SIZE = 2048"
definition BUFFERPOOL_NAME_LEN :: nat where "BUFFERPOOL_NAME_LEN = 256"

record BufPool =
  bp_name :: string
  buf :: ptr
  head :: u32
  tail :: u32
  elem_size :: u32
  elem_count :: u32

section \<open>Operations\<close>

definition CIRC_CNT :: "u32 \<Rightarrow> u32 \<Rightarrow> u32 \<Rightarrow> u32" where
  "CIRC_CNT h t sz = (h - t) AND (sz - 1)"

definition CIRC_SPACE :: "u32 \<Rightarrow> u32 \<Rightarrow> u32 \<Rightarrow> u32" where
  "CIRC_SPACE h t sz = CIRC_CNT t (h + 1) sz"

text \<open>
  The counts up to the end of the block, which no caller uses: \<open>end\<close> and \<open>n\<close> are C \<open>int\<close>s, the sums
  in between unsigned.
\<close>

definition CIRC_CNT_TO_END :: "u32 \<Rightarrow> u32 \<Rightarrow> u32 \<Rightarrow> int" where
  "CIRC_CNT_TO_END h t sz =
     (let e = sz - t; n = (h + e) AND (sz - 1) in if sint n < sint e then sint n else sint e)"

definition CIRC_SPACE_TO_END :: "u32 \<Rightarrow> u32 \<Rightarrow> u32 \<Rightarrow> int" where
  "CIRC_SPACE_TO_END h t sz =
     (let e = sz - 1 - h; n = (e + t) AND (sz - 1) in if sint n \<le> sint e then sint n else sint (e + 1))"

text \<open>
  \<open>mem\<close> is what the first \<open>malloc\<close> returns (an uninitialised struct), \<open>block\<close> what the second
  one returns.  The pool name is copied with \<open>strcpy\<close> into 256 bytes.
\<close>

definition create_bufpool :: "u32 \<Rightarrow> u32 \<Rightarrow> BufPool option \<Rightarrow> string \<Rightarrow> BufPool option \<Rightarrow> ptr
    \<Rightarrow> c_error + (BufPool option \<times> int)" where
  "create_bufpool count sz q qname mem block =
     (if q \<noteq> None then Inr (q, -1)
      else if MAX_BUFFER_SIZE < sz \<or> MAX_BUFFER_COUNT < count then Inr (q, -1)
      else (case mem of
          None \<Rightarrow> Inr (None, -1)
        | Some m \<Rightarrow>
            if block = NULL then Inr (Some (m\<lparr>buf := NULL\<rparr>), -1)
            else if BUFFERPOOL_NAME_LEN \<le> length qname then Inl OutOfBounds
            else Inr (Some (m\<lparr>buf := block, head := 0, tail := 0, elem_count := count,
                              elem_size := sz, bp_name := qname\<rparr>), 0)))"

text \<open>The mutex and the condition variable are destroyed after the struct that holds them is freed.\<close>

definition delete_bufpool :: "BufPool option \<Rightarrow> c_error + int" where
  "delete_bufpool q =
     (case q of
        None \<Rightarrow> Inl NullDeref
      | Some b \<Rightarrow> if buf b = NULL then Inr (-1) else Inl UseAfterFree)"

definition bufpool_elem_count :: "BufPool \<Rightarrow> u32" where
  "bufpool_elem_count q = CIRC_CNT (head q) (tail q) (elem_count q)"

text \<open>\<open>bufpool_must_wait\<close> is the test before \<open>pthread_cond_wait\<close>, \<open>bufpool_take\<close> the code after it.\<close>

definition bufpool_must_wait :: "BufPool \<Rightarrow> bool" where
  "bufpool_must_wait q \<longleftrightarrow> CIRC_SPACE (head q) (tail q) (elem_count q) < 1"

definition bufpool_take :: "BufPool \<Rightarrow> ptr \<times> BufPool" where
  "bufpool_take q =
     (buf q + ucast (head q * elem_size q),
      q\<lparr>head := (head q + 1) AND (elem_count q - 1)\<rparr>)"

definition bufpool_getNextFreeBuffer :: "BufPool \<Rightarrow> (ptr \<times> BufPool) option" where
  "bufpool_getNextFreeBuffer q = (if bufpool_must_wait q then None else Some (bufpool_take q))"

definition bufpool_putBackBuffer :: "BufPool \<Rightarrow> BufPool" where
  "bufpool_putBackBuffer q =
     (if 1 \<le> CIRC_CNT (head q) (tail q) (elem_count q)
      then q\<lparr>tail := (tail q + 1) AND (elem_count q - 1)\<rparr> else q)"

section \<open>The contract of a source of buffers\<close>

fun take_many :: "('q \<Rightarrow> ('p \<times> 'q) option) \<Rightarrow> nat \<Rightarrow> 'q \<Rightarrow> ('p list \<times> 'q) option" where
  "take_many get 0 q = Some ([], q)"
| "take_many get (Suc n) q =
     (case get q of None \<Rightarrow> None | Some (p, q') \<Rightarrow>
       (case take_many get n q' of None \<Rightarrow> None | Some (ps, q'') \<Rightarrow> Some (p # ps, q'')))"

text \<open>\<open>repr q ps\<close>: the buffers \<open>ps\<close> are handed out, oldest first; at most \<open>cap\<close> can be.\<close>

locale buffer_source =
  fixes repr :: "'q \<Rightarrow> 'p list \<Rightarrow> bool"
    and cap :: nat
    and get :: "'q \<Rightarrow> ('p \<times> 'q) option"
    and put_back :: "'q \<Rightarrow> 'q"
  assumes repr_distinct: "repr q ps \<Longrightarrow> distinct ps \<and> length ps \<le> cap"
    and get_free: "repr q ps \<Longrightarrow> length ps < cap \<Longrightarrow>
      \<exists>p q'. get q = Some (p, q') \<and> p \<notin> set ps \<and> repr q' (ps @ [p])"
    and get_full: "repr q ps \<Longrightarrow> length ps = cap \<Longrightarrow> get q = None"
    and put_back_oldest: "repr q ps \<Longrightarrow> repr (put_back q) (tl ps)"
begin

lemma take_many_repr:
  assumes "repr q ps" "length ps + n \<le> cap"
  shows "\<exists>qs q'. take_many get n q = Some (qs, q') \<and> length qs = n \<and> repr q' (ps @ qs)"
  using assms
proof (induction n arbitrary: q ps)
  case 0
  then show ?case by auto
next
  case (Suc n)
  then obtain p q1 where p: "get q = Some (p, q1)" "repr q1 (ps @ [p])"
    using get_free [of q ps] by auto
  with Suc.IH [of q1 "ps @ [p]"] Suc.prems obtain qs q'
    where "take_many get n q1 = Some (qs, q')" "length qs = n" "repr q' (ps @ p # qs)" by auto
  with p show ?case by auto
qed

lemma take_all_then_block:
  assumes "repr q []"
  shows "\<exists>qs q'. take_many get cap q = Some (qs, q') \<and> distinct qs \<and> length qs = cap \<and> get q' = None"
proof -
  obtain qs q' where q: "take_many get cap q = Some (qs, q')" "length qs = cap" "repr q' qs"
    using take_many_repr [OF assms, of cap] by auto
  with repr_distinct [OF q(3)] get_full [OF q(3)] show ?thesis by blast
qed

end

section \<open>The ring implements the contract\<close>

text \<open>Slot \<open>i\<close> of a ring of \<open>2 ^ k\<close> slots, and the slots handed out.\<close>

definition slot_addr :: "BufPool \<Rightarrow> nat \<Rightarrow> ptr" where
  "slot_addr q i = buf q + ucast (of_nat i * elem_size q)"

definition ring_repr :: "nat \<Rightarrow> BufPool \<Rightarrow> ptr list \<Rightarrow> bool" where
  "ring_repr k q ps \<longleftrightarrow>
     1 \<le> k \<and> k \<le> 13 \<and> elem_count q = 2 ^ k \<and> 0 < elem_size q \<and> elem_size q \<le> MAX_BUFFER_SIZE
     \<and> unat (head q) < 2 ^ k \<and> unat (tail q) < 2 ^ k \<and> length ps < 2 ^ k
     \<and> unat (head q) = (unat (tail q) + length ps) mod 2 ^ k
     \<and> ps = map (\<lambda>i. slot_addr q ((unat (tail q) + i) mod 2 ^ k)) [0..<length ps]"

lemma unat_and_count:
  "k < 32 \<Longrightarrow> unat ((x :: u32) AND (2 ^ k - 1)) = unat x mod 2 ^ k"
proof -
  have "x AND (2 ^ k - 1) = take_bit k x" by (simp add: take_bit_eq_mask mask_eq_exp_minus_1)
  then have "unat (x AND (2 ^ k - 1)) = take_bit k (unat x)" by (simp only: unsigned_take_bit_eq)
  then show ?thesis by (simp only: take_bit_eq_mod)
qed

lemma shift_sub: "b \<le> K \<Longrightarrow> K \<le> N \<Longrightarrow> a + N - b = (a + K - b) + (N - K)" for a b K N :: nat
  by arith

lemma sub_mod_nat:
  fixes a b N :: nat
  assumes "a < N" "b < N"
  shows "(if b \<le> a then a - b else a + N - b) = (a + N - b) mod N"
proof (cases "b \<le> a")
  case True
  then have e: "a + N - b = (a - b) + N" by simp
  have "(a + N - b) mod N = a - b" using assms by (simp only: e mod_add_self2) simp
  with True show ?thesis by simp
qed (use assms in simp)

lemma unat_minus_u32: "unat (x - y) = (unat x + 2 ^ 32 - unat y) mod 2 ^ 32" for x y :: u32
proof -
  have b: "unat x < 2 ^ 32" "unat y < 2 ^ 32"
    using unsigned_less [of x] unsigned_less [of y] by simp_all
  have "unat (x - y) = (if unat y \<le> unat x then unat x - unat y else unat x + 2 ^ 32 - unat y)"
    by (simp add: unat_sub_if')
  then show ?thesis by (simp only: sub_mod_nat [OF b])
qed

lemma unat_CIRC_CNT:
  assumes k: "k < 32" and t: "unat t \<le> 2 ^ k"
  shows "unat (CIRC_CNT h t (2 ^ k)) = (unat h + 2 ^ k - unat t) mod 2 ^ k"
proof -
  define M where "M = (2::nat) ^ (32 - k)"
  have N: "2 ^ 32 = 2 ^ k * M" using k by (simp only: M_def flip: power_add) simp
  have "1 \<le> M" by (simp add: M_def)
  then have le: "2 ^ k \<le> 2 ^ k * M" by simp
  have "unat (CIRC_CNT h t (2 ^ k)) = (unat h + 2 ^ k * M - unat t) mod (2 ^ k * M) mod 2 ^ k"
    by (simp only: CIRC_CNT_def unat_and_count [OF k] unat_minus_u32 N)
  also have "\<dots> = (unat h + 2 ^ k * M - unat t) mod 2 ^ k" by (simp add: mod_mod_cancel)
  also have "\<dots> = ((unat h + 2 ^ k - unat t) + (2 ^ k * M - 2 ^ k)) mod 2 ^ k"
    by (simp only: shift_sub [OF t le])
  also have "2 ^ k * M - 2 ^ k = 2 ^ k * (M - 1)" by (simp add: diff_mult_distrib2)
  finally show ?thesis by simp
qed

text \<open>Arithmetic of a ring of \<open>n\<close> slots with \<open>l\<close> slots in use from \<open>t\<close> on.\<close>

lemma ring_cnt: "t < n \<Longrightarrow> l < n \<Longrightarrow> ((t + l) mod n + n - t) mod n = l" for t l n :: nat
  by (cases "t + l < n") (simp_all add: mod_if)

lemma ring_space: "t < n \<Longrightarrow> l < n \<Longrightarrow> (t + n - Suc ((t + l) mod n)) mod n = n - Suc l" for t l n :: nat
  by (cases "t + l < n") (simp_all add: mod_if)

lemma ring_neq:
  fixes t n :: nat
  assumes "i < j" "j < n"
  shows "(t + i) mod n \<noteq> (t + j) mod n"
proof
  assume "(t + i) mod n = (t + j) mod n"
  then have "(t + j) mod n = (t + i) mod n" by simp
  then have "n dvd (t + j) - (t + i)" using assms by (subst (asm) mod_eq_dvd_iff_nat) auto
  then show False using assms by (simp add: nat_dvd_not_less)
qed

lemma ring_inj: "i < n \<Longrightarrow> j < n \<Longrightarrow> (t + i) mod n = (t + j) mod n \<Longrightarrow> i = j" for t n :: nat
  by (cases i j rule: linorder_cases) (auto dest: ring_neq [of i j n t] ring_neq [of j i n t])

lemma unat_Suc_masked:
  assumes "1 \<le> k" "k \<le> 13" "unat (h :: u32) < 2 ^ k"
  shows "unat ((h + 1) AND (2 ^ k - 1)) = Suc (unat h) mod 2 ^ k" and "unat (h + 1) = Suc (unat h)"
proof -
  have "(2::nat) ^ k \<le> 2 ^ 13" using assms(2) by (intro power_increasing) auto
  then have "unat h < 8192" using assms(3) by simp
  then show e: "unat (h + 1) = Suc (unat h)" by (simp add: unat_word_ariths)
  show "unat ((h + 1) AND (2 ^ k - 1)) = Suc (unat h) mod 2 ^ k"
    using assms(2) by (simp only: unat_and_count e)
qed

lemma ucast_u32_u64_inj: "(ucast (x :: u32) :: u64) = ucast y \<Longrightarrow> x = y"
proof -
  assume "(ucast x :: u64) = ucast y"
  then have "(ucast (ucast x :: u64) :: u32) = ucast (ucast y :: u64)" by simp
  moreover have "(ucast (ucast z :: u64) :: u32) = z" for z by (rule bit_word_eqI) (simp add: bit_simps)
  ultimately show "x = y" by simp
qed

lemma slot_addr_inj:
  assumes k: "k \<le> 13" and es: "0 < elem_size q" "elem_size q \<le> MAX_BUFFER_SIZE"
    and i: "i < 2 ^ k" and j: "j < 2 ^ k" and eq: "slot_addr q i = slot_addr q j"
  shows "i = j"
proof -
  have k13: "(2::nat) ^ k \<le> 2 ^ 13" using k by (intro power_increasing) auto
  have sz: "unat (elem_size q) \<le> 2048" "0 < unat (elem_size q)"
    using es by (simp_all add: MAX_BUFFER_SIZE_def word_le_nat_alt word_less_nat_alt)
  have u: "unat (of_nat n * elem_size q) = n * unat (elem_size q)" if "n < 2 ^ k" for n
  proof -
    have n: "n < 8192" using that k13 by simp
    then have "n * unat (elem_size q) \<le> 8192 * 2048" using sz by (intro mult_le_mono) auto
    then show ?thesis using n by (simp add: unat_word_ariths unat_of_nat_small)
  qed
  from eq have "ucast (of_nat i * elem_size q) = (ucast (of_nat j * elem_size q) :: u64)"
    by (simp add: slot_addr_def)
  then have "unat (of_nat i * elem_size q) = unat (of_nat j * elem_size q)"
    by (auto dest: ucast_u32_u64_inj)
  then show ?thesis using u [OF i] u [OF j] sz by simp
qed

lemma ring_elem_count:
  assumes "ring_repr k q ps"
  shows "unat (bufpool_elem_count q) = length ps"
    and "unat (CIRC_SPACE (head q) (tail q) (elem_count q)) = 2 ^ k - Suc (length ps)"
proof -
  from assms have r: "1 \<le> k" "k \<le> 13" "elem_count q = 2 ^ k" "unat (head q) < 2 ^ k"
    "unat (tail q) < 2 ^ k" "length ps < 2 ^ k"
    "unat (head q) = (unat (tail q) + length ps) mod 2 ^ k"
    by (simp_all add: ring_repr_def)
  then have k: "k < 32" by simp
  show "unat (bufpool_elem_count q) = length ps"
    unfolding bufpool_elem_count_def r(3)
    using unat_CIRC_CNT [OF k, of "tail q" "head q"] r ring_cnt [OF r(5,6)] by simp
  have "unat (head q + 1) \<le> 2 ^ k" using unat_Suc_masked(2) [OF r(1,2,4)] r(4) by simp
  then show "unat (CIRC_SPACE (head q) (tail q) (elem_count q)) = 2 ^ k - Suc (length ps)"
    unfolding CIRC_SPACE_def r(3)
    using unat_CIRC_CNT [OF k, of "head q + 1" "tail q"] unat_Suc_masked(2) [OF r(1,2,4)]
      r(7) ring_space [OF r(5,6)] by simp
qed

lemma sint_small: "unat (w :: u32) < 2 ^ 31 \<Longrightarrow> sint w = int (unat w)"
proof -
  assume "unat w < 2 ^ 31"
  then have "int (unat w) < 2 ^ 31" by (simp only: of_nat_less_numeral_power_cancel_iff)
  moreover have "- (2 ^ 31) \<le> int (unat w)" by (rule order_trans [of _ 0]) (simp, rule of_nat_0_le_iff)
  ultimately have "signed_take_bit 31 (int (unat w)) = int (unat w)" by (rule signed_take_bit_int_eq_self [rotated])
  then show ?thesis by (simp add: sint_uint)
qed

text \<open>
  The counts to the end are how far the used and the free buffers go on without wrapping round:
  one \<open>memcpy\<close> from \<open>tail\<close> or to \<open>head\<close> could cover that many.
\<close>

lemma ring_to_end:
  assumes "ring_repr k q ps"
  shows "CIRC_CNT_TO_END (head q) (tail q) (elem_count q) = int (min (length ps) (2 ^ k - unat (tail q)))"
    and "CIRC_SPACE_TO_END (head q) (tail q) (elem_count q) = int (min (2 ^ k - Suc (length ps)) (2 ^ k - unat (head q)))"
proof -
  from assms have r: "k \<le> 13" "elem_count q = 2 ^ k" "unat (head q) < 2 ^ k"
    "unat (tail q) < 2 ^ k" "length ps < 2 ^ k"
    "unat (head q) = (unat (tail q) + length ps) mod 2 ^ k"
    by (simp_all add: ring_repr_def)
  define K where "K = (2::nat) ^ k"
  have "(2::nat) ^ k \<le> 2 ^ 13" using r(1) by (intro power_increasing) auto
  then have K: "K \<le> 8192" by (simp add: K_def)
  have k: "k < 32" using r(1) by simp
  have u: "unat (2 ^ k :: u32) = K" using unat_of_nat_small [of K, where 'a = 32] K by (simp add: K_def)
  have w: "unat (2 ^ k - x) = K - unat x" if "unat x \<le> K" for x :: u32
    using that by (simp add: unat_sub_if' u)
  have t: "unat (tail q) < K" and h: "unat (head q) < K" using r(3,4) by (simp_all add: K_def)
  have h': "unat (2 ^ k - 1 - head q) = K - Suc (unat (head q))"
    using w [of 1] h by (simp add: unat_sub_if')
  have a: "unat ((head q + (2 ^ k - tail q)) AND (2 ^ k - 1)) = length ps"
  proof -
    have "unat (head q + (2 ^ k - tail q)) = unat (head q) + K - unat (tail q)"
      using t h K w [of "tail q"] by (simp add: unat_word_ariths)
    then show ?thesis using ring_cnt [OF r(4,5)] by (simp only: unat_and_count [OF k] r(6) K_def)
  qed
  have b: "unat ((2 ^ k - 1 - head q + tail q) AND (2 ^ k - 1)) = K - Suc (length ps)"
  proof -
    have "unat (2 ^ k - 1 - head q + tail q) = unat (tail q) + K - Suc (unat (head q))"
      using t h K h' by (simp add: unat_word_ariths)
    then show ?thesis using ring_space [OF r(4,5)] by (simp only: unat_and_count [OF k] r(6) K_def)
  qed
  have c: "unat (2 ^ k - head q) = K - unat (head q)" using w [of "head q"] h by simp
  have l: "length ps < K" using r(5) by (simp add: K_def)
  show "CIRC_CNT_TO_END (head q) (tail q) (elem_count q) = int (min (length ps) (2 ^ k - unat (tail q)))"
    using w [of "tail q"] t l K
    by (auto simp: CIRC_CNT_TO_END_def r(2) Let_def a sint_small min_def simp del: of_nat_diff simp flip: K_def)
  show "CIRC_SPACE_TO_END (head q) (tail q) (elem_count q) = int (min (2 ^ k - Suc (length ps)) (2 ^ k - unat (head q)))"
    using h' h l K by (auto simp: CIRC_SPACE_TO_END_def r(2) Let_def b c sint_small min_def simp del: of_nat_diff simp flip: K_def)
qed

lemma ring_must_wait:
  "ring_repr k q ps \<Longrightarrow> bufpool_must_wait q \<longleftrightarrow> length ps = 2 ^ k - 1"
  using ring_elem_count(2) [of k q ps]
  by (auto simp: bufpool_must_wait_def ring_repr_def word_less_nat_alt)

lemma ring_distinct: "ring_repr k q ps \<Longrightarrow> distinct ps \<and> length ps \<le> 2 ^ k - 1"
proof -
  assume r: "ring_repr k q ps"
  let ?f = "\<lambda>i. slot_addr q ((unat (tail q) + i) mod 2 ^ k)"
  have k: "k \<le> 13" "0 < elem_size q" "elem_size q \<le> MAX_BUFFER_SIZE" "length ps < 2 ^ k"
    and ps: "ps = map ?f [0..<length ps]"
    using r by (simp_all add: ring_repr_def)
  have "inj_on ?f {0..<length ps}"
    by (rule inj_onI) (use k(4) in \<open>auto dest!: slot_addr_inj [OF k(1-3), rotated 2] dest: ring_inj [rotated 2]\<close>)
  then have "distinct (map ?f [0..<length ps])" by (simp add: distinct_map)
  with ps have "distinct ps" by simp
  with k(4) show ?thesis by simp
qed

lemma ring_take:
  assumes r: "ring_repr k q ps" and space: "length ps < 2 ^ k - 1"
  shows "ring_repr k (snd (bufpool_take q)) (ps @ [fst (bufpool_take q)])"
proof -
  have r': "1 \<le> k" "k \<le> 13" "elem_count q = 2 ^ k" "unat (head q) < 2 ^ k"
    "unat (head q) = (unat (tail q) + length ps) mod 2 ^ k"
    "ps = map (\<lambda>i. slot_addr q ((unat (tail q) + i) mod 2 ^ k)) [0..<length ps]"
    using r by (simp_all add: ring_repr_def)
  have p: "fst (bufpool_take q) = slot_addr q ((unat (tail q) + length ps) mod 2 ^ k)"
    by (simp add: bufpool_take_def slot_addr_def flip: r'(5))
  have s: "slot_addr (snd (bufpool_take q)) = slot_addr q"
    by (simp add: fun_eq_iff bufpool_take_def slot_addr_def)
  have h: "unat ((head q + 1) AND (2 ^ k - 1)) = (unat (tail q) + Suc (length ps)) mod 2 ^ k"
    using unat_Suc_masked(1) [OF r'(1,2,4)] r'(5) by (simp add: mod_Suc_eq)
  have "ps @ [fst (bufpool_take q)] =
      map (\<lambda>i. slot_addr q ((unat (tail q) + i) mod 2 ^ k)) [0..<Suc (length ps)]"
    using r'(6) p by simp
  then show ?thesis
    using r space r'(3) s h by (simp add: ring_repr_def bufpool_take_def)
qed

lemma ring_put_back:
  assumes r: "ring_repr k q ps"
  shows "ring_repr k (bufpool_putBackBuffer q) (tl ps)"
proof (cases ps)
  case Nil
  then have "bufpool_putBackBuffer q = q"
    using ring_elem_count(1) [OF r]
    by (auto simp: bufpool_putBackBuffer_def bufpool_elem_count_def word_le_nat_alt)
  with r Nil show ?thesis by simp
next
  case (Cons p qs)
  have r': "1 \<le> k" "k \<le> 13" "elem_count q = 2 ^ k" "unat (tail q) < 2 ^ k"
    "unat (head q) = (unat (tail q) + length ps) mod 2 ^ k" "length ps < 2 ^ k"
    "ps = map (\<lambda>i. slot_addr q ((unat (tail q) + i) mod 2 ^ k)) [0..<length ps]"
    using r by (simp_all add: ring_repr_def)
  let ?q = "q\<lparr>tail := (tail q + 1) AND (elem_count q - 1)\<rparr>"
  have q: "bufpool_putBackBuffer q = ?q"
    using ring_elem_count(1) [OF r] Cons
    by (simp add: bufpool_putBackBuffer_def bufpool_elem_count_def word_le_nat_alt)
  have t: "unat (tail ?q) = Suc (unat (tail q)) mod 2 ^ k"
    using unat_Suc_masked(1) [OF r'(1,2,4)] r'(3) by simp
  have s: "slot_addr ?q = slot_addr q" by (simp add: fun_eq_iff slot_addr_def)
  have m: "(Suc (unat (tail q)) mod 2 ^ k + i) mod 2 ^ k = (unat (tail q) + Suc i) mod 2 ^ k" for i
    by (simp add: mod_add_left_eq)
  have "tl ps = map (\<lambda>i. slot_addr q ((unat (tail q) + Suc i) mod 2 ^ k)) [0..<length qs]"
    using r'(7) unfolding Cons length_Cons map_upt_Suc by simp
  also have "\<dots> = map (\<lambda>i. slot_addr ?q ((unat (tail ?q) + i) mod 2 ^ k)) [0..<length qs]"
    by (simp only: t s m)
  finally have tl_eq: "tl ps =
      map (\<lambda>i. slot_addr ?q ((unat (tail ?q) + i) mod 2 ^ k)) [0..<length qs]" .
  have h: "unat (head ?q) = (unat (tail ?q) + length qs) mod 2 ^ k"
    unfolding t using r'(5) Cons by (simp add: mod_add_left_eq)
  have len: "length (tl ps) = length qs" using Cons by simp
  have t': "unat (tail ?q) < 2 ^ k" unfolding t by simp
  have r'': "0 < elem_size q" "elem_size q \<le> MAX_BUFFER_SIZE" "unat (head q) < 2 ^ k" "length qs < 2 ^ k"
    using r Cons by (simp_all add: ring_repr_def)
  show ?thesis
    unfolding q ring_repr_def len
    by (intro conjI; (rule tl_eq h t')?) (use r' r'' in simp_all)
qed

interpretation ring: buffer_source "ring_repr k" "2 ^ k - 1" bufpool_getNextFreeBuffer
  bufpool_putBackBuffer for k
proof unfold_locales
  fix q ps
  assume r: "ring_repr k q ps" and "length ps < 2 ^ k - 1"
  then have r': "ring_repr k (snd (bufpool_take q)) (ps @ [fst (bufpool_take q)])"
    and w: "\<not> bufpool_must_wait q"
    by (auto simp: ring_take ring_must_wait)
  from ring_distinct [OF r'] have "fst (bufpool_take q) \<notin> set ps" by simp
  with r' w show "\<exists>p q'. bufpool_getNextFreeBuffer q = Some (p, q') \<and> p \<notin> set ps
      \<and> ring_repr k q' (ps @ [p])"
    by (cases "bufpool_take q") (auto simp: bufpool_getNextFreeBuffer_def)
qed (auto dest: ring_distinct simp: ring_put_back bufpool_getNextFreeBuffer_def ring_must_wait)

section \<open>Properties of the pool\<close>

lemma create_bufpool_ring:
  assumes "create_bufpool (2 ^ k) sz q0 nm mem block = Inr (Some q, 0)" "1 \<le> k" "k < 32" "0 < sz"
  shows "ring_repr k q []" and "elem_size q = sz" and "buf q = block"
proof -
  have c: "q0 = None" "sz \<le> MAX_BUFFER_SIZE" "(2::u32) ^ k \<le> MAX_BUFFER_COUNT" "elem_count q = 2 ^ k"
    "elem_size q = sz" "head q = 0" "tail q = 0" "buf q = block"
    using assms(1) by (auto simp: create_bufpool_def not_less split: if_splits option.splits)
  have "unat (of_nat (2 ^ k) :: u32) = 2 ^ k"
    by (rule unat_of_nat_small) (simp only: len_num1 len_bit0 mult_1_right one_less_numeral_iff semiring_norm assms(3) power_strict_increasing_iff)
  then have "unat ((2::u32) ^ k) = 2 ^ k" by simp
  with c(3) have "(2::nat) ^ k \<le> 2 ^ 13" by (simp add: word_le_nat_alt MAX_BUFFER_COUNT_def)
  then have "k \<le> 13" by (subst (asm) power_increasing_iff) auto
  with c assms show "ring_repr k q []" "elem_size q = sz" "buf q = block"
    by (simp_all add: ring_repr_def)
qed

text \<open>
  A pool created with a power-of-two element count hands out one
  buffer less than it has, all at different addresses, and then makes the caller wait.
\<close>

theorem bufpool_hands_out_all:
  assumes "create_bufpool (2 ^ k) sz None nm mem block = Inr (Some q, 0)"
    and "1 \<le> k" "k < 32" "0 < sz"
  shows "\<exists>ps q'. take_many bufpool_getNextFreeBuffer (2 ^ k - 1) q = Some (ps, q')
     \<and> distinct ps \<and> length ps = 2 ^ k - 1 \<and> bufpool_getNextFreeBuffer q' = None"
  by (rule ring.take_all_then_block) (rule create_bufpool_ring [OF assms])

theorem bufpool_hands_out_all_witness:
  "\<exists>ps q'. take_many bufpool_getNextFreeBuffer (2 ^ 6 - 1)
       \<lparr>bp_name = ''IOT'', buf = 4096, head = 0, tail = 0, elem_size = 99, elem_count = 64\<rparr> = Some (ps, q')
     \<and> distinct ps \<and> length ps = 2 ^ 6 - 1 \<and> bufpool_getNextFreeBuffer q' = None"
  by (rule bufpool_hands_out_all [where nm = "''IOT''" and block = 4096 and sz = 99 and
        mem = "Some \<lparr>bp_name = [], buf = 1, head = 2, tail = 3, elem_size = 4, elem_count = 5\<rparr>"])
    (simp_all add: create_bufpool_def MAX_BUFFER_SIZE_def MAX_BUFFER_COUNT_def BUFFERPOOL_NAME_LEN_def)

text \<open>
  C17: On every state of a ring with \<open>ps\<close> handed out the operations act as
  a bounded queue: the count is exact, a caller waits exactly when all but one buffer are out,
  otherwise gets a buffer that is not out, and a buffer put back is the oldest one.
\<close>

theorem bufpool_ring_refines:
  assumes "ring_repr k q ps"
  shows "unat (bufpool_elem_count q) = length ps
    \<and> (bufpool_getNextFreeBuffer q = None \<longleftrightarrow> length ps = 2 ^ k - 1)
    \<and> (\<forall>p q'. bufpool_getNextFreeBuffer q = Some (p, q') \<longrightarrow> p \<notin> set ps \<and> ring_repr k q' (ps @ [p]))
    \<and> ring_repr k (bufpool_putBackBuffer q) (tl ps)"
proof -
  have le: "length ps \<le> 2 ^ k - 1" using ring.repr_distinct [OF assms] ..
  have full: "bufpool_getNextFreeBuffer q = None \<longleftrightarrow> length ps = 2 ^ k - 1"
    using ring.get_full [OF assms] ring.get_free [OF assms] le by (cases "length ps = 2 ^ k - 1") auto
  have "p \<notin> set ps \<and> ring_repr k q' (ps @ [p])" if "bufpool_getNextFreeBuffer q = Some (p, q')" for p q'
    using that full le ring.get_free [OF assms] by (cases "length ps = 2 ^ k - 1") auto
  with full show ?thesis
    using ring_elem_count(1) [OF assms] ring.put_back_oldest [OF assms] by blast
qed

theorem bufpool_ring_refines_witness:
  "unat (bufpool_elem_count \<lparr>bp_name = [], buf = 8, head = 1, tail = 0, elem_size = 4, elem_count = 4\<rparr>) = 1
    \<and> (\<exists>p q'. bufpool_getNextFreeBuffer \<lparr>bp_name = [], buf = 8, head = 1, tail = 0, elem_size = 4, elem_count = 4\<rparr>
          = Some (p, q') \<and> p \<notin> set [8] \<and> ring_repr 2 q' [8, p])
    \<and> ring_repr 2 (bufpool_putBackBuffer \<lparr>bp_name = [], buf = 8, head = 1, tail = 0, elem_size = 4, elem_count = 4\<rparr>) []"
proof -
  let ?q = "\<lparr>bp_name = [], buf = 8, head = 1, tail = 0, elem_size = 4, elem_count = 4\<rparr>"
  have "ring_repr 2 ?q [8]" by (simp add: ring_repr_def slot_addr_def MAX_BUFFER_SIZE_def)
  from bufpool_ring_refines [OF this] show ?thesis
    by (cases "bufpool_getNextFreeBuffer ?q") auto
qed

text \<open>
  C18: \<open>pthread_cond_wait\<close> stands under an \<open>if\<close>, so a thread woken while
  the pool is still full goes on to take a buffer.  The pool then counts zero buffers in use, and
  the next caller is given the oldest buffer although it is still out.
\<close>

theorem bufpool_wakeup_overrun:
  assumes "ring_repr k q ps" "bufpool_must_wait q"
  shows "bufpool_elem_count (snd (bufpool_take q)) = 0
    \<and> (\<exists>q'. bufpool_getNextFreeBuffer (snd (bufpool_take q)) = Some (hd ps, q')) \<and> hd ps \<in> set ps"
proof -
  have full: "length ps = 2 ^ k - 1" using assms by (simp add: ring_must_wait)
  have r: "1 \<le> k" "k \<le> 13" "elem_count q = 2 ^ k" "unat (head q) < 2 ^ k" "unat (tail q) < 2 ^ k"
    "unat (head q) = (unat (tail q) + length ps) mod 2 ^ k"
    "ps = map (\<lambda>i. slot_addr q ((unat (tail q) + i) mod 2 ^ k)) [0..<length ps]"
    using assms by (simp_all add: ring_repr_def)
  have "(2::nat) ^ 1 \<le> 2 ^ k" using r(1) by (intro power_increasing) auto
  then have len: "Suc (length ps) = 2 ^ k" "0 < length ps" using full by simp_all
  have "unat ((head q + 1) AND (2 ^ k - 1)) = (unat (tail q) + Suc (length ps)) mod 2 ^ k"
    using unat_Suc_masked(1) [OF r(1,2,4)] r(6) by (simp add: mod_Suc_eq)
  then have hd: "(head q + 1) AND (2 ^ k - 1) = tail q"
    unfolding len(1) using r(5) by (simp add: word_unat_eq_iff)
  define q1 where "q1 = snd (bufpool_take q)"
  have q1: "head q1 = tail q" "tail q1 = tail q" "elem_count q1 = 2 ^ k" "slot_addr q1 = slot_addr q"
    using hd r(3) by (simp_all add: q1_def bufpool_take_def fun_eq_iff slot_addr_def)
  have "ring_repr k q1 []" using assms(1) q1 by (simp add: ring_repr_def q1_def bufpool_take_def)
  then have cnt: "unat (bufpool_elem_count q1) = 0" and nw: "\<not> bufpool_must_wait q1"
    using ring_elem_count(1) [of k q1 "[]"] ring_must_wait [of k q1 "[]"] len by simp_all
  have "hd ps = slot_addr q (unat (tail q))"
    using r(5) len(2) by (subst r(7)) (simp add: hd_map upt_conv_Cons)
  also have "\<dots> = fst (bufpool_take q1)"
    by (simp add: bufpool_take_def slot_addr_def flip: q1(1,4))
  finally have "bufpool_getNextFreeBuffer q1 = Some (hd ps, snd (bufpool_take q1))"
    using nw by (simp add: bufpool_getNextFreeBuffer_def)
  moreover have "hd ps \<in> set ps" using len(2) by simp
  ultimately show ?thesis using cnt unfolding q1_def [symmetric] by (simp add: unat_eq_0)
qed

theorem bufpool_wakeup_overrun_witness:
  "bufpool_elem_count (snd (bufpool_take \<lparr>bp_name = [], buf = 8, head = 1, tail = 0, elem_size = 4, elem_count = 2\<rparr>)) = 0
    \<and> (\<exists>q'. bufpool_getNextFreeBuffer
         (snd (bufpool_take \<lparr>bp_name = [], buf = 8, head = 1, tail = 0, elem_size = 4, elem_count = 2\<rparr>))
         = Some (hd [8 :: ptr], q')) \<and> hd [8 :: ptr] \<in> set [8]"
  by (rule bufpool_wakeup_overrun [where k = 1])
    (simp_all add: ring_repr_def slot_addr_def MAX_BUFFER_SIZE_def bufpool_must_wait_def CIRC_SPACE_def CIRC_CNT_def)

end
