(* ===== verification/Queue_Spec.thy ===== *)
theory Queue_Spec
  imports Prelude
begin

text \<open>
  The contract of a first-in first-out queue of buffer pointers, as the rest of the service
  relies on it.  The byte pipe of \<open>src/hs_fifo.c\<close> and the linked list of sent fragments of
  \<open>src/r_udp.c\<close> both provide it; the simulation of any sequence of operations by the
  operations on plain lists is proved once, here.
\<close>

datatype 'a qop = Push 'a | Pop

text \<open>The specification: a queue is a list, \<open>Pop\<close> answers its head.\<close>

fun spec_run :: "'a qop list \<Rightarrow> 'a list \<Rightarrow> ('a list \<times> 'a list) option" where
  "spec_run [] xs = Some ([], xs)"
| "spec_run (Push x # ops) xs = spec_run ops (xs @ [x])"
| "spec_run (Pop # ops) [] = None"
| "spec_run (Pop # ops) (x # xs) =
     (case spec_run ops xs of None \<Rightarrow> None | Some (out, ys) \<Rightarrow> Some (x # out, ys))"

text \<open>Running the operations of an implementation; \<open>None\<close> when one of them blocks.\<close>

fun impl_run :: "('a \<Rightarrow> 'q \<Rightarrow> 'q option) \<Rightarrow> ('q \<Rightarrow> ('a \<times> 'q) option) \<Rightarrow> 'a qop list \<Rightarrow> 'q
    \<Rightarrow> ('a list \<times> 'q) option" where
  "impl_run push pop [] q = Some ([], q)"
| "impl_run push pop (Push x # ops) q =
     (case push x q of None \<Rightarrow> None | Some q' \<Rightarrow> impl_run push pop ops q')"
| "impl_run push pop (Pop # ops) q =
     (case pop q of None \<Rightarrow> None | Some (x, q') \<Rightarrow>
       (case impl_run push pop ops q' of None \<Rightarrow> None | Some (out, q'') \<Rightarrow> Some (x # out, q'')))"

lemma spec_run_push_all: "spec_run (map Push xs @ ops) ys = spec_run ops (ys @ xs)"
  by (induction xs arbitrary: ys) auto

lemma spec_run_pop_all: "spec_run (replicate (length xs) Pop) (xs @ ys) = Some (xs, ys)"
  by (induction xs) auto

text \<open>Every push of the sequence meets the precondition of a push.\<close>

fun pushes_ok :: "('a list \<Rightarrow> 'a \<Rightarrow> bool) \<Rightarrow> 'a qop list \<Rightarrow> 'a list \<Rightarrow> bool" where
  "pushes_ok ok [] xs = True"
| "pushes_ok ok (Push x # ops) xs = (ok xs x \<and> pushes_ok ok ops (xs @ [x]))"
| "pushes_ok ok (Pop # ops) xs = pushes_ok ok ops (tl xs)"

locale queue =
  fixes repr :: "'q \<Rightarrow> 'a list \<Rightarrow> bool"
    and ok :: "'a list \<Rightarrow> 'a \<Rightarrow> bool"
    and push :: "'a \<Rightarrow> 'q \<Rightarrow> 'q option"
    and pop :: "'q \<Rightarrow> ('a \<times> 'q) option"
  assumes repr_unique: "repr q xs \<Longrightarrow> repr q ys \<Longrightarrow> xs = ys"
    and push_ok: "repr q xs \<Longrightarrow> ok xs x \<Longrightarrow> \<exists>q'. push x q = Some q' \<and> repr q' (xs @ [x])"
    and pop_Nil: "repr q [] \<Longrightarrow> pop q = None"
    and pop_Cons: "repr q (x # xs) \<Longrightarrow> \<exists>q'. pop q = Some (x, q') \<and> repr q' xs"
begin

lemma pop_SomeD:
  assumes "repr q xs" "pop q = Some (x, q')"
  shows "xs \<noteq> [] \<and> x = hd xs \<and> repr q' (tl xs)"
proof (cases xs)
  case Nil
  with assms pop_Nil show ?thesis by fastforce
next
  case (Cons y ys)
  with assms pop_Cons [of q y ys] show ?thesis by auto
qed

lemma run_simulates:
  assumes "repr q xs" "pushes_ok ok ops xs" "spec_run ops xs = Some (out, ys)"
  shows "\<exists>q'. impl_run push pop ops q = Some (out, q') \<and> repr q' ys"
  using assms
proof (induction ops xs arbitrary: q out rule: spec_run.induct)
  case (1 xs)
  then show ?case by simp
next
  case (2 x ops xs)
  then obtain q' where "push x q = Some q'" "repr q' (xs @ [x])"
    using push_ok [of q xs x] by auto
  with 2 show ?case by auto
next
  case (3 ops)
  then show ?case by simp
next
  case (4 ops x xs)
  then obtain q' where q': "pop q = Some (x, q')" "repr q' xs"
    using pop_Cons [of q x xs] by auto
  from 4 obtain out' where "spec_run ops xs = Some (out', ys)" "out = x # out'"
    by (auto split: option.splits)
  with 4 q' show ?case by fastforce
qed

text \<open>Pushing \<open>xs\<close> and popping as often gives \<open>xs\<close> back in order.\<close>

lemma fifo_order:
  assumes "repr q []" "pushes_ok ok (map Push xs @ replicate (length xs) Pop) []"
  shows "\<exists>q'. impl_run push pop (map Push xs @ replicate (length xs) Pop) q = Some (xs, q') \<and> repr q' []"
  using run_simulates [OF assms, of xs "[]"] spec_run_push_all [of xs "replicate (length xs) Pop" "[]"]
    spec_run_pop_all [of xs "[]"] by simp

end

end
