(* ===== verification/Fifo.thy ===== *)
theory Fifo
  imports Queue_Spec
begin

text \<open>
  \<open>src/hs_fifo.c\<close>: a queue of pointers carried by a POSIX pipe.  The pipe is modelled as the
  bytes it holds and its capacity, so the partial read after a flush and the blocking of a
  full or an empty pipe are visible.  A call that would block is \<open>None\<close>.
\<close>

definition sizeof_ptr :: nat where "sizeof_ptr = 8"

record fifo_descriptor =
  numBufs :: u32
  waitSize :: u32
  flushing :: bool
  pipe :: "byte list"
  pipe_size :: nat

section \<open>The pipe of the operating system\<close>

text \<open>\<open>read(2)\<close> and \<open>write(2)\<close> on a pipe with both ends open: \<open>read\<close> blocks when the pipe is
  empty and may return fewer bytes than asked; a \<open>write\<close> of at most \<open>PIPE_BUF\<close> bytes blocks
  until it can store all of them.\<close>

definition pipe_read :: "fifo_descriptor \<Rightarrow> nat \<Rightarrow> (byte list \<times> fifo_descriptor) option" where
  "pipe_read f n =
     (if pipe f = [] then None else Some (take n (pipe f), f\<lparr>pipe := drop n (pipe f)\<rparr>))"

definition pipe_write :: "fifo_descriptor \<Rightarrow> byte list \<Rightarrow> (nat \<times> fifo_descriptor) option" where
  "pipe_write f bs =
     (if length (pipe f) + length bs \<le> pipe_size f
      then Some (length bs, f\<lparr>pipe := pipe f @ bs\<rparr>) else None)"

section \<open>Operations\<close>

text \<open>\<open>calloc\<close> and \<open>pipe(2)\<close> may fail; a new pipe of capacity \<open>sz\<close> is empty.\<close>

definition Fifo_create :: "bool \<Rightarrow> bool \<Rightarrow> nat \<Rightarrow> fifo_descriptor option" where
  "Fifo_create calloc_ok pipe_ok sz =
     (if \<not> calloc_ok then None
      else if \<not> pipe_ok then None
      else Some \<lparr> numBufs = 0, waitSize = 0, flushing = False, pipe = [], pipe_size = sz \<rparr>)"

text \<open>The results of the two \<open>close\<close> calls decide the result; a \<open>NULL\<close> handle is accepted.\<close>

definition Fifo_delete :: "fifo_descriptor option \<Rightarrow> int \<Rightarrow> int \<Rightarrow> int" where
  "Fifo_delete hFifo close0 close1 =
     (case hFifo of None \<Rightarrow> 0
      | Some f \<Rightarrow> (let ret = (if close0 \<noteq> 0 then -1 else 0) in if close1 \<noteq> 0 then -1 else ret))"

text \<open>
  \<open>Fifo_get\<close> after its first check of the flush flag, from the blocking \<open>read\<close> on.  The bytes
  read land in the caller's pointer variable, whose old value is the second argument.
\<close>

definition Fifo_get_read :: "fifo_descriptor \<Rightarrow> ptr \<Rightarrow> (fifo_descriptor \<times> int \<times> ptr) option" where
  "Fifo_get_read f p =
     (case pipe_read f sizeof_ptr of
        None \<Rightarrow> None
      | Some (bs, f1) \<Rightarrow>
          (let p' = of_nat (le_nat (mem_write (le_bytes 8 (unat p)) 0 bs)) in
           if length bs \<noteq> sizeof_ptr
           then Some (if flushing f1 then f1\<lparr>flushing := False\<rparr> else f1, -1, p')
           else Some (f1\<lparr>numBufs := numBufs f1 - 1\<rparr>, 0, p')))"

definition Fifo_get :: "fifo_descriptor \<Rightarrow> ptr \<Rightarrow> (fifo_descriptor \<times> int \<times> ptr) option" where
  "Fifo_get f p = (if flushing f then Some (f, -1, p) else Fifo_get_read f p)"

definition Fifo_flush :: "fifo_descriptor \<Rightarrow> (fifo_descriptor \<times> int) option" where
  "Fifo_flush f =
     (case pipe_write (f\<lparr>flushing := True\<rparr>) [0xff] of
        None \<Rightarrow> None
      | Some (n, f') \<Rightarrow> Some (f', if n \<noteq> 1 then -1 else 0))"

definition Fifo_put :: "fifo_descriptor \<Rightarrow> ptr \<Rightarrow> (fifo_descriptor \<times> int) option" where
  "Fifo_put f p =
     (case pipe_write (f\<lparr>numBufs := numBufs f + 1\<rparr>) (le_bytes 8 (unat p)) of
        None \<Rightarrow> None
      | Some (n, f') \<Rightarrow> Some (f', if n \<noteq> sizeof_ptr then -1 else 0))"

definition Fifo_getNumEntries :: "fifo_descriptor \<Rightarrow> u32" where
  "Fifo_getNumEntries f = numBufs f"

text \<open>\<open>res\<close> is what \<open>fcntl(F_SETPIPE_SZ)\<close> returns: the new capacity or a negative error.\<close>

definition set_fifo_size :: "fifo_descriptor \<Rightarrow> u64 \<Rightarrow> int \<Rightarrow> fifo_descriptor \<times> int" where
  "set_fifo_size f sz res =
     (if sz \<le> 0 then (f, -1)
      else (if 0 \<le> res then f\<lparr>pipe_size := nat res\<rparr> else f, res))"

text \<open>\<open>wbs\<close> is what \<open>fcntl(F_GETPIPE_SZ)\<close> returns; \<open>size\<close> is stored in an \<open>int\<close>.\<close>

definition set_fifo_wait_size :: "fifo_descriptor \<Rightarrow> u64 \<Rightarrow> int \<Rightarrow> fifo_descriptor \<times> int" where
  "set_fifo_wait_size f sz wbs =
     (if sz \<le> 0 then (f, -1)
      else if wbs < 0 then (f, wbs)
      else if wbs < int (unat sz) then (f, -1)
      else (f\<lparr>waitSize := ucast sz\<rparr>, 0))"

text \<open>
  \<open>get_fifo_avail\<close> of \<open>src/mitigation.c\<close> on the results of \<open>open\<close>, \<open>fstat\<close> and \<open>ioctl\<close>; the number
  of free entries of the device is what the \<open>ioctl\<close> stores.
\<close>

definition get_fifo_avail :: "int \<Rightarrow> int \<Rightarrow> int \<Rightarrow> nat \<Rightarrow> int \<times> nat option" where
  "get_fifo_avail fd fstat_res ioctl_res n =
     (if fd < 0 then (-1, None)
      else if fstat_res \<noteq> 0 then (fstat_res, None)
      else (ioctl_res, if ioctl_res < 0 then None else Some n))"

section \<open>The queue a pipe represents\<close>

fun ptrs_bytes :: "ptr list \<Rightarrow> byte list" where
  "ptrs_bytes [] = []"
| "ptrs_bytes (p # ps) = le_bytes 8 (unat p) @ ptrs_bytes ps"

definition fifo_repr :: "nat \<Rightarrow> fifo_descriptor \<Rightarrow> ptr list \<Rightarrow> bool" where
  "fifo_repr cap f ps \<longleftrightarrow>
     \<not> flushing f \<and> pipe f = ptrs_bytes ps \<and> numBufs f = of_nat (length ps)
     \<and> pipe_size f = 8 * cap"

lemma length_ptrs_bytes [bytes_simps]: "length (ptrs_bytes ps) = 8 * length ps"
  by (induction ps) auto

lemma ptrs_bytes_append: "ptrs_bytes (ps @ qs) = ptrs_bytes ps @ ptrs_bytes qs"
  by (induction ps) auto

lemma of_nat_le_nat_ptr: "of_nat (le_nat (le_bytes 8 (unat p))) = (p :: ptr)"
  by (rule of_nat_le_nat_le_bytes) simp

lemma ptrs_bytes_inj: "ptrs_bytes ps = ptrs_bytes qs \<Longrightarrow> ps = qs"
proof (induction ps arbitrary: qs)
  case Nil
  then show ?case by (cases qs) (auto dest: arg_cong [where f = length])
next
  case (Cons p ps)
  then obtain q qs' where qs: "qs = q # qs'"
    by (cases qs) (auto dest: arg_cong [where f = length])
  with Cons have "le_bytes 8 (unat p) = le_bytes 8 (unat q)" "ptrs_bytes ps = ptrs_bytes qs'"
    by (auto simp: append_eq_append_conv)
  with Cons qs show ?case by (metis of_nat_le_nat_ptr)
qed

lemma Fifo_put_repr:
  assumes "fifo_repr cap f ps" "length ps < cap"
  shows "\<exists>f'. Fifo_put f p = Some (f', 0) \<and> fifo_repr cap f' (ps @ [p])"
  using assms
  by (auto simp: fifo_repr_def Fifo_put_def pipe_write_def sizeof_ptr_def bytes_simps ptrs_bytes_append)

lemma Fifo_put_full:
  assumes "fifo_repr cap f ps" "cap \<le> length ps"
  shows "Fifo_put f p = None"
  using assms by (auto simp: fifo_repr_def Fifo_put_def pipe_write_def bytes_simps)

lemma Fifo_get_repr:
  assumes "fifo_repr cap f (p # ps)"
  shows "\<exists>f'. Fifo_get f old = Some (f', 0, p) \<and> fifo_repr cap f' ps"
  using assms
  by (auto simp: fifo_repr_def Fifo_get_def Fifo_get_read_def pipe_read_def sizeof_ptr_def
      bytes_simps mem_write_0 of_nat_le_nat_ptr Let_def)

lemma Fifo_get_empty:
  assumes "fifo_repr cap f []"
  shows "Fifo_get f old = None"
  using assms by (auto simp: fifo_repr_def Fifo_get_def Fifo_get_read_def pipe_read_def)

lemma fifo_repr_unique: "fifo_repr cap f ps \<Longrightarrow> fifo_repr cap f qs \<Longrightarrow> ps = qs"
  by (auto simp: fifo_repr_def dest: ptrs_bytes_inj)

lemma Fifo_create_repr:
  "Fifo_create True True (8 * cap) = Some f \<Longrightarrow> fifo_repr cap f []"
  by (auto simp: Fifo_create_def fifo_repr_def)

text \<open>The pipe meets the queue contract: \<open>cap\<close> is its capacity in pointers.\<close>

definition fifo_push :: "ptr \<Rightarrow> fifo_descriptor \<Rightarrow> fifo_descriptor option" where
  "fifo_push p f = (case Fifo_put f p of Some (f', r) \<Rightarrow> if r = 0 then Some f' else None | None \<Rightarrow> None)"

definition fifo_pop :: "fifo_descriptor \<Rightarrow> (ptr \<times> fifo_descriptor) option" where
  "fifo_pop f = (case Fifo_get f NULL of
     Some (f', r, p) \<Rightarrow> if r = 0 then Some (p, f') else None | None \<Rightarrow> None)"

interpretation fq: queue "fifo_repr cap" "\<lambda>ps p. length ps < cap" fifo_push fifo_pop for cap
proof unfold_locales
  fix q xs x
  assume "fifo_repr cap q xs" "length xs < cap"
  then show "\<exists>q'. fifo_push x q = Some q' \<and> fifo_repr cap q' (xs @ [x])"
    using Fifo_put_repr [of cap q xs x] by (auto simp: fifo_push_def)
next
  fix q x xs
  assume "fifo_repr cap q (x # xs)"
  then show "\<exists>q'. fifo_pop q = Some (x, q') \<and> fifo_repr cap q' xs"
    using Fifo_get_repr [of cap q x xs NULL] by (auto simp: fifo_pop_def)
qed (auto simp: fifo_pop_def Fifo_get_empty dest: fifo_repr_unique)


section \<open>Properties of the queue\<close>

text \<open>
  C10: The byte pipe behaves as the mathematical queue of pointers under every
  sequence of puts and gets that keeps within its capacity, in answers, contents and count.
\<close>

theorem Fifo_simulates_queue:
  assumes "fifo_repr cap f ps" "pushes_ok (\<lambda>ps p. length ps < cap) ops ps"
    and "spec_run ops ps = Some (out, ps')"
  shows "\<exists>f'. impl_run fifo_push fifo_pop ops f = Some (out, f') \<and> fifo_repr cap f' ps'
    \<and> Fifo_getNumEntries f' = of_nat (length ps')"
  using fq.run_simulates [OF assms] by (auto simp: Fifo_getNumEntries_def fifo_repr_def)

theorem Fifo_simulates_queue_witness:
  "\<exists>f'. impl_run fifo_push fifo_pop [Push 17, Push 4, Pop, Push 9, Pop]
      \<lparr> numBufs = 0, waitSize = 0, flushing = False, pipe = [], pipe_size = 16 \<rparr> = Some ([17, 4], f')
    \<and> fifo_repr 2 f' [9] \<and> Fifo_getNumEntries f' = of_nat (length [9 :: ptr])"
  by (rule Fifo_simulates_queue [where ps = "[]"]) (simp_all add: fifo_repr_def)

lemma le_nat_write_low_byte:
  "x < 2 ^ 64 \<Longrightarrow> le_nat (mem_write (le_bytes 8 x) 0 [b]) = 256 * (x div 256) + unat b"
proof -
  assume x: "x < 2 ^ 64"
  have "le_bytes 8 x = of_nat x # le_bytes 7 (x div 256)"
    using le_bytes.simps(2) [of 7 x] by (simp del: le_bytes.simps)
  moreover have "x div 256 < 256 ^ 7" using x by simp
  ultimately show ?thesis by (simp add: mem_write_def le_nat_le_bytes)
qed

lemma low_byte_bound: "x < 2 ^ 64 \<Longrightarrow> 256 * (x div 256) + 255 < (2::nat) ^ 64"
proof -
  assume "x < 2 ^ 64"
  then have "x div 256 < 2 ^ 56" by simp
  then show ?thesis by simp
qed

text \<open>
  A reader blocked on an empty queue when it is flushed returns an
  error, the queue is empty and usable again, and the low byte of the reader's pointer
  variable has been overwritten with \<open>0xff\<close>.
\<close>

theorem Fifo_flush_wakes_reader:
  assumes "fifo_repr cap f []" "0 < cap"
  shows "\<exists>f1 f2 p'. Fifo_get f p = None \<and> Fifo_flush f = Some (f1, 0)
     \<and> Fifo_get_read f1 p = Some (f2, -1, p') \<and> fifo_repr cap f2 []
     \<and> unat p' = 256 * (unat p div 256) + 255"
proof -
  let ?f1 = "f\<lparr>flushing := True, pipe := [0xff]\<rparr>" and ?f2 = "f\<lparr>pipe := []\<rparr>"
  let ?x = "256 * (unat p div 256) + 255" and ?p = "of_nat (256 * (unat p div 256) + 255) :: ptr"
  have p: "unat p < 2 ^ 64" using unsigned_less [of p] by simp
  have f: "pipe f = []" "\<not> flushing f" "pipe_size f = 8 * cap"
    using assms by (simp_all add: fifo_repr_def)
  have "Fifo_get f p = None" by (rule Fifo_get_empty [OF assms(1)])
  moreover have "Fifo_flush f = Some (?f1, 0)"
    using f assms(2) by (simp add: Fifo_flush_def pipe_write_def)
  moreover have "Fifo_get_read ?f1 p = Some (?f2, -1, ?p)"
    using f p by (simp add: Fifo_get_read_def pipe_read_def sizeof_ptr_def Let_def le_nat_write_low_byte)
  moreover have "fifo_repr cap ?f2 []" using assms by (simp add: fifo_repr_def)
  moreover have "unat ?p = ?x" 
    by (rule unat_of_nat_small) (use low_byte_bound [OF p] in simp)
  ultimately show ?thesis by blast
qed

theorem Fifo_flush_wakes_reader_witness:
  "\<exists>f1 f2 p'. Fifo_get \<lparr> numBufs = 0, waitSize = 0, flushing = False, pipe = [], pipe_size = 8 \<rparr> 4660 = None
     \<and> Fifo_flush \<lparr> numBufs = 0, waitSize = 0, flushing = False, pipe = [], pipe_size = 8 \<rparr> = Some (f1, 0)
     \<and> Fifo_get_read f1 4660 = Some (f2, -1, p') \<and> fifo_repr 1 f2 []
     \<and> unat p' = 256 * (unat (4660 :: ptr) div 256) + 255"
  by (rule Fifo_flush_wakes_reader) (simp_all add: fifo_repr_def)

text \<open>Operations of the other threads on a queue.\<close>

datatype fifo_op = OpGet ptr | OpPut ptr

text \<open>The results of a sequence of operations; those that block are skipped.\<close>

fun fifo_ops :: "fifo_op list \<Rightarrow> fifo_descriptor \<Rightarrow> int list \<times> fifo_descriptor" where
  "fifo_ops [] f = ([], f)"
| "fifo_ops (OpGet p # ops) f =
     (case Fifo_get f p of None \<Rightarrow> fifo_ops ops f
      | Some (f', r, _) \<Rightarrow> (let (rs, f'') = fifo_ops ops f' in (r # rs, f'')))"
| "fifo_ops (OpPut p # ops) f =
     (case Fifo_put f p of None \<Rightarrow> fifo_ops ops f
      | Some (f', _) \<Rightarrow> fifo_ops ops f')"

lemma Fifo_put_flushing: "Fifo_put f p = Some (f', r) \<Longrightarrow> flushing f' = flushing f"
  by (auto simp: Fifo_put_def pipe_write_def split: if_splits)

lemma fifo_ops_flushing:
  "flushing f \<Longrightarrow> fst (fifo_ops ops f) = replicate (length (filter (\<lambda>x. \<exists>p. x = OpGet p) ops)) (- 1)"
proof (induction ops arbitrary: f)
  case Nil
  then show ?case by simp
next
  case (Cons x ops)
  then show ?case
    by (cases x)
      (auto simp: Fifo_get_def Let_def split: option.splits prod.splits dest: Fifo_put_flushing,
       metis Cons.IH Fifo_put_flushing fst_conv)
qed

text \<open>
  When no reader is blocked at the time of a flush, every later \<open>Fifo_get\<close>
  fails, whatever is put into the queue: nothing but a blocked reader clears the flag.
\<close>

theorem Fifo_flush_is_sticky:
  assumes "Fifo_flush f = Some (f1, r)"
  shows "fst (fifo_ops ops f1) = replicate (length (filter (\<lambda>x. \<exists>p. x = OpGet p) ops)) (- 1)"
proof (rule fifo_ops_flushing)
  show "flushing f1" using assms by (auto simp: Fifo_flush_def pipe_write_def split: if_splits)
qed

theorem Fifo_flush_is_sticky_witness:
  "fst (fifo_ops [OpPut 7, OpGet 0, OpGet 0]
     \<lparr> numBufs = 1, waitSize = 0, flushing = True, pipe = [1, 0, 0, 0, 0, 0, 0, 0, 0xff], pipe_size = 64 \<rparr>)
   = replicate (length (filter (\<lambda>x. \<exists>p. x = OpGet p) [OpPut 7, OpGet 0, OpGet 0])) (- 1)"
  by (rule Fifo_flush_is_sticky [where r = 0 and
        f = "\<lparr> numBufs = 1, waitSize = 0, flushing = False, pipe = [1, 0, 0, 0, 0, 0, 0, 0], pipe_size = 64 \<rparr>"])
    (simp add: Fifo_flush_def pipe_write_def)

end
