(* ===== verification/History.thy ===== *)
theory History
  imports Fifo Reassembly
begin

text \<open>
  \<open>src/r_udp.c\<close>: the linked list of sent fragments.  The list runs through the \<open>next\<close> fields
  of the buffers themselves, so the model has a store of buffers and the two global pointers;
  the abstraction is the list of buffer addresses.
\<close>

definition R_UDP_TIMEOUT_s :: u64 where "R_UDP_TIMEOUT_s = 40"

record hist =
  store :: "ptr \<Rightarrow> Msg_Buf"
  ListHead :: ptr
  ListTail :: ptr

record Fifo_Cluster =
  IotThrInFifo :: fifo_descriptor
  IotThrOutFifo :: fifo_descriptor
  fusionThrInFifo :: fifo_descriptor
  fusionThrOutFifo :: fifo_descriptor
  rUdpThrInFifo :: fifo_descriptor

definition store_upd :: "ptr \<Rightarrow> (Msg_Buf \<Rightarrow> Msg_Buf) \<Rightarrow> 'z hist_scheme \<Rightarrow> 'z hist_scheme" where
  "store_upd p f s = s\<lparr>store := (store s)(p := f (store s p))\<rparr>"

section \<open>Operations\<close>

text \<open>The search loop; \<open>None\<close> when it does not end, \<open>NULL\<close> when it finds nothing.\<close>

partial_function (option) hist_search :: "(ptr \<Rightarrow> Msg_Buf) \<Rightarrow> ptr \<Rightarrow> u8 \<Rightarrow> u8 \<Rightarrow> ptr option" where
  "hist_search st n fragLost seqNum =
     (if n = NULL then Some NULL
      else if ucast (h_frgmntIdx (msgHeader (st n))) = fragLost
              \<and> ucast (h_seqNum (msgHeader (st n))) = seqNum
      then Some n
      else hist_search st (m_next (st n)) fragLost seqNum)"

text \<open>The found buffer lingers one second more; this happens after the mutex is released.\<close>

definition hist_linger :: "ptr \<Rightarrow> 'z hist_scheme \<Rightarrow> 'z hist_scheme" where
  "hist_linger p = store_upd p (\<lambda>m. m\<lparr>m_time := (m_time m)\<lparr>tv_sec := tv_sec (m_time m) + 1\<rparr>\<rparr>)"

definition hist_find_frag :: "u8 \<Rightarrow> u8 \<Rightarrow> 'z hist_scheme \<Rightarrow> (ptr \<times> 'z hist_scheme) option" where
  "hist_find_frag fragLost seqNum s =
     (case hist_search (store s) (ListHead s) fragLost seqNum of
        None \<Rightarrow> None
      | Some n \<Rightarrow> Some (n, if n = NULL then s else hist_linger n s))"

definition hist_unlink :: "'z hist_scheme \<Rightarrow> (ptr \<times> 'z hist_scheme) option" where
  "hist_unlink s =
     (if ListHead s = NULL then None
      else (let h = ListHead s; s1 = s\<lparr>ListHead := m_next (store s h)\<rparr>
            in Some (h, if ListHead s1 = NULL then s1\<lparr>ListTail := NULL\<rparr> else s1)))"

text \<open>\<open>None\<close> when the free queue is full and \<open>Fifo_put\<close> blocks.\<close>

definition hist_pop_frag :: "Fifo_Cluster \<Rightarrow> 'z hist_scheme
    \<Rightarrow> (c_error + (Fifo_Cluster \<times> 'z hist_scheme)) option" where
  "hist_pop_frag cl s =
     (case hist_unlink s of
        None \<Rightarrow> Some (Inl NullDeref)
      | Some (h, s') \<Rightarrow>
          (case Fifo_put (IotThrInFifo cl) h of
             None \<Rightarrow> None
           | Some (f, _) \<Rightarrow> Some (Inr (cl\<lparr>IotThrInFifo := f\<rparr>, s'))))"

definition hist_push_frag :: "timeval \<Rightarrow> ptr \<Rightarrow> 'z hist_scheme \<Rightarrow> 'z hist_scheme" where
  "hist_push_frag tm p s =
     (let s1 = store_upd p (\<lambda>m. m\<lparr>m_time := tm\<lparr>tv_sec := tv_sec tm + R_UDP_TIMEOUT_s\<rparr>\<rparr>) s;
          s2 = (if ListHead s1 = NULL then s1\<lparr>ListHead := p\<rparr>
                else store_upd (ListTail s1) (\<lambda>m. m\<lparr>m_next := p\<rparr>) s1);
          s3 = s2\<lparr>ListTail := p\<rparr>
      in store_upd p (\<lambda>m. m\<lparr>m_next := NULL\<rparr>) s3)"

definition hist_peek_timed_head :: "timeval \<Rightarrow> 'z hist_scheme \<Rightarrow> ptr" where
  "hist_peek_timed_head tm s =
     (if ListHead s = NULL then NULL
      else if tv_sec (m_time (store s (ListHead s))) <=s tv_sec tm then ListHead s else NULL)"

text \<open>\<open>clock k\<close> is what \<open>gettimeofday\<close> answers in the \<open>k\<close>-th round of the loop.\<close>

partial_function (option) free_history :: "(nat \<Rightarrow> timeval) \<Rightarrow> nat \<Rightarrow> Fifo_Cluster \<Rightarrow> 'z hist_scheme
    \<Rightarrow> (c_error + (Fifo_Cluster \<times> 'z hist_scheme)) option" where
  "free_history clock k cl s =
     (if hist_peek_timed_head (clock k) s \<noteq> NULL
      then (case hist_pop_frag cl s of
              None \<Rightarrow> None
            | Some r \<Rightarrow> (case r of Inl e \<Rightarrow> Some (Inl e)
                                 | Inr x \<Rightarrow> free_history clock (Suc k) (fst x) (snd x)))
      else Some (Inr (cl, s)))"

text \<open>
  \<open>handle_lost_request\<close>: the lookup and, when the fragment is still there, the reply on the
  socket towards Fusion (\<open>sockTx\<close>, unset until \<open>r_udp_routine\<close> runs).
\<close>

definition send_reply :: "bool \<Rightarrow> ptr \<Rightarrow> 'z hist_scheme \<Rightarrow> c_error + (byte list \<times> 'z hist_scheme)" where
  "send_reply sockTx p s =
     (let s1 = store_upd p (\<lambda>m. m\<lparr>msgHeader := (msgHeader m)\<lparr>h_msgCode := MSG_CODE_REPLY_FRAG\<rparr>\<rparr>) s;
          pkt = store s1 p
      in if \<not> sockTx then Inl NullDeref
         else (case sendto (Msg_Buf_bytes pkt) (unat (m_msgLen pkt) + sizeof_Msg_Header) of
                 Inl e \<Rightarrow> Inl e | Inr d \<Rightarrow> Inr (d, s1)))"

definition handle_lost_request :: "rUdpFragmntReq \<Rightarrow> bool \<Rightarrow> 'z hist_scheme
    \<Rightarrow> (c_error + (byte list list \<times> 'z hist_scheme)) option" where
  "handle_lost_request req sockTx s =
     (case hist_find_frag (q_fragmntLost req) (q_seqNum req) s of
        None \<Rightarrow> None
      | Some (pkt, s') \<Rightarrow>
          if pkt \<noteq> NULL
          then (case send_reply sockTx pkt s' of
                  Inl e \<Rightarrow> Some (Inl e) | Inr (d, s'') \<Rightarrow> Some (Inr ([d], s'')))
          else Some (Inr ([], s')))"

text \<open>Freeing touches the two ends of the list and the free queue only.\<close>

lemma hist_pop_frag_frame:
  "hist_pop_frag cl s = Some (Inr (cl', s')) \<Longrightarrow> store s' = store s \<and> hist.more s' = hist.more s
     \<and> cl' = cl\<lparr>IotThrInFifo := IotThrInFifo cl'\<rparr>"
  by (auto simp: hist_pop_frag_def hist_unlink_def Let_def split: if_splits option.splits)

lemma free_history_frame:
  assumes "free_history clock k cl s = Some r"
  shows "\<forall>cl' s'. r = Inr (cl', s') \<longrightarrow> store s' = store s \<and> hist.more s' = hist.more s \<and> cl' = cl\<lparr>IotThrInFifo := IotThrInFifo cl'\<rparr>"
proof (rule free_history.raw_induct [where P = "\<lambda>clock k cl s r. \<forall>cl' s'. r = Inr (cl', s') \<longrightarrow>
    store s' = store s \<and> hist.more s' = hist.more s \<and> cl' = cl\<lparr>IotThrInFifo := IotThrInFifo cl'\<rparr>", OF _ assms], goal_cases)
  case (1 f clock k cl s r)
  note IH = 1(1) and r = 1(2)
  show ?case
  proof (cases "hist_peek_timed_head (clock k) s \<noteq> NULL \<and> (\<exists>x. hist_pop_frag cl s = Some (Inr x))")
    case True
    then obtain cl1 s1 where x: "hist_pop_frag cl s = Some (Inr (cl1, s1))" by auto
    then have "f clock (Suc k) cl1 s1 = Some r" using r True by simp
    from IH [OF this] hist_pop_frag_frame [OF x] show ?thesis by (metis Fifo_Cluster.surjective Fifo_Cluster.update_convs(1))
  next
    case False
    then show ?thesis using r by (auto split: if_splits option.splits sum.splits)
  qed
qed

section \<open>The list a state represents\<close>

fun path :: "(ptr \<Rightarrow> Msg_Buf) \<Rightarrow> ptr \<Rightarrow> ptr list \<Rightarrow> bool" where
  "path st p [] \<longleftrightarrow> p = NULL"
| "path st p (x # xs) \<longleftrightarrow> p = x \<and> x \<noteq> NULL \<and> path st (m_next (st x)) xs"

definition hist_repr :: "'z hist_scheme \<Rightarrow> ptr list \<Rightarrow> bool" where
  "hist_repr s xs \<longleftrightarrow> path (store s) (ListHead s) xs \<and> distinct xs
     \<and> ListTail s = (if xs = [] then NULL else last xs)"

lemma path_unique: "path st p xs \<Longrightarrow> path st p ys \<Longrightarrow> xs = ys"
proof (induction xs arbitrary: p ys)
  case Nil
  then show ?case by (cases ys) auto
next
  case (Cons x xs)
  then show ?case by (cases ys) auto
qed

lemma path_notNULL: "path st p xs \<Longrightarrow> NULL \<notin> set xs"
  by (induction xs arbitrary: p) auto

lemma path_cong: "(\<And>x. x \<in> set xs \<Longrightarrow> m_next (st x) = m_next (st' x)) \<Longrightarrow> path st p xs = path st' p xs"
  by (induction xs arbitrary: p) auto

lemma path_snoc:
  assumes "path st h xs" "xs \<noteq> []" "distinct xs" "p \<noteq> NULL" "p \<notin> set xs"
    and "m_next (st' (last xs)) = p" "m_next (st' p) = NULL"
    and "\<And>x. x \<in> set (butlast xs) \<Longrightarrow> m_next (st' x) = m_next (st x)"
  shows "path st' h (xs @ [p])"
  using assms
proof (induction xs arbitrary: h)
  case Nil
  then show ?case by simp
next
  case (Cons x xs)
  then show ?case by (cases xs) auto
qed

lemma hist_repr_store_upd:
  "(\<And>m. m_next (f m) = m_next m) \<Longrightarrow> hist_repr (store_upd p f s) xs = hist_repr s xs"
  using path_cong [of xs "store (store_upd p f s)" "store s" "ListHead s"]
  by (simp add: hist_repr_def store_upd_def)

lemma hist_linger_repr: "hist_repr (hist_linger p s) xs = hist_repr s xs"
  unfolding hist_linger_def by (rule hist_repr_store_upd) simp

lemma store_hist_linger: "store (hist_linger p s) =
    (store s)(p := (store s p)\<lparr>m_time := (m_time (store s p))\<lparr>tv_sec := tv_sec (m_time (store s p)) + 1\<rparr>\<rparr>)"
  by (simp add: hist_linger_def store_upd_def)

lemma hist_push_repr:
  assumes "hist_repr s xs" "p \<noteq> NULL" "p \<notin> set xs"
  shows "hist_repr (hist_push_frag tm p s) (xs @ [p])"
proof (cases xs)
  case Nil
  with assms show ?thesis
    by (simp add: hist_repr_def hist_push_frag_def store_upd_def Let_def)
next
  case (Cons y ys)
  have s: "path (store s) (ListHead s) xs" "distinct xs" "ListTail s = last xs" "xs \<noteq> []"
    using assms Cons by (simp_all add: hist_repr_def)
  have h: "ListHead s \<noteq> NULL" using s(1) Cons by simp
  have lp: "last xs \<noteq> p" using assms(3) s(4) by auto
  have nb: "x \<noteq> last xs" "x \<noteq> p" if "x \<in> set (butlast xs)" for x
    using that s(2,4) assms(3) by (auto simp: in_set_butlastD) (metis append_butlast_last_id distinct_snocD)
  let ?s = "hist_push_frag tm p s"
  have "path (store ?s) (ListHead s) (xs @ [p])"
    by (rule path_snoc [OF s(1,4,2) assms(2,3)])
      (use h lp nb s(3) in \<open>auto simp: hist_push_frag_def store_upd_def Let_def\<close>)
  with assms(3) s(2) h show ?thesis
    by (simp add: hist_repr_def hist_push_frag_def store_upd_def Let_def)
qed

lemma hist_unlink_repr:
  assumes "hist_repr s (x # xs)"
  shows "\<exists>s'. hist_unlink s = Some (x, s') \<and> hist_repr s' xs \<and> store s' = store s \<and> hist.more s' = hist.more s
    \<and> ListHead s = x \<and> x \<noteq> NULL"
  using assms by (cases xs) (auto simp: hist_repr_def hist_unlink_def Let_def)

text \<open>The history is a queue of buffers not in it already.\<close>

interpretation hq: queue hist_repr "\<lambda>ps p. p \<noteq> NULL \<and> p \<notin> set ps"
  "\<lambda>p s. Some (hist_push_frag tm p s)" hist_unlink for tm
proof unfold_locales
  fix q :: "'a hist_scheme" and x xs
  assume "hist_repr q (x # xs)"
  then show "\<exists>q'. hist_unlink q = Some (x, q') \<and> hist_repr q' xs"
    using hist_unlink_repr by blast
qed (simp_all add: hist_push_repr, auto simp: hist_repr_def hist_unlink_def dest: path_unique)

section \<open>Search and expiry\<close>

definition is_frag :: "u8 \<Rightarrow> u8 \<Rightarrow> Msg_Buf \<Rightarrow> bool" where
  "is_frag fragLost seqNum m \<longleftrightarrow> ucast (h_frgmntIdx (msgHeader m)) = fragLost
     \<and> ucast (h_seqNum (msgHeader m)) = seqNum"

lemma hist_search_path:
  "path st p xs \<Longrightarrow> hist_search st p fl sq =
     Some (case List.find (\<lambda>x. is_frag fl sq (st x)) xs of None \<Rightarrow> NULL | Some x \<Rightarrow> x)"
proof (induction xs arbitrary: p)
  case Nil
  then show ?case by (simp add: hist_search.simps)
next
  case (Cons x xs)
  then show ?case by (subst hist_search.simps) (auto simp: is_frag_def)
qed

definition expired :: "timeval \<Rightarrow> Msg_Buf \<Rightarrow> bool" where
  "expired tm m \<longleftrightarrow> tv_sec (m_time m) <=s tv_sec tm"

text \<open>The buffers that one run of the loop gives back.\<close>

fun released :: "(nat \<Rightarrow> timeval) \<Rightarrow> nat \<Rightarrow> (ptr \<Rightarrow> Msg_Buf) \<Rightarrow> ptr list \<Rightarrow> ptr list" where
  "released clock k st [] = []"
| "released clock k st (x # xs) =
     (if expired (clock k) (st x) then x # released clock (Suc k) st xs else [])"

lemma released_const: "released (\<lambda>_. tm) k st xs = takeWhile (\<lambda>x. expired tm (st x)) xs"
  by (induction xs arbitrary: k) auto

lemma free_history_repr:
  assumes "hist_repr s xs" "fifo_repr cap (IotThrInFifo cl) fs" "length fs + length xs \<le> cap"
  shows "\<exists>f s'. free_history clock k cl s = Some (Inr (cl\<lparr>IotThrInFifo := f\<rparr>, s'))
    \<and> fifo_repr cap f (fs @ released clock k (store s) xs)
    \<and> hist_repr s' (drop (length (released clock k (store s) xs)) xs) \<and> store s' = store s
    \<and> hist.more s' = hist.more s"
  using assms
proof (induction xs arbitrary: s cl fs k)
  case Nil
  then have "ListHead s = NULL" by (simp add: hist_repr_def)
  then show ?case
    using Nil by (subst free_history.simps)
      (auto simp: hist_peek_timed_head_def intro!: exI [of _ "IotThrInFifo cl"])
next
  case (Cons x xs)
  from hist_unlink_repr [OF Cons.prems(1)] obtain s1 where
    s1: "hist_unlink s = Some (x, s1)" "hist_repr s1 xs" "store s1 = store s" "ListHead s = x" "x \<noteq> NULL"
      "hist.more s1 = hist.more s" by blast
  have peek: "hist_peek_timed_head (clock k) s = (if expired (clock k) (store s x) then x else NULL)"
    using s1(4,5) by (simp add: hist_peek_timed_head_def expired_def)
  show ?case
  proof (cases "expired (clock k) (store s x)")
    case False
    with peek Cons.prems show ?thesis
      by (subst free_history.simps) (auto intro!: exI [of _ "IotThrInFifo cl"])
  next
    case True
    from Fifo_put_repr [OF Cons.prems(2), of x] Cons.prems(3) obtain f where
      f: "Fifo_put (IotThrInFifo cl) x = Some (f, 0)" "fifo_repr cap f (fs @ [x])" by auto
    have "fifo_repr cap (IotThrInFifo (cl\<lparr>IotThrInFifo := f\<rparr>)) (fs @ [x])"
      "length (fs @ [x]) + length xs \<le> cap" using f(2) Cons.prems(3) by simp_all
    from Cons.IH [OF s1(2) this, of "Suc k"] True peek s1 f(1) show ?thesis
      by (subst free_history.simps) (simp add: hist_pop_frag_def)
  qed
qed

section \<open>Properties of the history\<close>

text \<open>Three buffers in the list, sent at different times; a cluster with empty queues.\<close>

definition hist_example :: hist where
  "hist_example = \<lparr> store = (\<lambda>_. zero_Msg_Buf)
       (100 := zero_Msg_Buf\<lparr>m_time := \<lparr> tv_sec = 41, tv_usec = 0 \<rparr>, m_next := 200\<rparr>,
        200 := zero_Msg_Buf\<lparr>m_time := \<lparr> tv_sec = 50, tv_usec = 0 \<rparr>, m_next := 300\<rparr>,
        300 := zero_Msg_Buf\<lparr>m_time := \<lparr> tv_sec = 43, tv_usec = 0 \<rparr>, m_next := NULL\<rparr>),
     ListHead = 100, ListTail = 300 \<rparr>"

definition cluster_example :: Fifo_Cluster where
  "cluster_example =
     (let f = \<lparr> numBufs = 0, waitSize = 0, flushing = False, pipe = [], pipe_size = 65536 \<rparr>
      in \<lparr> IotThrInFifo = f, IotThrOutFifo = f, fusionThrInFifo = f, fusionThrOutFifo = f, rUdpThrInFifo = f \<rparr>)"

lemma hist_example_repr: "hist_repr hist_example [100, 200, 300]"
  by (simp add: hist_repr_def hist_example_def)

text \<open>
  C11: The walk over the history ends; it moves exactly the expired
  buffers at the front of the list, in order, to the free queue, and leaves the others in the
  list.  In particular an unexpired head keeps everything behind it.
\<close>

theorem free_history_releases_expired:
  assumes "hist_repr s xs" "fifo_repr cap (IotThrInFifo cl) fs" "length fs + length xs \<le> cap"
  shows "\<exists>f s'. free_history (\<lambda>_. tm) 0 cl s = Some (Inr (cl\<lparr>IotThrInFifo := f\<rparr>, s'))
    \<and> fifo_repr cap f (fs @ takeWhile (\<lambda>x. expired tm (store s x)) xs)
    \<and> hist_repr s' (dropWhile (\<lambda>x. expired tm (store s x)) xs) \<and> store s' = store s"
  using free_history_repr [OF assms, of "\<lambda>_. tm" 0]
  by (simp add: released_const dropWhile_eq_drop) blast

theorem free_history_releases_expired_witness:
  "\<exists>f s'. free_history (\<lambda>_. \<lparr> tv_sec = 45, tv_usec = 0 \<rparr>) 0 cluster_example hist_example
       = Some (Inr (cluster_example\<lparr>IotThrInFifo := f\<rparr>, s'))
    \<and> fifo_repr 8192 f ([] @ takeWhile (\<lambda>x. expired \<lparr> tv_sec = 45, tv_usec = 0 \<rparr> (store hist_example x)) [100, 200, 300])
    \<and> hist_repr s' (dropWhile (\<lambda>x. expired \<lparr> tv_sec = 45, tv_usec = 0 \<rparr> (store hist_example x)) [100, 200, 300])
    \<and> store s' = store hist_example"
  by (rule free_history_releases_expired [OF hist_example_repr])
    (simp_all add: fifo_repr_def cluster_example_def Let_def)

text \<open>
  The search for a lost fragment ends; it finds the oldest buffer with
  that index and sequence number, adds one second to its lifetime and leaves the list as it is.
\<close>

theorem hist_find_frag_first:
  assumes "hist_repr s xs"
  shows "\<exists>p s'. hist_find_frag fragLost seqNum s = Some (p, s') \<and> hist_repr s' xs
    \<and> (case List.find (\<lambda>x. is_frag fragLost seqNum (store s x)) xs of
          None \<Rightarrow> p = NULL \<and> s' = s
        | Some x \<Rightarrow> p = x \<and> tv_sec (m_time (store s' x)) = tv_sec (m_time (store s x)) + 1
            \<and> (\<forall>y. y \<noteq> x \<longrightarrow> store s' y = store s y))"
proof -
  have "hist_search (store s) (ListHead s) fragLost seqNum =
      Some (case List.find (\<lambda>x. is_frag fragLost seqNum (store s x)) xs of None \<Rightarrow> NULL | Some x \<Rightarrow> x)"
    using assms by (intro hist_search_path) (simp add: hist_repr_def)
  moreover have "x \<noteq> NULL" if "List.find (\<lambda>x. is_frag fragLost seqNum (store s x)) xs = Some x" for x
    using that assms path_notNULL by (auto simp: hist_repr_def dest!: find_Some_mem)
  ultimately show ?thesis
    using assms by (auto simp: hist_find_frag_def hist_linger_repr store_hist_linger split: option.splits)
qed

theorem hist_find_frag_first_witness:
  "\<exists>p s'. hist_find_frag 0 0 hist_example = Some (p, s') \<and> hist_repr s' [100, 200, 300]
    \<and> (case List.find (\<lambda>x. is_frag 0 0 (store hist_example x)) [100, 200, 300] of
          None \<Rightarrow> p = NULL \<and> s' = hist_example
        | Some x \<Rightarrow> p = x \<and> tv_sec (m_time (store s' x)) = tv_sec (m_time (store hist_example x)) + 1
            \<and> (\<forall>y. y \<noteq> x \<longrightarrow> store s' y = store hist_example y))"
  by (rule hist_find_frag_first) (rule hist_example_repr)

end
