(* ===== verification/Sensor_Stats.thy ===== *)
theory Sensor_Stats
  imports Prelude
begin

text \<open>
  \<open>src/sensor_stats.c\<close>: the packet counters, three C \<open>int\<close>s that wrap at 32 bits.
\<close>

record sensor_stats =
  pkts_sent :: u32
  pkts_recv :: u32
  pkts_err :: u32

definition zero_stats :: sensor_stats where
  "zero_stats = \<lparr> pkts_sent = 0, pkts_recv = 0, pkts_err = 0 \<rparr>"

section \<open>Operations\<close>

definition update_stats_pkts_recv :: "u32 \<Rightarrow> sensor_stats \<Rightarrow> sensor_stats" where
  "update_stats_pkts_recv pkts st = st\<lparr>pkts_sent := pkts_sent st + pkts\<rparr>"

definition update_stats_pkts_sent :: "u32 \<Rightarrow> sensor_stats \<Rightarrow> sensor_stats" where
  "update_stats_pkts_sent pkts st = st\<lparr>pkts_recv := pkts_recv st + pkts\<rparr>"

definition update_stats_pkts_err :: "u32 \<Rightarrow> sensor_stats \<Rightarrow> u32 \<times> sensor_stats" where
  "update_stats_pkts_err pkts st =
     (let last = pkts_err st; st' = st\<lparr>pkts_err := pkts_err st + pkts\<rparr> in (pkts_err st' - last, st'))"

definition get_sensor_stats :: "sensor_stats \<Rightarrow> sensor_stats" where
  "get_sensor_stats st = st"

section \<open>Histories of calls\<close>

datatype stats_call = CallRecv u32 | CallSent u32 | CallErr u32

fun count_call :: "stats_call \<Rightarrow> sensor_stats \<Rightarrow> sensor_stats" where
  "count_call (CallRecv n) st = update_stats_pkts_recv n st"
| "count_call (CallSent n) st = update_stats_pkts_sent n st"
| "count_call (CallErr n) st = snd (update_stats_pkts_err n st)"

text \<open>The totals of the arguments of the calls of each kind.\<close>

fun total_recv :: "stats_call list \<Rightarrow> u32" where
  "total_recv [] = 0"
| "total_recv (c # cs) = (case c of CallRecv n \<Rightarrow> n | _ \<Rightarrow> 0) + total_recv cs"

fun total_sent :: "stats_call list \<Rightarrow> u32" where
  "total_sent [] = 0"
| "total_sent (c # cs) = (case c of CallSent n \<Rightarrow> n | _ \<Rightarrow> 0) + total_sent cs"

fun total_err :: "stats_call list \<Rightarrow> u32" where
  "total_err [] = 0"
| "total_err (c # cs) = (case c of CallErr n \<Rightarrow> n | _ \<Rightarrow> 0) + total_err cs"

lemmas stats_simps = update_stats_pkts_recv_def update_stats_pkts_sent_def update_stats_pkts_err_def
  get_sensor_stats_def Let_def

text \<open>
  After any calls, the counter the code names \<open>pkts_sent\<close> holds the
  total of the packets reported as received, and \<open>pkts_recv\<close> the total of those reported as
  sent, modulo \<open>2 ^ 32\<close>; the error counter is right.
\<close>

theorem stats_counters_swapped:
  "get_sensor_stats (fold count_call cs st) =
     \<lparr> pkts_sent = pkts_sent st + total_recv cs, pkts_recv = pkts_recv st + total_sent cs,
       pkts_err = pkts_err st + total_err cs \<rparr>"
proof (induction cs arbitrary: st)
  case (Cons c cs)
  then show ?case by (cases c) (simp_all add: stats_simps)
qed (simp add: stats_simps)

end
