(* ===== verification/C_Text.thy ===== *)
theory C_Text
  imports Prelude
begin

text \<open>
  What the program uses of the C library to read and print text: \<open>fgets\<close>, \<open>strtok\<close>, \<open>strtoul\<close>
  and decimal output, on strings.  They are shared by the parameter file, the configuration of
  the log and the tags of the flash configuration.
\<close>

section \<open>Lines and tokens\<close>

abbreviation nl :: char where "nl \<equiv> CHR 0x0A"
abbreviation cr :: char where "cr \<equiv> CHR 0x0D"
abbreviation nul :: char where "nul \<equiv> CHR 0x00"

text \<open>
  \<open>fgets\<close> with a buffer of \<open>n\<close> bytes: the line read, what is left, and whether the end of the
  file was hit while reading.
\<close>

definition fgets :: "nat \<Rightarrow> string \<Rightarrow> (string \<times> string \<times> bool) option" where
  "fgets n xs =
     (if xs = [] then None
      else (let pre = take (n - 1) xs; l = takeWhile (\<lambda>c. c \<noteq> nl) pre in
            if length l < length pre then Some (l @ [nl], drop (Suc (length l)) xs, False)
            else Some (pre, drop (n - 1) xs, length pre < n - 1)))"

text \<open>\<open>strtok\<close> with the delimiter \<open>:\<close>, and the rest it continues with.\<close>

definition strtok :: "string \<Rightarrow> (string \<times> string) option" where
  "strtok s =
     (let t = dropWhile (\<lambda>c. c = CHR '':'') s in
      if t = [] then None
      else Some (takeWhile (\<lambda>c. c \<noteq> CHR '':'') t, drop 1 (dropWhile (\<lambda>c. c \<noteq> CHR '':'') t)))"

definition digit_val :: "char \<Rightarrow> nat" where
  "digit_val c = of_char c - 48"

definition is_digit :: "char \<Rightarrow> bool" where
  "is_digit c \<longleftrightarrow> 48 \<le> (of_char c :: nat) \<and> (of_char c :: nat) \<le> 57"

definition is_space :: "char \<Rightarrow> bool" where
  "is_space c \<longleftrightarrow> c = CHR '' '' \<or> 9 \<le> (of_char c :: nat) \<and> (of_char c :: nat) \<le> 13"

definition digits_val :: "string \<Rightarrow> nat" where
  "digits_val ds = foldl (\<lambda>n c. 10 * n + digit_val c) 0 ds"

text \<open>\<open>strtoul(s, NULL, 10)\<close>: white space, an optional sign, digits; it saturates at \<open>ULONG_MAX\<close>.\<close>

definition strtoul :: "string \<Rightarrow> u64" where
  "strtoul s =
     (let t = dropWhile is_space s;
          neg = (t \<noteq> [] \<and> hd t = CHR ''-'');
          u = (if t \<noteq> [] \<and> (hd t = CHR ''-'' \<or> hd t = CHR ''+'') then tl t else t);
          v = digits_val (takeWhile is_digit u)
      in if 2 ^ 64 \<le> v then - 1 else if neg then - of_nat v else of_nat v)"

lemma fgets_shorter: "fgets n xs = Some (l, rest, eof) \<Longrightarrow> 1 < n \<Longrightarrow> length rest < length xs"
  by (cases xs) (auto simp: fgets_def Let_def split: if_splits)

lemma fgets_line:
  assumes "\<forall>c \<in> set l. c \<noteq> nl" "length l < n - 1"
  shows "fgets n (l @ nl # xs) = Some (l @ [nl], xs, False)"
    and "l \<noteq> [] \<Longrightarrow> fgets n l = Some (l, [], True)"
proof -
  have t: "take (n - 1) (l @ nl # xs) = l @ nl # take (n - 1 - length l - 1) xs"
    using assms(2) by (simp add: take_Cons')
  have "takeWhile (\<lambda>c. c \<noteq> nl) (l @ nl # ys) = l" for ys using assms(1) by (simp add: takeWhile_append2)
  then show "fgets n (l @ nl # xs) = Some (l @ [nl], xs, False)" unfolding fgets_def Let_def t by simp
  have "takeWhile (\<lambda>c. c \<noteq> nl) l = l" using assms(1) by simp
  moreover have "take (n - 1) l = l" "drop (n - 1) l = []" using assms(2) by simp_all
  ultimately show "l \<noteq> [] \<Longrightarrow> fgets n l = Some (l, [], True)"
    unfolding fgets_def Let_def using assms(2) by (simp del: takeWhile_eq_all_conv One_nat_def)
qed

section \<open>Decimal numbers\<close>

fun decimal :: "nat \<Rightarrow> string" where
  "decimal n = (if n < 10 then [char_of (48 + n)] else decimal (n div 10) @ [char_of (48 + n mod 10)])"

declare decimal.simps [simp del]

lemma digit_char:
  assumes "n < (10 :: nat)"
  shows "is_digit (char_of (48 + n))" "digit_val (char_of (48 + n)) = n"
    "\<not> is_space (char_of (48 + n))" "char_of (48 + n) \<noteq> CHR ''-''" "char_of (48 + n) \<noteq> CHR ''+''"
proof -
  have v: "(of_char (char_of (48 + n) :: char) :: nat) = 48 + n" using assms by simp
  show "is_digit (char_of (48 + n))" "digit_val (char_of (48 + n)) = n"
    using assms by (simp_all only: is_digit_def digit_val_def v) simp_all
  have ne: "char_of (48 + n) \<noteq> d" if "(of_char d :: nat) < 48" for d :: char
    using that v by (metis not_add_less1)
  show "char_of (48 + n) \<noteq> CHR ''-''" "char_of (48 + n) \<noteq> CHR ''+''" by (rule ne, simp)+
  show "\<not> is_space (char_of (48 + n))" unfolding is_space_def v using ne [of "CHR '' ''"] by simp
qed

lemma decimal_chars: "decimal n \<noteq> []" "\<forall>c \<in> set (decimal n). \<exists>d < 10. c = char_of (48 + d :: nat)"
proof -
  show "decimal n \<noteq> []" by (subst decimal.simps) simp
  show "\<forall>c \<in> set (decimal n). \<exists>d < 10. c = char_of (48 + d :: nat)"
  proof (induction n rule: decimal.induct)
    case (1 n)
    then show ?case by (subst decimal.simps) (auto intro: exI [of _ "n mod 10"])
  qed
qed

lemma digits_val_decimal: "digits_val (decimal n) = n"
proof (induction n rule: decimal.induct)
  case (1 n)
  show ?case
  proof (cases "n < 10")
    case True then show ?thesis by (subst decimal.simps) (simp add: digits_val_def digit_char(2))
  next
    case False
    then have "digits_val (decimal (n div 10)) = n div 10" using 1 by simp
    then show ?thesis using False
      by (subst decimal.simps) (simp add: digits_val_def digit_char(2))
  qed
qed

lemma strtoul_decimal: assumes "n < 2 ^ 64" shows "strtoul (decimal n) = of_nat n"
proof -
  have hd: "\<exists>d < 10. hd (decimal n) = char_of (48 + d :: nat)"
    using decimal_chars(2) [of n] decimal_chars(1) [of n] hd_in_set by blast
  then obtain d where d: "d < 10" "hd (decimal n) = char_of (48 + d :: nat)" by blast
  have "\<not> is_space (hd (decimal n))" unfolding d(2) by (rule digit_char(3) [OF d(1)])
  then have sp: "dropWhile is_space (decimal n) = decimal n"
    using decimal_chars(1) [of n] by (cases "decimal n") simp_all
  have all: "\<forall>c \<in> set (decimal n). is_digit c" using decimal_chars(2) [of n] by (metis digit_char(1))
  have tw: "takeWhile is_digit (decimal n) = decimal n" using all by simp
  have sg: "(hd (decimal n) = CHR ''-'') = False" "(hd (decimal n) = CHR ''+'') = False"
    unfolding d(2) using digit_char(4,5) [OF d(1)] by blast+
  have "\<not> 2 ^ 64 \<le> n" using assms by simp
  then show ?thesis unfolding strtoul_def Let_def sp sg simp_thms if_False tw digits_val_decimal by (simp only: if_False)
qed

section \<open>Hexadecimal numbers and the calls of the log\<close>

definition hex_digit :: "nat \<Rightarrow> char" where
  "hex_digit d = (if d < 10 then char_of (48 + d) else char_of (87 + d))"

fun hex :: "nat \<Rightarrow> string" where
  "hex n = (if n < 16 then [hex_digit n] else hex (n div 16) @ [hex_digit (n mod 16)])"

declare hex.simps [simp del]

text \<open>\<open>%d\<close> of a 32-bit value.\<close>

definition fmt_d :: "u32 \<Rightarrow> string" where
  "fmt_d w = (if sint w < 0 then CHR ''-'' # decimal (nat (- sint w)) else decimal (nat (sint w)))"

text \<open>
  What a function hands to the log: the macro it uses and the text after its arguments have been
  put in, without the place in the source that some of the macros prepend; or what it prints.
\<close>

datatype log_call = Log_info string | Log_debug string | Log_error string | Printed string

end
