(* ===== verification/Service_Check.thy ===== *)
theory Service_Check
  imports Sensor_Stats Hs_Udp C_Text
begin

text \<open>
  \<open>src/service_check.c\<close>: the control socket of the terminal application.  A control message is
  packed: a 32-bit opcode and 1000 bytes shared by the statistics and a character buffer.
\<close>

definition TERM_APP_SERVICE_DISABLE :: u32 where "TERM_APP_SERVICE_DISABLE = 0x010"
definition TERM_APP_SERVICE_ENABLE :: u32 where "TERM_APP_SERVICE_ENABLE = 0x011"
definition TERM_APP_SERVICE_STATS :: u32 where "TERM_APP_SERVICE_STATS = 0x18"
definition TERM_APP_OK :: u32 where "TERM_APP_OK = 0x00"
definition TERM_APP_ERROR :: u32 where "TERM_APP_ERROR = 0xFF"

definition TERM_APP_HS_UDP_SRV_TX_PORT :: u16 where "TERM_APP_HS_UDP_SRV_TX_PORT = 13011"
definition TERM_APP_HS_UDP_SRV_RX_PORT :: u16 where "TERM_APP_HS_UDP_SRV_RX_PORT = 13012"

lemmas opcodes = TERM_APP_SERVICE_DISABLE_def TERM_APP_SERVICE_ENABLE_def TERM_APP_SERVICE_STATS_def
  TERM_APP_OK_def

record term_app_control_msg =
  opcode :: u32
  u_buf :: "byte list"

definition sizeof_control_msg :: nat where "sizeof_control_msg = 1004"

definition control_msg_bytes :: "term_app_control_msg \<Rightarrow> byte list" where
  "control_msg_bytes m = le_bytes 4 (unat (opcode m)) @ u_buf m"

definition control_msg_of_bytes :: "byte list \<Rightarrow> term_app_control_msg" where
  "control_msg_of_bytes bs = \<lparr> opcode = of_nat (le_nat (take 4 bs)), u_buf = drop 4 bs \<rparr>"

definition stats_bytes :: "sensor_stats \<Rightarrow> byte list" where
  "stats_bytes st = le_bytes 4 (unat (pkts_sent st)) @ le_bytes 4 (unat (pkts_recv st)) @ le_bytes 4 (unat (pkts_err st))"

definition stats_of_bytes :: "byte list \<Rightarrow> sensor_stats" where
  "stats_of_bytes bs = \<lparr> pkts_sent = of_nat (le_nat (take 4 bs)), pkts_recv = of_nat (le_nat (take 4 (drop 4 bs))),
     pkts_err = of_nat (le_nat (take 4 (drop 8 bs))) \<rparr>"

text \<open>The global \<open>service_disabled\<close> and the counters the messages read.\<close>

record control_state =
  service_disabled :: bool
  stats :: sensor_stats

section \<open>Operations\<close>

text \<open>
  \<open>term_udp_send\<close> makes a socket for each reply and sends to a fixed port of this machine, whoever
  asked; \<open>accepted\<close> is whether the system made the socket and took the datagram.
\<close>

definition term_udp_send :: "bool \<Rightarrow> byte list \<Rightarrow> nat \<Rightarrow> (sockaddr_in \<times> byte list) list \<times> int" where
  "term_udp_send accepted msg n =
     (let tx_addr = \<lparr> sin_family = AF_INET, sin_port = htons TERM_APP_HS_UDP_SRV_RX_PORT, s_addr = INADDR_ANY \<rparr> in
      if accepted then ([(tx_addr, take n msg)], int n) else ([], -1))"

text \<open>
  \<open>process_term_app_msg\<close> answers the three known opcodes with the message itself, its opcode
  cleared.  The results are the state, the datagrams sent and the calls of the log.
\<close>

definition process_term_app_msg :: "bool \<Rightarrow> term_app_control_msg \<Rightarrow> 'z control_state_scheme
    \<Rightarrow> 'z control_state_scheme \<times> (sockaddr_in \<times> byte list) list \<times> log_call list" where
  "process_term_app_msg accepted m st =
     (let l0 = Log_debug (''opcode '' @ hex (unat (opcode m)) @ [nl]) in
      if opcode m = TERM_APP_SERVICE_DISABLE
      then (let m1 = m\<lparr>opcode := TERM_APP_OK\<rparr>;
                (out, bytes) = term_udp_send accepted (control_msg_bytes m1) sizeof_control_msg
            in (st\<lparr>service_disabled := True\<rparr>, out,
                [l0] @ (if bytes < 0 then [Log_error ''Service disabled Failed to tx:''] else [])
                @ [Log_error (''Service Disabled'' @ [nl])]))
      else if opcode m = TERM_APP_SERVICE_ENABLE
      then (let m1 = m\<lparr>opcode := TERM_APP_OK\<rparr>;
                (out, bytes) = term_udp_send accepted (control_msg_bytes m1) sizeof_control_msg
            in (st\<lparr>service_disabled := False\<rparr>, out,
                [l0] @ (if bytes < 0 then [Log_error ''Service enabled Failed to tx:''] else [])
                @ [Log_error (''Service Enabled'' @ [nl])]))
      else if opcode m = TERM_APP_SERVICE_STATS
      then (let s = get_sensor_stats (stats st);
                m1 = m\<lparr>u_buf := mem_write (u_buf m) 0 (stats_bytes s), opcode := TERM_APP_OK\<rparr>;
                (out, bytes) = term_udp_send accepted (control_msg_bytes m1) sizeof_control_msg
            in (st, out,
                [l0, Log_debug (''stats '' @ hex (unat (pkts_recv s)) @ [nl])]
                @ (if bytes < 0 then [Log_error ''Service stats failed to tx:''] else [])))
      else (st, [], [l0, Log_error (''Unknown msg '' @ fmt_d (opcode m) @ [nl])]))"

text \<open>
  One round of \<open>service_control\<close>: \<open>rc\<close> is what \<open>poll\<close> returns, \<open>err\<close> the text of its error, \<open>pollin\<close>
  its event bit, \<open>d\<close> the datagram \<open>read\<close> takes (\<open>None\<close> when it fails); the message buffer is
  zeroed before.  A timeout, which an endless wait does not have, is printed.
\<close>

definition service_control_round :: "int \<Rightarrow> string \<Rightarrow> bool \<Rightarrow> byte list option \<Rightarrow> bool \<Rightarrow> 'z control_state_scheme
    \<Rightarrow> 'z control_state_scheme \<times> (sockaddr_in \<times> byte list) list \<times> log_call list" where
  "service_control_round rc err pollin d accepted st =
     (if rc = 0 then (st, [], [Printed (''service_control 126'' @ [nl])])
      else if rc < 0 then (st, [], [Log_error (''Polling error '' @ err @ [nl])])
      else if pollin
      then (case d of
              None \<Rightarrow> (st, [], [Log_error ''reading stream message''])
            | Some bs \<Rightarrow>
                if bs = [] then (st, [], [Log_error ''reading stream message''])
                else process_term_app_msg accepted (control_msg_of_bytes
                  (mem_write (replicate sizeof_control_msg 0) 0 (take sizeof_control_msg bs))) st)
      else (st, [], []))"

text \<open>
  \<open>start_service_check\<close> on the answers of \<open>socket\<close>, \<open>bind\<close> and \<open>pthread_create\<close>.  A socket that
  cannot be bound is not closed; \<open>listen\<close> fails on a datagram socket and is not checked.
\<close>

definition control_address :: sockaddr_in where
  "control_address = \<lparr> sin_family = AF_INET, sin_port = htons TERM_APP_HS_UDP_SRV_TX_PORT, s_addr = INADDR_ANY \<rparr>"

definition start_service_check :: "int \<Rightarrow> (sockaddr_in \<Rightarrow> int) \<Rightarrow> int \<Rightarrow> int" where
  "start_service_check listensock bind created =
     (if listensock < 0 then -1
      else if bind control_address \<noteq> 0 then -1
      else if created = 0 then 0 else -1)"

section \<open>Message formats\<close>

lemma control_msg_roundtrip: "control_msg_of_bytes (control_msg_bytes m) = m"
  by (simp add: control_msg_of_bytes_def control_msg_bytes_def of_nat_le_nat_le_bytes)

lemma length_stats_bytes [bytes_simps]: "length (stats_bytes st) = 12"
  by (simp add: stats_bytes_def)

lemma stats_roundtrip: "stats_of_bytes (stats_bytes st @ bs) = st"
  by (simp add: stats_of_bytes_def stats_bytes_def of_nat_le_nat_le_bytes)

text \<open>A received message, possibly shorter or longer than the struct.\<close>

definition recv_control_msg :: "byte list \<Rightarrow> term_app_control_msg" where
  "recv_control_msg bs = control_msg_of_bytes
     (mem_write (replicate sizeof_control_msg 0) 0 (take sizeof_control_msg bs))"

lemma length_recv_control_msg: "length (u_buf (recv_control_msg bs)) = 1000"
  by (simp add: recv_control_msg_def control_msg_of_bytes_def sizeof_control_msg_def bytes_simps)

lemma recv_control_msg_full: "length (u_buf m) = 1000 \<Longrightarrow> recv_control_msg (control_msg_bytes m) = m"
  by (simp add: recv_control_msg_def sizeof_control_msg_def control_msg_bytes_def mem_write_0)
    (simp add: control_msg_roundtrip [unfolded control_msg_bytes_def])

lemma control_round_msg:
  "bs \<noteq> [] \<Longrightarrow> 0 < rc \<Longrightarrow> service_control_round rc err True (Some bs) acc st = process_term_app_msg acc (recv_control_msg bs) st"
  by (simp add: service_control_round_def recv_control_msg_def)

lemma process_state: "fst (process_term_app_msg acc m st) =
   (if opcode m = TERM_APP_SERVICE_DISABLE then st\<lparr>service_disabled := True\<rparr>
    else if opcode m = TERM_APP_SERVICE_ENABLE then st\<lparr>service_disabled := False\<rparr> else st)"
  by (simp add: process_term_app_msg_def Let_def split: prod.split)

section \<open>The control thread\<close>

text \<open>
  What the system answers in one round of the loop: the result of \<open>poll\<close> with its error text and
  event bit, the datagram \<open>read\<close> gives, and whether a reply can be sent.
\<close>

record control_answer =
  poll_rc :: int
  poll_err :: string
  poll_in :: bool
  read_msg :: "byte list option"
  reply_taken :: bool

text \<open>
  \<open>service_control\<close> never leaves its loop, so the \<open>close\<close> behind it is not reached.  The model runs it
  on the answers of the first rounds and collects the datagrams sent and the calls of the log.
\<close>

fun service_control :: "control_answer list \<Rightarrow> 'z control_state_scheme
    \<Rightarrow> 'z control_state_scheme \<times> (sockaddr_in \<times> byte list) list \<times> log_call list" where
  "service_control [] st = (st, [], [])"
| "service_control (a # as) st =
     (let (st1, out, logs) = service_control_round (poll_rc a) (poll_err a) (poll_in a) (read_msg a) (reply_taken a) st;
          (st2, outs, logss) = service_control as st1
      in (st2, out @ outs, logs @ logss))"

text \<open>The message a round handles, when there is one.\<close>

definition control_input :: "control_answer \<Rightarrow> term_app_control_msg option" where
  "control_input a =
     (case read_msg a of
        None \<Rightarrow> None
      | Some bs \<Rightarrow> if 0 < poll_rc a \<and> poll_in a \<and> bs \<noteq> [] then Some (recv_control_msg bs) else None)"

lemma service_control_round_input:
  "service_control_round (poll_rc a) (poll_err a) (poll_in a) (read_msg a) (reply_taken a) st =
     (case control_input a of
        Some m \<Rightarrow> process_term_app_msg (reply_taken a) m st
      | None \<Rightarrow> (st, [], snd (snd (service_control_round (poll_rc a) (poll_err a) (poll_in a) (read_msg a) (reply_taken a) st))))"
  by (auto simp: control_input_def service_control_round_def recv_control_msg_def split: option.split)

text \<open>The commands among the messages handled, and the messages that are answered.\<close>

definition switches :: "control_answer list \<Rightarrow> bool list" where
  "switches as = map (\<lambda>m. opcode m = TERM_APP_SERVICE_DISABLE)
     (filter (\<lambda>m. opcode m \<in> {TERM_APP_SERVICE_DISABLE, TERM_APP_SERVICE_ENABLE}) (List.map_filter control_input as))"

definition answered :: "control_answer list \<Rightarrow> nat" where
  "answered as = length (filter (\<lambda>a. reply_taken a \<and> (\<exists>m \<in> set_option (control_input a).
     opcode m \<in> {TERM_APP_SERVICE_DISABLE, TERM_APP_SERVICE_ENABLE, TERM_APP_SERVICE_STATS})) as)"

lemma process_replies: "length (fst (snd (process_term_app_msg acc m st))) =
   (if acc \<and> opcode m \<in> {TERM_APP_SERVICE_DISABLE, TERM_APP_SERVICE_ENABLE, TERM_APP_SERVICE_STATS} then 1 else 0)"
  by (simp add: process_term_app_msg_def term_udp_send_def Let_def)

lemma switches_Cons: "switches (a # as) =
   (case control_input a of
      Some m \<Rightarrow> (if opcode m = TERM_APP_SERVICE_DISABLE then [True]
                 else if opcode m = TERM_APP_SERVICE_ENABLE then [False] else []) @ switches as
    | None \<Rightarrow> switches as)"
  by (auto simp: switches_def map_filter_simps opcodes split: option.split)

text \<open>
  C20: Whatever the system answers in any number of rounds of the control
  thread (timeouts, failed polls and reads, truncated messages, replies that cannot be sent), the
  service is disabled exactly when the last enable or disable command received is a disable, the
  counters do not change, and exactly one datagram goes out for each known command whose reply
  the system takes.
\<close>

theorem control_last_switch_wins:
  assumes "service_control as st = (st', out, logs)"
  shows "service_disabled st' = (if switches as = [] then service_disabled st else last (switches as))
   \<and> stats st' = stats st \<and> length out = answered as"
  using assms
proof (induction as arbitrary: st out logs)
  case (Cons a as)
  obtain st1 o1 l1 where r: "service_control_round (poll_rc a) (poll_err a) (poll_in a) (read_msg a) (reply_taken a) st = (st1, o1, l1)"
    by (metis prod_cases3)
  obtain o2 l2 where s: "service_control as st1 = (st', o2, l2)" "out = o1 @ o2"
    using Cons.prems r by (auto split: prod.splits)
  note IH = Cons.IH [OF s(1)]
  show ?case
  proof (cases "control_input a")
    case None
    with r service_control_round_input [of a st] have "st1 = st" "o1 = []" by simp_all
    with IH s(2) None show ?thesis by (simp add: switches_Cons answered_def)
  next
    case (Some m)
    with r service_control_round_input [of a st] have p: "process_term_app_msg (reply_taken a) m st = (st1, o1, l1)" by simp
    have "length o1 = (if reply_taken a \<and> opcode m \<in> {TERM_APP_SERVICE_DISABLE, TERM_APP_SERVICE_ENABLE, TERM_APP_SERVICE_STATS} then 1 else 0)"
      using process_replies [of "reply_taken a" m st] p by simp
    moreover have "st1 = (if opcode m = TERM_APP_SERVICE_DISABLE then st\<lparr>service_disabled := True\<rparr>
        else if opcode m = TERM_APP_SERVICE_ENABLE then st\<lparr>service_disabled := False\<rparr> else st)"
      using process_state [of "reply_taken a" m st] p by simp
    ultimately show ?thesis using IH s(2) Some by (auto simp: switches_Cons answered_def)
  qed
qed (simp add: switches_def answered_def map_filter_simps)

text \<open>Disable, a failed poll, a truncated enable, a timeout and a failed read.\<close>

theorem control_last_switch_wins_witness:
  "\<exists>st' out logs. service_control
      [\<lparr> poll_rc = 1, poll_err = [], poll_in = True, read_msg = Some [0x10, 0, 0, 0], reply_taken = True \<rparr>,
       \<lparr> poll_rc = -1, poll_err = ''EINTR'', poll_in = False, read_msg = None, reply_taken = True \<rparr>,
       \<lparr> poll_rc = 1, poll_err = [], poll_in = True, read_msg = Some [0x11], reply_taken = False \<rparr>,
       \<lparr> poll_rc = 0, poll_err = [], poll_in = False, read_msg = None, reply_taken = True \<rparr>,
       \<lparr> poll_rc = 1, poll_err = [], poll_in = True, read_msg = None, reply_taken = True \<rparr>]
      \<lparr> service_disabled = True, stats = zero_stats \<rparr> = (st', out, logs)
    \<and> \<not> service_disabled st' \<and> stats st' = zero_stats \<and> length out = 1" (is "\<exists>st' out logs. service_control ?as ?st = _ \<and> _")
proof -
  obtain st' out logs where s: "service_control ?as ?st = (st', out, logs)" by (metis prod_cases3)
  have "switches ?as = [True, False]" "answered ?as = 1"
    by (simp_all add: switches_Cons switches_def [of "[]"] answered_def control_input_def map_filter_simps opcodes
        recv_control_msg_def control_msg_of_bytes_def mem_write_def sizeof_control_msg_def)
  with control_last_switch_wins [OF s] s show ?thesis by simp
qed

text \<open>
  C21: A statistics request is answered with one datagram of the struct's
  size, opcode OK, whose first bytes decode to the current counters while the rest is echoed;
  it goes to port 13012 of this machine.  When it cannot be sent that is only logged.
\<close>

theorem control_stats_reply:
  assumes "0 < rc" "bs \<noteq> []" "opcode (recv_control_msg bs) = TERM_APP_SERVICE_STATS"
  shows "\<exists>reply logs. service_control_round rc err True (Some bs) acc st
      = (st, if acc then [(\<lparr> sin_family = AF_INET, sin_port = htons 13012, s_addr = INADDR_ANY \<rparr>, reply)] else [], logs)
    \<and> (Log_error ''Service stats failed to tx:'' \<in> set logs \<longleftrightarrow> \<not> acc)
    \<and> length reply = sizeof_control_msg
    \<and> opcode (control_msg_of_bytes reply) = TERM_APP_OK
    \<and> stats_of_bytes (u_buf (control_msg_of_bytes reply)) = stats st
    \<and> drop 12 (u_buf (control_msg_of_bytes reply)) = drop 12 (u_buf (recv_control_msg bs))"
proof -
  let ?m = "recv_control_msg bs"
  let ?r = "?m\<lparr>u_buf := mem_write (u_buf ?m) 0 (stats_bytes (get_sensor_stats (stats st))), opcode := TERM_APP_OK\<rparr>"
  have b: "mem_write (u_buf ?m) 0 (stats_bytes (stats st)) = stats_bytes (stats st) @ drop 12 (u_buf ?m)"
    by (simp add: mem_write_def bytes_simps)
  have len: "length (control_msg_bytes ?r) = sizeof_control_msg"
    using length_recv_control_msg [of bs] by (simp add: control_msg_bytes_def sizeof_control_msg_def bytes_simps)
  then have "\<exists>logs. service_control_round rc err True (Some bs) acc st
      = (st, if acc then [(\<lparr> sin_family = AF_INET, sin_port = htons 13012, s_addr = INADDR_ANY \<rparr>, control_msg_bytes ?r)] else [], logs)
    \<and> (Log_error ''Service stats failed to tx:'' \<in> set logs \<longleftrightarrow> \<not> acc)"
    using assms(3)
    by (simp add: control_round_msg [OF assms(2,1)] process_term_app_msg_def opcodes term_udp_send_def Let_def
        TERM_APP_HS_UDP_SRV_RX_PORT_def)
  with len show ?thesis
    by (fastforce simp: control_msg_roundtrip get_sensor_stats_def b stats_roundtrip bytes_simps)
qed

theorem control_stats_reply_witness:
  "\<exists>reply logs. service_control_round 1 [] True (Some [0x18, 0, 0, 0]) True
        \<lparr> service_disabled = False, stats = \<lparr> pkts_sent = 3, pkts_recv = 5, pkts_err = 1 \<rparr> \<rparr>
      = (\<lparr> service_disabled = False, stats = \<lparr> pkts_sent = 3, pkts_recv = 5, pkts_err = 1 \<rparr> \<rparr>,
         [(\<lparr> sin_family = AF_INET, sin_port = htons 13012, s_addr = INADDR_ANY \<rparr>, reply)], logs)
    \<and> stats_of_bytes (u_buf (control_msg_of_bytes reply)) = \<lparr> pkts_sent = 3, pkts_recv = 5, pkts_err = 1 \<rparr>"
  using control_stats_reply [of 1 "[0x18, 0, 0, 0]" "[]" True
      "\<lparr> service_disabled = False, stats = \<lparr> pkts_sent = 3, pkts_recv = 5, pkts_err = 1 \<rparr> \<rparr>"]
  by (simp add: recv_control_msg_def control_msg_of_bytes_def mem_write_def sizeof_control_msg_def opcodes) blast

end
