(* ===== verification/Service.thy ===== *)
theory Service
  imports History Service_Check
begin

text \<open>
  The four data threads of \<open>src/hs_udp_service.c\<close>.  Each thread is its local variables with a
  program counter; its steps run from one call that can block to the next, so that what other
  threads do in between is visible.  A step is \<open>None\<close> when it blocks.
\<close>

record service = hist +
  cluster :: Fifo_Cluster
  rudp :: rudp_state
  ctl :: control_state
  IOTSocket :: UDP_socket
  sockTx :: bool

section \<open>\<open>iot_receive_routine\<close>\<close>

datatype rx_pc = RxWait | RxGet | RxPut

record iot_rx =
  rx_pc :: rx_pc
  rxPayLoad :: "byte list"
  rx_res :: nat
  rx_frgmnts :: nat
  rx_frgmntIdx :: u8
  rx_dataPtr :: nat
  rx_txSeqNum :: u8
  rx_dataPayLoad :: ptr

definition fragment_count :: "nat \<Rightarrow> nat" where
  "fragment_count res = res div MAX_MSG_SIZE + 1 * (if 0 < res mod MAX_MSG_SIZE then 1 else 0)"

text \<open>
  From \<open>udp_recv\<close> on: \<open>d\<close> is the datagram taken, \<open>eagain\<close> whether a failure is just \<open>EAGAIN\<close>.
  A disabled service drops the datagram before the sequence number advances.
\<close>

definition iot_rx_recv :: "(sockaddr_in \<times> byte list) option \<Rightarrow> bool \<Rightarrow> iot_rx \<Rightarrow> service \<Rightarrow> iot_rx \<times> service" where
  "iot_rx_recv d eagain t s =
     (let (sock, data, res) = udp_recv (IOTSocket s) (rxPayLoad t) NET_PACKET_SIZE d;
          s1 = s\<lparr>IOTSocket := sock\<rparr>; t1 = t\<lparr>rxPayLoad := data\<rparr>
      in if service_disabled (ctl s1) then (t1, s1)
         else (let t2 = t1\<lparr>rx_txSeqNum := rx_txSeqNum t1 + 1\<rparr> in
           if 0 < res
           then (t2\<lparr>rx_pc := RxGet, rx_res := nat res, rx_frgmnts := fragment_count (nat res),
                    rx_frgmntIdx := 0, rx_dataPtr := 0\<rparr>, s1)
           else if res < 0 \<and> \<not> eagain
           then (t2, s1\<lparr>ctl := (ctl s1)\<lparr>stats := snd (update_stats_pkts_err 1 (stats (ctl s1)))\<rparr>\<rparr>)
           else (t2, s1)))"

text \<open>One round of the fragmentation loop on the buffer just obtained.\<close>

definition iot_rx_fill :: "iot_rx \<Rightarrow> Msg_Buf \<Rightarrow> c_error + (iot_rx \<times> Msg_Buf)" where
  "iot_rx_fill t m =
     (let m1 = m\<lparr>m_seqNum := rx_txSeqNum t, msgHeader := (msgHeader m)\<lparr>h_frgmnts := of_nat (rx_frgmnts t)\<rparr>\<rparr>;
          (len, res) = (if MAX_MSG_SIZE < rx_res t then (MAX_MSG_SIZE, rx_res t - MAX_MSG_SIZE) else (rx_res t, 0));
          m2 = m1\<lparr>m_msgLen := of_nat len,
                  msgHeader := (msgHeader m1)\<lparr>h_frgmntIdx := ucast (rx_frgmntIdx t AND FRAG_MASK)\<rparr>,
                  m_data := replicate MAX_MSG_SIZE 0\<rparr>
      in case memcpy (m_data m2) 0 (drop (rx_dataPtr t) (rxPayLoad t)) (unat (m_msgLen m2)) of
           Inl e \<Rightarrow> Inl e
         | Inr bs \<Rightarrow> Inr (t\<lparr>rx_res := res, rx_frgmntIdx := rx_frgmntIdx t + 1,
                              rx_dataPtr := rx_dataPtr t + unat (m_msgLen m2)\<rparr>, m2\<lparr>m_data := bs\<rparr>))"

definition iot_rx_get :: "iot_rx \<Rightarrow> service \<Rightarrow> (c_error + (iot_rx \<times> service)) option" where
  "iot_rx_get t s =
     (case Fifo_get (IotThrInFifo (cluster s)) (rx_dataPayLoad t) of
        None \<Rightarrow> None
      | Some (f, _, p) \<Rightarrow>
          if p = NULL then Some (Inl NullDeref)
          else (case iot_rx_fill t (store s p) of
                  Inl e \<Rightarrow> Some (Inl e)
                | Inr (t', m) \<Rightarrow>
                    Some (Inr (t'\<lparr>rx_dataPayLoad := p, rx_pc := RxPut\<rparr>,
                      store_upd p (\<lambda>_. m) (s\<lparr>cluster := (cluster s)\<lparr>IotThrInFifo := f\<rparr>\<rparr>)))))"

definition iot_rx_put :: "iot_rx \<Rightarrow> service \<Rightarrow> (iot_rx \<times> service) option" where
  "iot_rx_put t s =
     (case Fifo_put (IotThrOutFifo (cluster s)) (rx_dataPayLoad t) of
        None \<Rightarrow> None
      | Some (f, _) \<Rightarrow>
          (let s1 = s\<lparr>cluster := (cluster s)\<lparr>IotThrOutFifo := f\<rparr>\<rparr> in
           if 0 < rx_res t then Some (t\<lparr>rx_pc := RxGet\<rparr>, s1)
           else Some (t\<lparr>rx_pc := RxWait\<rparr>,
                      s1\<lparr>ctl := (ctl s1)\<lparr>stats := update_stats_pkts_recv 1 (stats (ctl s1))\<rparr>\<rparr>)))"

text \<open>The thread undisturbed, until it waits for the next datagram.\<close>

partial_function (option) iot_rx_run :: "iot_rx \<Rightarrow> service \<Rightarrow> (c_error + (iot_rx \<times> service)) option" where
  "iot_rx_run t s =
     (case rx_pc t of
        RxWait \<Rightarrow> Some (Inr (t, s))
      | RxGet \<Rightarrow> (case iot_rx_get t s of None \<Rightarrow> None
                  | Some r \<Rightarrow> (case r of Inl e \<Rightarrow> Some (Inl e) | Inr x \<Rightarrow> iot_rx_run (fst x) (snd x)))
      | RxPut \<Rightarrow> (case iot_rx_put t s of None \<Rightarrow> None | Some x \<Rightarrow> iot_rx_run (fst x) (snd x)))"

section \<open>\<open>iot_transmit_routine\<close>\<close>

text \<open>
  The round of the thread: the pointer is taken from the queue, \<open>defragment\<close> looks the packet up
  and stores the fragment, a complete packet is sent and its slot released, the buffer goes back.
  No lock protects the table, so each of these is a step of its own.
\<close>

datatype tx_pc = TxGet | TxLookup | TxStore | TxSend | TxPut

record iot_tx =
  tx_pc :: tx_pc
  tx_dataPayLoad :: ptr
  tx_handle :: handle
  tx_msgHandle :: "handle option"

text \<open>What the threads send: to the device (with the address) or towards Fusion.\<close>

datatype sent = ToDevice sockaddr_in "byte list" | ToFusion "byte list"

definition iot_tx_get :: "iot_tx \<Rightarrow> service \<Rightarrow> (c_error + (iot_tx \<times> service)) option" where
  "iot_tx_get t s =
     (case Fifo_get (fusionThrOutFifo (cluster s)) (tx_dataPayLoad t) of
        None \<Rightarrow> None
      | Some (f, _, p) \<Rightarrow>
          if p = NULL then Some (Inl NullDeref)
          else Some (Inr (t\<lparr>tx_dataPayLoad := p, tx_msgHandle := None, tx_pc := TxLookup\<rparr>,
                          s\<lparr>cluster := (cluster s)\<lparr>fusionThrOutFifo := f\<rparr>\<rparr>)))"

text \<open>A message that is not a fragment leaves \<open>defragment\<close> at once, with 0 and no handle.\<close>

definition iot_tx_lookup :: "rudp_env \<Rightarrow> iot_tx \<Rightarrow> service \<Rightarrow> c_error + (iot_tx \<times> service \<times> sent list)" where
  "iot_tx_lookup env t s =
     (let msg = store s (tx_dataPayLoad t) in
      if h_frgmntIdx (msgHeader msg) < h_frgmnts (msgHeader msg)
      then (case defrag_lookup env (rudp s) msg of
              Inl e \<Rightarrow> Inl e
            | Inr (st, h, ds) \<Rightarrow> Inr (t\<lparr>tx_handle := h, tx_pc := TxStore\<rparr>, s\<lparr>rudp := st\<rparr>, map ToFusion ds))
      else Inr (t\<lparr>tx_pc := TxSend\<rparr>, s, []))"

text \<open>The counter advances whether or not something was sent.\<close>

definition iot_tx_sent :: "iot_tx \<Rightarrow> service \<Rightarrow> iot_tx \<times> service" where
  "iot_tx_sent t s = (t\<lparr>tx_pc := TxPut\<rparr>, s\<lparr>ctl := (ctl s)\<lparr>stats := update_stats_pkts_sent 1 (stats (ctl s))\<rparr>\<rparr>)"

definition iot_tx_store :: "rudp_env \<Rightarrow> iot_tx \<Rightarrow> service \<Rightarrow> c_error + (iot_tx \<times> service \<times> sent list)" where
  "iot_tx_store env t s =
     (case defrag_finish env (store s (tx_dataPayLoad t)) (rudp s) (tx_handle t) [] of
        Inl e \<Rightarrow> Inl e
      | Inr (st, res, msgHandle, ds) \<Rightarrow>
          (let t1 = t\<lparr>tx_msgHandle := msgHandle\<rparr>; s1 = s\<lparr>rudp := st\<rparr> in
           if res = 0 then Inr (t1\<lparr>tx_pc := TxSend\<rparr>, s1, map ToFusion ds)
           else (let (t2, s2) = iot_tx_sent t1 s1 in Inr (t2, s2, map ToFusion ds))))"

definition iot_tx_send :: "iot_tx \<Rightarrow> service \<Rightarrow> c_error + (iot_tx \<times> service \<times> sent list)" where
  "iot_tx_send t s =
     (let msg = store s (tx_dataPayLoad t); T = fragmentsTable (rudp s);
          (dataPtr, dataSizeToSend) =
            (case tx_msgHandle t of
               Some h \<Rightarrow> (f_data (frag_at T h), unat (f_size (frag_at T h)))
             | None \<Rightarrow> (drop 3 (Msg_Buf_bytes msg), unat (m_msgLen msg)))
      in case udp_send (IOTSocket s) dataPtr dataSizeToSend of
           Inl e \<Rightarrow> Inl e
         | Inr (to, d) \<Rightarrow>
             (case release_fragment T (tx_msgHandle t) of
                Inl e \<Rightarrow> Inl e
              | Inr T' \<Rightarrow> (let (t1, s1) = iot_tx_sent t (s\<lparr>rudp := (rudp s)\<lparr>fragmentsTable := T'\<rparr>\<rparr>)
                         in Inr (t1, s1, [ToDevice to d]))))"

definition iot_tx_put :: "iot_tx \<Rightarrow> service \<Rightarrow> (iot_tx \<times> service) option" where
  "iot_tx_put t s =
     (case Fifo_put (fusionThrInFifo (cluster s)) (tx_dataPayLoad t) of
        None \<Rightarrow> None
      | Some (f, _) \<Rightarrow> Some (t\<lparr>tx_pc := TxGet\<rparr>, s\<lparr>cluster := (cluster s)\<lparr>fusionThrInFifo := f\<rparr>\<rparr>))"

section \<open>\<open>fusion_transmit_routine\<close>\<close>

datatype ft_pc = FtGet | FtPush

record fusion_tx =
  ft_pc :: ft_pc
  ft_rxMsgBufPtr :: ptr

definition fusion_header :: "Msg_Buf \<Rightarrow> Msg_Buf" where
  "fusion_header m = m\<lparr>msgHeader := (msgHeader m)\<lparr>h_seqNum := ucast (m_seqNum m AND SEQ_MASK),
     h_size := ucast (m_msgLen m), h_msgCode := MSG_CODE_REG_DATA\<rparr>\<rparr>"

definition fusion_tx_get :: "fusion_tx \<Rightarrow> service \<Rightarrow> (c_error + (fusion_tx \<times> service \<times> sent list)) option" where
  "fusion_tx_get t s =
     (case Fifo_get (IotThrOutFifo (cluster s)) (ft_rxMsgBufPtr t) of
        None \<Rightarrow> None
      | Some (f, _, p) \<Rightarrow>
          if p = NULL then Some (Inl NullDeref)
          else (let m = fusion_header (store s p);
                    s1 = store_upd p fusion_header (s\<lparr>cluster := (cluster s)\<lparr>IotThrOutFifo := f\<rparr>\<rparr>)
                in case sendto (Msg_Buf_bytes m) (unat (m_msgLen m) + sizeof_Msg_Header) of
                     Inl e \<Rightarrow> Some (Inl e)
                   | Inr d \<Rightarrow> Some (Inr (t\<lparr>ft_rxMsgBufPtr := p, ft_pc := FtPush\<rparr>, s1, [ToFusion d]))))"

definition fusion_tx_push :: "timeval \<Rightarrow> fusion_tx \<Rightarrow> service \<Rightarrow> fusion_tx \<times> service" where
  "fusion_tx_push tm t s = (t\<lparr>ft_pc := FtGet\<rparr>, hist_push_frag tm (ft_rxMsgBufPtr t) s)"

section \<open>\<open>fusion_receive_routine\<close>\<close>

datatype fr_pc = FrRecv | FrReply | FrGet | FrPut

record fusion_rx =
  fr_pc :: fr_pc
  fr_rxMsgBufPtr :: ptr
  rxMsgPayload :: Msg_Buf
  fr_res :: nat
  fr_pkt :: ptr
  pkt_drop_count :: u32

text \<open>
  The datagram lands in a stack buffer of 99 bytes that keeps what earlier ones left behind it.
  A request for a fragment is looked up at once; \<open>None\<close> when the search does not end.
\<close>

definition fusion_rx_recv :: "byte list option \<Rightarrow> fusion_rx \<Rightarrow> service \<Rightarrow> (fusion_rx \<times> service) option" where
  "fusion_rx_recv d t s =
     (case d of
        None \<Rightarrow> Some (t, s)
      | Some bs \<Rightarrow>
          if bs = [] then Some (t, s)
          else (let raw = mem_write (Msg_Buf_bytes (rxMsgPayload t)) 0 (take sizeof_Msg_Buf bs);
                    t1 = t\<lparr>rxMsgPayload := Msg_Buf_of_bytes raw\<rparr>
                in if h_msgCode (msgHeader (rxMsgPayload t1)) = MSG_CODE_REQUEST_FRAG
                   then (let req = rUdpFragmntReq_of_bytes raw in
                         case hist_find_frag (q_fragmntLost req) (q_seqNum req) s of
                           None \<Rightarrow> None
                         | Some (pkt, s') \<Rightarrow>
                             if pkt \<noteq> NULL then Some (t1\<lparr>fr_pkt := pkt, fr_pc := FrReply\<rparr>, s')
                             else Some (t1, s'))
                   else Some (t1\<lparr>fr_res := min sizeof_Msg_Buf (length bs), fr_pc := FrGet\<rparr>, s)))"

definition fusion_rx_reply :: "fusion_rx \<Rightarrow> service \<Rightarrow> c_error + (fusion_rx \<times> service \<times> sent list)" where
  "fusion_rx_reply t s =
     (case send_reply (sockTx s) (fr_pkt t) s of
        Inl e \<Rightarrow> Inl e
      | Inr (d, s') \<Rightarrow> Inr (t\<lparr>fr_pc := FrRecv\<rparr>, s', [ToFusion d]))"

text \<open>
  A buffer is taken, the message copied into it, and then every thirteenth message, the first
  one included, is dropped together with its buffer.
\<close>

definition fusion_rx_get :: "fusion_rx \<Rightarrow> service \<Rightarrow> (c_error + (fusion_rx \<times> service)) option" where
  "fusion_rx_get t s =
     (case Fifo_get (fusionThrInFifo (cluster s)) (fr_rxMsgBufPtr t) of
        None \<Rightarrow> None
      | Some (f, _, p) \<Rightarrow>
          (let m = (rxMsgPayload t)\<lparr>m_msgLen := of_int (int (fr_res t) - int sizeof_Msg_Header)\<rparr>;
               t1 = t\<lparr>rxMsgPayload := m, fr_rxMsgBufPtr := p, pkt_drop_count := pkt_drop_count t + 1\<rparr>
           in if p = NULL then Some (Inl NullDeref)
              else Some (Inr (t1\<lparr>fr_pc := if sint (pkt_drop_count t) mod 13 \<noteq> 0 then FrPut else FrRecv\<rparr>,
                     store_upd p (\<lambda>_. m) (s\<lparr>cluster := (cluster s)\<lparr>fusionThrInFifo := f\<rparr>\<rparr>)))))"

definition fusion_rx_put :: "fusion_rx \<Rightarrow> service \<Rightarrow> (fusion_rx \<times> service) option" where
  "fusion_rx_put t s =
     (case Fifo_put (fusionThrOutFifo (cluster s)) (fr_rxMsgBufPtr t) of
        None \<Rightarrow> None
      | Some (f, _) \<Rightarrow> Some (t\<lparr>fr_pc := FrRecv\<rparr>, s\<lparr>cluster := (cluster s)\<lparr>fusionThrOutFifo := f\<rparr>\<rparr>))"

section \<open>Reassembly without a sweep in between\<close>

text \<open>
  The steps \<open>TxLookup\<close>, \<open>TxStore\<close> and \<open>TxSend\<close> one after the other do what \<open>iot_deliver\<close> says, in
  the state, to the device and towards Fusion.
\<close>

abbreviation tx_done :: "rudp_state \<Rightarrow> service \<Rightarrow> service" where
  "tx_done st s \<equiv> s\<lparr>rudp := st, ctl := (ctl s)\<lparr>stats := update_stats_pkts_sent 1 (stats (ctl s))\<rparr>\<rparr>"

lemma iot_deliver_steps:
  assumes "iot_deliver env (rudp s) (store s (tx_dataPayLoad t)) = Inr (st, d, reqs)"
  obtains st1 h ds1 ds2 where
    "iot_tx_lookup env t s = Inr (t\<lparr>tx_handle := h, tx_pc := TxStore\<rparr>, s\<lparr>rudp := st1\<rparr>, map ToFusion ds1)"
    "reqs = ds1 @ ds2" "d = None"
    "iot_tx_store env (t\<lparr>tx_handle := h, tx_pc := TxStore\<rparr>) (s\<lparr>rudp := st1\<rparr>)
       = Inr (t\<lparr>tx_handle := h, tx_msgHandle := None, tx_pc := TxPut\<rparr>, tx_done st s, map ToFusion ds2)"
  | st1 h ds1 ds2 st2 bs g where
    "iot_tx_lookup env t s = Inr (t\<lparr>tx_handle := h, tx_pc := TxStore\<rparr>, s\<lparr>rudp := st1\<rparr>, map ToFusion ds1)"
    "reqs = ds1 @ ds2" "d = Some bs"
    "iot_tx_store env (t\<lparr>tx_handle := h, tx_pc := TxStore\<rparr>) (s\<lparr>rudp := st1\<rparr>)
       = Inr (t\<lparr>tx_handle := h, tx_msgHandle := Some g, tx_pc := TxSend\<rparr>, s\<lparr>rudp := st2\<rparr>, map ToFusion ds2)"
    "iot_tx_send (t\<lparr>tx_handle := h, tx_msgHandle := Some g, tx_pc := TxSend\<rparr>) (s\<lparr>rudp := st2\<rparr>)
       = Inr (t\<lparr>tx_handle := h, tx_msgHandle := Some g, tx_pc := TxPut\<rparr>, tx_done st s, [ToDevice (sk_addr (IOTSocket s)) bs])"
proof -
  let ?m = "store s (tx_dataPayLoad t)"
  obtain st2 res mh ds where d: "defragment env (rudp s) ?m = Inr (st2, res, mh, ds)"
    using assms by (auto simp: iot_deliver_def split: sum.splits)
  have i: "h_frgmntIdx (msgHeader ?m) < h_frgmnts (msgHeader ?m)"
    using assms by (auto simp: iot_deliver_def defragment_def sendto_def release_fragment_def split: if_splits)
  obtain st1 h ds1 where l: "defrag_lookup env (rudp s) ?m = Inr (st1, h, ds1)"
    using d i by (auto simp: defragment_def split: sum.splits)
  obtain ds2 where f: "defrag_finish env ?m st1 h [] = Inr (st2, res, mh, ds2)" "ds = ds1 @ ds2"
    using d i l by (auto simp: defragment_def defrag_finish_append [of env ?m st1 h ds1] split: sum.splits)
  show ?thesis
  proof (cases "res = 0")
    case False
    then show ?thesis using assms d f l i
      by (intro that(1) [of h st1 ds1 ds2])
        (auto simp: iot_tx_lookup_def iot_tx_store_def iot_tx_sent_def iot_deliver_def Let_def
          defrag_finish_def split: sum.splits if_splits)
  next
    case True
    then obtain g where g: "mh = Some g"
      using assms d by (cases mh) (auto simp: iot_deliver_def release_fragment_def split: sum.splits)
    then show ?thesis using assms d f l i True
      by (intro that(2) [of h st1 ds1 ds2 "the d" g st2])
        (auto simp: iot_tx_lookup_def iot_tx_store_def iot_tx_send_def iot_tx_sent_def iot_deliver_def
          udp_send_def release_fragment_def Let_def split: sum.splits)
  qed
qed

end
