(* ===== verification/Sender.thy ===== *)
theory Sender
  imports Service
begin

text \<open>
  The sending side of \<open>src/hs_udp_service.c\<close>: a datagram from the device is cut into fragments
  by \<open>iot_receive_routine\<close>, and \<open>fusion_transmit_routine\<close> puts each on the wire.
\<close>

section \<open>The fragments of a datagram\<close>

definition chunks :: "byte list \<Rightarrow> byte list list" where
  "chunks data = map (\<lambda>i. take 60 (drop (60 * i) data)) [0..<fragment_count (length data)]"

lemma fragment_count_simps:
  "60 * i < n \<longleftrightarrow> i < fragment_count n"
  "n \<le> 60 * fragment_count n"
  "fragment_count n = 0 \<longleftrightarrow> n = 0"
proof -
  define q r where "q = n div 60" and "r = n mod 60"
  have n: "n = 60 * q + r" "r < 60" by (simp_all add: q_def r_def)
  have c: "fragment_count n = (if r = 0 then q else Suc q)"
    by (simp add: fragment_count_def MAX_MSG_SIZE_def q_def r_def)
  show "60 * i < n \<longleftrightarrow> i < fragment_count n" unfolding c using n by (auto split: if_splits)
  show "n \<le> 60 * fragment_count n" unfolding c using n by (auto split: if_splits)
  show "fragment_count n = 0 \<longleftrightarrow> n = 0" unfolding c using n by (auto split: if_splits)
qed

lemma fragment_count_le: "n \<le> 1500 \<Longrightarrow> fragment_count n \<le> 25"
  using fragment_count_simps(1) [of 25 n] by simp

lemma length_chunks [simp]: "length (chunks data) = fragment_count (length data)"
  by (simp add: chunks_def)

lemma chunks_nth: "i < fragment_count (length data) \<Longrightarrow> chunks data ! i = take 60 (drop (60 * i) data)"
  by (simp add: chunks_def)

lemma length_chunks_nth:
  "i < fragment_count (length data) \<Longrightarrow> length (chunks data ! i) = min 60 (length data - 60 * i)"
  by (simp add: chunks_nth min.commute)

lemma concat_take_drop: "concat (map (\<lambda>i. take 60 (drop (60 * i) xs)) [0..<k]) = take (60 * k) xs"
proof (induction k)
  case (Suc k)
  then show ?case using take_add [of "60 * k" 60 xs] by (simp add: add.commute)
qed simp

lemma concat_chunks: "concat (chunks data) = data"
  using fragment_count_simps(2) [of "length data"] by (simp add: chunks_def concat_take_drop)

lemma packet_ok_chunks: "data \<noteq> [] \<Longrightarrow> length data \<le> 1500 \<Longrightarrow> packet_ok (chunks data)"
proof -
  assume d: "data \<noteq> []" "length data \<le> 1500"
  have "chunks data \<noteq> []" using d(1) fragment_count_simps(3) [of "length data"] length_chunks [of data]
    by (metis length_0_conv)
  moreover have "length (chunks data ! i) = 60" if "Suc i < fragment_count (length data)" for i
    using that fragment_count_simps(1) [of "Suc i" "length data"] by (simp add: length_chunks_nth)
  ultimately show ?thesis
    using fragment_count_le [OF d(2)] by (auto simp: packet_ok_def length_chunks_nth)
qed

section \<open>The fragmentation loop\<close>

text \<open>The loop with \<open>i\<close> fragments done, and the buffer of fragment \<open>i\<close>.\<close>

definition rx_at :: "iot_rx \<Rightarrow> byte list \<Rightarrow> nat \<Rightarrow> bool" where
  "rx_at t data i \<longleftrightarrow> length data \<le> 1500 \<and> take (length data) (rxPayLoad t) = data
     \<and> rx_res t = length data - 60 * i \<and> rx_frgmnts t = fragment_count (length data)
     \<and> rx_frgmntIdx t = of_nat i \<and> rx_dataPtr t = min (60 * i) (length data)"

lemma rx_at_upd [simp]: "rx_at (t\<lparr>rx_dataPayLoad := p\<rparr>) data i = rx_at t data i"
  "rx_at (t\<lparr>rx_pc := x\<rparr>) data i = rx_at t data i"
  by (simp_all add: rx_at_def)

definition fragment_of :: "u8 \<Rightarrow> byte list \<Rightarrow> nat \<Rightarrow> Msg_Buf \<Rightarrow> Msg_Buf" where
  "fragment_of tx data i m = m\<lparr>m_seqNum := tx, m_msgLen := of_nat (length (chunks data ! i)),
     msgHeader := (msgHeader m)\<lparr>h_frgmnts := of_nat (fragment_count (length data)), h_frgmntIdx := of_nat i\<rparr>,
     m_data := mem_write (replicate 60 0) 0 (chunks data ! i)\<rparr>"

lemma frag_mask_idx: "i < 32 \<Longrightarrow> (ucast ((of_nat i :: u8) AND FRAG_MASK) :: 5 word) = of_nat i"
proof -
  assume "i < 32"
  have "(of_nat i :: u8) AND FRAG_MASK = take_bit 5 (of_nat i)"
    by (simp add: FRAG_MASK_def take_bit_eq_mask mask_eq_exp_minus_1)
  then have "(ucast ((of_nat i :: u8) AND FRAG_MASK) :: 5 word) = ucast (of_nat i :: u8)"
    by (simp only:) (rule bit_word_eqI, auto simp: bit_simps)
  also have "\<dots> = of_nat i"
    using \<open>i < 32\<close> by (intro word_unat_eq_iff [THEN iffD2])
      (simp add: unsigned_ucast_eq unat_of_nat_small take_bit_nat_eq_self)
  finally show ?thesis .
qed

lemma iot_rx_fill_eq:
  assumes at: "rx_at t data i" and i: "i < fragment_count (length data)"
  shows "\<exists>t'. iot_rx_fill t m = Inr (t', fragment_of (rx_txSeqNum t) data i m) \<and> rx_at t' data (Suc i)
    \<and> rx_txSeqNum t' = rx_txSeqNum t \<and> (0 < rx_res t' \<longleftrightarrow> Suc i < fragment_count (length data))"
proof -
  let ?L = "length data" and ?len = "min 60 (length data - 60 * i)"
  have a: "?L \<le> 1500" "take ?L (rxPayLoad t) = data" "rx_res t = ?L - 60 * i"
    "rx_frgmnts t = fragment_count ?L" "rx_frgmntIdx t = of_nat i" "rx_dataPtr t = min (60 * i) ?L"
    using at by (simp_all add: rx_at_def)
  have i': "60 * i < ?L" "i < 32" using i fragment_count_simps(1) [of i ?L] a(1) by simp_all
  have dp: "rx_dataPtr t = 60 * i" using a(6) i'(1) by simp
  have len: "unat (of_nat ?len :: u16) = ?len" by (rule unat_of_nat_small) simp
  have pl: "?L \<le> length (rxPayLoad t)" using a(2) by (metis length_take min.cobounded1)
  have "take ?len (drop (60 * i) (rxPayLoad t)) = take 60 (drop (60 * i) data)"
    by (subst a(2) [symmetric]) (simp add: drop_take min.commute)
  then have ch: "take ?len (drop (60 * i) (rxPayLoad t)) = chunks data ! i" using i by (simp add: chunks_nth)
  have cp: "memcpy (replicate 60 0) 0 (drop (60 * i) (rxPayLoad t)) ?len
      = Inr (mem_write (replicate 60 0) 0 (chunks data ! i))"
    using memcpy_ok [of ?len "drop (60 * i) (rxPayLoad t)" 0 "replicate 60 0"] pl ch by simp
  have res: "(if 60 < rx_res t then (60, rx_res t - 60) else (rx_res t, 0)) = (?len, ?L - 60 * Suc i)"
    using a(3) by auto
  let ?t = "t\<lparr>rx_res := ?L - 60 * Suc i, rx_frgmntIdx := rx_frgmntIdx t + 1, rx_dataPtr := 60 * i + ?len\<rparr>"
  have "iot_rx_fill t m = Inr (?t, fragment_of (rx_txSeqNum t) data i m)"
    unfolding iot_rx_fill_def Let_def pkt_consts(1) res prod.case
    using a i i' cp by (simp add: dp len frag_mask_idx fragment_of_def length_chunks_nth)
  moreover have "rx_at ?t data (Suc i)"
    using a i'(1) by (auto simp: rx_at_def)
  moreover have "0 < ?L - 60 * Suc i \<longleftrightarrow> Suc i < fragment_count ?L"
    using fragment_count_simps(1) [of "Suc i" ?L] by simp
  ultimately show ?thesis by (intro exI [of _ ?t]) simp
qed

lemma iot_rx_get_eq:
  assumes at: "rx_at t data i" and i: "i < fragment_count (length data)"
    and q: "fifo_repr cap (IotThrInFifo (cluster s)) (p # qs)" and p: "p \<noteq> NULL"
  shows "\<exists>t' f. iot_rx_get t s = Some (Inr (t', store_upd p (\<lambda>_. fragment_of (rx_txSeqNum t) data i (store s p))
        (s\<lparr>cluster := (cluster s)\<lparr>IotThrInFifo := f\<rparr>\<rparr>)))
    \<and> fifo_repr cap f qs \<and> rx_at t' data (Suc i) \<and> rx_pc t' = RxPut \<and> rx_dataPayLoad t' = p
    \<and> rx_txSeqNum t' = rx_txSeqNum t \<and> (0 < rx_res t' \<longleftrightarrow> Suc i < fragment_count (length data))"
proof -
  obtain f where f: "Fifo_get (IotThrInFifo (cluster s)) (rx_dataPayLoad t) = Some (f, 0, p)" "fifo_repr cap f qs"
    using Fifo_get_repr [OF q] by blast
  obtain t' where t': "iot_rx_fill t (store s p) = Inr (t', fragment_of (rx_txSeqNum t) data i (store s p))"
    "rx_at t' data (Suc i)" "rx_txSeqNum t' = rx_txSeqNum t" "0 < rx_res t' \<longleftrightarrow> Suc i < fragment_count (length data)"
    using iot_rx_fill_eq [OF at i, of "store s p"] by (elim exE conjE) (rule that; assumption)
  let ?t = "t'\<lparr>rx_dataPayLoad := p, rx_pc := RxPut\<rparr>"
  have "iot_rx_get t s = Some (Inr (?t, store_upd p (\<lambda>_. fragment_of (rx_txSeqNum t) data i (store s p))
        (s\<lparr>cluster := (cluster s)\<lparr>IotThrInFifo := f\<rparr>\<rparr>)))"
    unfolding iot_rx_get_def f(1) using p by (simp add: t'(1))
  moreover have "rx_at ?t data (Suc i)" using t'(2) by (simp only: rx_at_upd)
  moreover have "rx_txSeqNum ?t = rx_txSeqNum t" "0 < rx_res ?t \<longleftrightarrow> Suc i < fragment_count (length data)"
    using t'(3,4) by simp_all
  ultimately show ?thesis using f(2)
    by (intro exI [of _ ?t] exI [of _ f] conjI) simp_all
qed

lemma iot_rx_put_eq:
  assumes "fifo_repr cap (IotThrOutFifo (cluster s)) qs" "length qs < cap"
  shows "\<exists>f. iot_rx_put t s = Some (t\<lparr>rx_pc := if 0 < rx_res t then RxGet else RxWait\<rparr>,
      s\<lparr>cluster := (cluster s)\<lparr>IotThrOutFifo := f\<rparr>, ctl := if 0 < rx_res t then ctl s
        else (ctl s)\<lparr>stats := update_stats_pkts_recv 1 (stats (ctl s))\<rparr>\<rparr>)
    \<and> fifo_repr cap f (qs @ [rx_dataPayLoad t])"
  using Fifo_put_repr [OF assms, of "rx_dataPayLoad t"] by (auto simp: iot_rx_put_def Let_def)


section \<open>The thread undisturbed\<close>

text \<open>One buffer: taken, filled, queued.\<close>

lemma iot_rx_run_round:
  assumes "rx_pc t = RxGet" "rx_at t data i" "i < fragment_count (length data)"
    and "fifo_repr cap (IotThrInFifo (cluster s)) (p # fs)" "p \<noteq> NULL"
    and "fifo_repr cap' (IotThrOutFifo (cluster s)) os" "length os < cap'"
  shows "\<exists>t' s'. iot_rx_run t s = iot_rx_run t' s' \<and> rx_at t' data (Suc i) \<and> rx_txSeqNum t' = rx_txSeqNum t
    \<and> rx_pc t' = (if Suc i < fragment_count (length data) then RxGet else RxWait)
    \<and> fifo_repr cap (IotThrInFifo (cluster s')) fs \<and> fifo_repr cap' (IotThrOutFifo (cluster s')) (os @ [p])
    \<and> store s' = (store s)(p := fragment_of (rx_txSeqNum t) data i (store s p))"
proof -
  from iot_rx_get_eq [OF assms(2,3), of cap s p fs] assms(4,5) obtain t1 f where
    g: "iot_rx_get t s = Some (Inr (t1, store_upd p (\<lambda>_. fragment_of (rx_txSeqNum t) data i (store s p))
        (s\<lparr>cluster := (cluster s)\<lparr>IotThrInFifo := f\<rparr>\<rparr>)))" "fifo_repr cap f fs"
      "rx_at t1 data (Suc i)" "rx_pc t1 = RxPut" "rx_dataPayLoad t1 = p" "rx_txSeqNum t1 = rx_txSeqNum t"
      "0 < rx_res t1 \<longleftrightarrow> Suc i < fragment_count (length data)" by auto
  let ?s1 = "store_upd p (\<lambda>_. fragment_of (rx_txSeqNum t) data i (store s p))
        (s\<lparr>cluster := (cluster s)\<lparr>IotThrInFifo := f\<rparr>\<rparr>)"
  have "fifo_repr cap' (IotThrOutFifo (cluster ?s1)) os" using assms(6) by (simp add: store_upd_def)
  from iot_rx_put_eq [OF this assms(7), of t1] obtain h s2 where
    h: "iot_rx_put t1 ?s1 = Some (t1\<lparr>rx_pc := if 0 < rx_res t1 then RxGet else RxWait\<rparr>, s2)"
      "store s2 = store ?s1" "IotThrInFifo (cluster s2) = f" "IotThrOutFifo (cluster s2) = h"
      "fifo_repr cap' h (os @ [p])"
    using g(5) by (auto simp: store_upd_def)
  let ?t2 = "t1\<lparr>rx_pc := if 0 < rx_res t1 then RxGet else RxWait\<rparr>"
  have "iot_rx_run t s = iot_rx_run t1 ?s1"
    by (subst iot_rx_run.simps) (simp only: assms(1) g(1) rx_pc.case option.case sum.case fst_conv snd_conv)
  also have "\<dots> = iot_rx_run ?t2 s2"
    by (subst iot_rx_run.simps) (simp only: g(4) h(1) rx_pc.case option.case fst_conv snd_conv)
  finally have "iot_rx_run t s = iot_rx_run ?t2 s2" .
  moreover have "store s2 = (store s)(p := fragment_of (rx_txSeqNum t) data i (store s p))"
    by (simp add: h(2) store_upd_def)
  moreover have "rx_at ?t2 data (Suc i)" using g(3) by (simp add: rx_at_def)
  ultimately show ?thesis using g(2,6,7) h(3-5) by (intro exI [of _ ?t2] exI [of _ s2]) simp
qed

lemma iot_rx_run_fragments:
  assumes "rx_pc t = RxGet" "rx_at t data i" "ps \<noteq> []" "i + length ps = fragment_count (length data)"
    and "fifo_repr cap (IotThrInFifo (cluster s)) (ps @ fs)" "NULL \<notin> set ps" "distinct ps"
    and "fifo_repr cap' (IotThrOutFifo (cluster s)) os" "length os + length ps \<le> cap'"
  shows "\<exists>t' s'. iot_rx_run t s = Some (Inr (t', s')) \<and> rx_pc t' = RxWait \<and> rx_txSeqNum t' = rx_txSeqNum t
    \<and> fifo_repr cap (IotThrInFifo (cluster s')) fs \<and> fifo_repr cap' (IotThrOutFifo (cluster s')) (os @ ps)
    \<and> (\<forall>k<length ps. store s' (ps ! k) = fragment_of (rx_txSeqNum t) data (i + k) (store s (ps ! k)))
    \<and> (\<forall>p. p \<notin> set ps \<longrightarrow> store s' p = store s p)"
  using assms
proof (induction ps arbitrary: t s i os)
  case Nil
  then show ?case by simp
next
  case (Cons p ps)
  from iot_rx_run_round [OF Cons.prems(1,2), of cap s p "ps @ fs" cap' os] Cons.prems(4-6,8,9) obtain t2 s2 where
    r: "iot_rx_run t s = iot_rx_run t2 s2" "rx_at t2 data (Suc i)" "rx_txSeqNum t2 = rx_txSeqNum t"
      "rx_pc t2 = (if Suc i < fragment_count (length data) then RxGet else RxWait)"
      "fifo_repr cap (IotThrInFifo (cluster s2)) (ps @ fs)" "fifo_repr cap' (IotThrOutFifo (cluster s2)) (os @ [p])"
      "store s2 = (store s)(p := fragment_of (rx_txSeqNum t) data i (store s p))" by auto
  show ?case
  proof (cases "ps = []")
    case True
    then have "rx_pc t2 = RxWait" using r(4) Cons.prems(4) by simp
    moreover from this have "iot_rx_run t2 s2 = Some (Inr (t2, s2))" by (subst iot_rx_run.simps) simp
    ultimately show ?thesis using r True by auto
  next
    case False
    then have "rx_pc t2 = RxGet" using r(4) Cons.prems(4) by (cases ps) auto
    from Cons.IH [OF this r(2) False _ r(5) _ _ r(6)] Cons.prems(4,6,7,9) obtain t' s' where
      IH: "iot_rx_run t2 s2 = Some (Inr (t', s'))" "rx_pc t' = RxWait" "rx_txSeqNum t' = rx_txSeqNum t"
        "fifo_repr cap (IotThrInFifo (cluster s')) fs" "fifo_repr cap' (IotThrOutFifo (cluster s')) (os @ p # ps)"
        "\<And>k. k < length ps \<Longrightarrow> store s' (ps ! k) = fragment_of (rx_txSeqNum t) data (Suc i + k) (store s2 (ps ! k))"
        "\<And>q. q \<notin> set ps \<Longrightarrow> store s' q = store s2 q"
      using r(3) by auto
    have p: "p \<notin> set ps" using Cons.prems(7) by simp
    have "store s' ((p # ps) ! k) = fragment_of (rx_txSeqNum t) data (i + k) (store s ((p # ps) ! k))"
      if "k < length (p # ps)" for k
    proof (cases k)
      case 0
      with IH(7) [OF p] r(7) show ?thesis by simp
    next
      case (Suc k')
      then have "ps ! k' \<noteq> p" using p that by (metis Suc_less_eq length_Cons nth_mem)
      with Suc IH(6) [of k'] that r(7) show ?thesis by simp
    qed
    with r(1,7) IH(1-5,7) show ?thesis by auto
  qed
qed


lemma iot_rx_recv_data:
  assumes "data \<noteq> []" "length data \<le> 1500" "length (rxPayLoad t) = 1500" "\<not> service_disabled (ctl s)"
  shows "\<exists>t1. iot_rx_recv (Some (from, data)) eagain t s = (t1, s\<lparr>IOTSocket := (IOTSocket s)\<lparr>sk_addr := from\<rparr>\<rparr>)
    \<and> rx_at t1 data 0 \<and> rx_pc t1 = RxGet \<and> rx_txSeqNum t1 = rx_txSeqNum t + 1"
proof -
  let ?t1 = "t\<lparr>rxPayLoad := mem_write (rxPayLoad t) 0 data, rx_txSeqNum := rx_txSeqNum t + 1, rx_pc := RxGet,
      rx_res := length data, rx_frgmnts := fragment_count (length data), rx_frgmntIdx := 0, rx_dataPtr := 0\<rparr>"
  have "iot_rx_recv (Some (from, data)) eagain t s = (?t1, s\<lparr>IOTSocket := (IOTSocket s)\<lparr>sk_addr := from\<rparr>\<rparr>)"
    using assms(1,2,4) by (simp add: iot_rx_recv_def udp_recv_def NET_PACKET_SIZE_def min_def Let_def)
  moreover have "rx_at ?t1 data 0" using assms(2) by (simp add: rx_at_def take_mem_write_0)
  ultimately show ?thesis by (intro exI [of _ ?t1]) simp
qed

lemma iot_receive_fragments_run:
  assumes "data \<noteq> []" "length data \<le> 1500" "length (rxPayLoad t) = 1500" "rx_pc t = RxWait"
    and "\<not> service_disabled (ctl s)" "length ps = fragment_count (length data)"
    and "fifo_repr cap (IotThrInFifo (cluster s)) (ps @ fs)" "NULL \<notin> set ps" "distinct ps"
    and "fifo_repr cap' (IotThrOutFifo (cluster s)) os" "length os + length ps \<le> cap'"
  shows "\<exists>t1 s1 t' s'. iot_rx_recv (Some (from, data)) eagain t s = (t1, s1)
    \<and> iot_rx_run t1 s1 = Some (Inr (t', s')) \<and> rx_pc t' = RxWait \<and> rx_txSeqNum t' = rx_txSeqNum t + 1
    \<and> fifo_repr cap (IotThrInFifo (cluster s')) fs \<and> fifo_repr cap' (IotThrOutFifo (cluster s')) (os @ ps)
    \<and> (\<forall>k<length ps. store s' (ps ! k) = fragment_of (rx_txSeqNum t + 1) data k (store s (ps ! k)))
    \<and> (\<forall>p. p \<notin> set ps \<longrightarrow> store s' p = store s p)"
proof -
  let ?s1 = "s\<lparr>IOTSocket := (IOTSocket s)\<lparr>sk_addr := from\<rparr>\<rparr>"
  from iot_rx_recv_data [OF assms(1-3,5)] obtain t1 where
    t1: "iot_rx_recv (Some (from, data)) eagain t s = (t1, ?s1)" "rx_at t1 data 0" "rx_pc t1 = RxGet"
      "rx_txSeqNum t1 = rx_txSeqNum t + 1" by blast
  have "ps \<noteq> []" using assms(1,6) fragment_count_simps(3) [of "length data"] by auto
  moreover have "0 + length ps = fragment_count (length data)"
    "fifo_repr cap (IotThrInFifo (cluster ?s1)) (ps @ fs)" "fifo_repr cap' (IotThrOutFifo (cluster ?s1)) os"
    using assms by simp_all
  ultimately obtain t' s' where "iot_rx_run t1 ?s1 = Some (Inr (t', s'))" "rx_pc t' = RxWait"
      "rx_txSeqNum t' = rx_txSeqNum t1" "fifo_repr cap (IotThrInFifo (cluster s')) fs"
      "fifo_repr cap' (IotThrOutFifo (cluster s')) (os @ ps)"
      "\<forall>k<length ps. store s' (ps ! k) = fragment_of (rx_txSeqNum t1) data (0 + k) (store ?s1 (ps ! k))"
      "\<forall>p. p \<notin> set ps \<longrightarrow> store s' p = store ?s1 p"
    using iot_rx_run_fragments [OF t1(3,2) _ _ _ assms(8,9) _ assms(11)] by blast
  then show ?thesis using t1(1,4) by (intro exI [of _ t1] exI [of _ ?s1] exI [of _ t'] exI [of _ s']) simp
qed

text \<open>
  C6: A datagram of 1 to 1500 bytes that arrives while enough free buffers are
  queued: the thread takes one buffer per 60 bytes, fills them with the fragments in order,
  numbered from 0 under a new sequence number, queues them towards Fusion, touches no other
  buffer and is ready for the next datagram.
\<close>

theorem iot_receive_fragments:
  assumes "data \<noteq> []" "length data \<le> 1500" "length (rxPayLoad t) = 1500" "rx_pc t = RxWait"
    and "\<not> service_disabled (ctl s)" "length ps = fragment_count (length data)"
    and "fifo_repr cap (IotThrInFifo (cluster s)) (ps @ fs)" "NULL \<notin> set ps" "distinct ps"
    and "fifo_repr cap' (IotThrOutFifo (cluster s)) os" "length os + length ps \<le> cap'"
  shows "\<exists>t1 s1 t' s'. iot_rx_recv (Some (from, data)) eagain t s = (t1, s1)
    \<and> iot_rx_run t1 s1 = Some (Inr (t', s')) \<and> rx_pc t' = RxWait \<and> rx_txSeqNum t' = rx_txSeqNum t + 1
    \<and> fifo_repr cap (IotThrInFifo (cluster s')) fs \<and> fifo_repr cap' (IotThrOutFifo (cluster s')) (os @ ps)
    \<and> (\<forall>k<length ps. store s' (ps ! k) = fragment_of (rx_txSeqNum t + 1) data k (store s (ps ! k)))
    \<and> (\<forall>p. p \<notin> set ps \<longrightarrow> store s' p = store s p)"
  by (rule iot_receive_fragments_run [OF assms])

text \<open>A state with three free buffers, and the thread before its first datagram.\<close>

definition cluster_3 :: Fifo_Cluster where
  "cluster_3 = cluster_example\<lparr>IotThrInFifo := \<lparr> numBufs = 3, waitSize = 0, flushing = False,
     pipe = ptrs_bytes [100, 200, 300], pipe_size = 65536 \<rparr>\<rparr>"

definition service_3 :: service where
  "service_3 = \<lparr> store = (\<lambda>_. zero_Msg_Buf), ListHead = NULL, ListTail = NULL, cluster = cluster_3,
     rudp = idle_state, ctl = \<lparr> service_disabled = False, stats = zero_stats \<rparr>,
     IOTSocket = \<lparr> sk_port = 8080, sockFD = 3, sk_addr = zero_addr, sockOption = 1 \<rparr>, sockTx = True \<rparr>"

definition iot_rx_0 :: iot_rx where
  "iot_rx_0 = \<lparr> rx_pc = RxWait, rxPayLoad = replicate 1500 0, rx_res = 0, rx_frgmnts = 0, rx_frgmntIdx = 0,
     rx_dataPtr = 0, rx_txSeqNum = 0, rx_dataPayLoad = NULL \<rparr>"

lemma cluster_3_repr: "fifo_repr 8192 (IotThrInFifo (cluster service_3)) ([100, 200] @ [300])"
  "fifo_repr 8192 (IotThrOutFifo (cluster service_3)) []"
  by (simp_all add: fifo_repr_def service_3_def cluster_3_def cluster_example_def Let_def)

theorem iot_receive_fragments_witness:
  "\<exists>t1 s1 t' s'. iot_rx_recv (Some (zero_addr, replicate 70 9)) False iot_rx_0 service_3 = (t1, s1)
    \<and> iot_rx_run t1 s1 = Some (Inr (t', s')) \<and> rx_pc t' = RxWait \<and> rx_txSeqNum t' = rx_txSeqNum iot_rx_0 + 1
    \<and> fifo_repr 8192 (IotThrInFifo (cluster s')) [300] \<and> fifo_repr 8192 (IotThrOutFifo (cluster s')) ([] @ [100, 200])
    \<and> (\<forall>k<length [100 :: ptr, 200]. store s' ([100, 200] ! k)
         = fragment_of (rx_txSeqNum iot_rx_0 + 1) (replicate 70 9) k (store service_3 ([100, 200] ! k)))
    \<and> (\<forall>p. p \<notin> set [100, 200] \<longrightarrow> store s' p = store service_3 p)"
  by (rule iot_receive_fragments [OF _ _ _ _ _ _ cluster_3_repr(1) _ _ cluster_3_repr(2)])
    (simp_all add: iot_rx_0_def service_3_def fragment_count_def MAX_MSG_SIZE_def)

section \<open>On the wire\<close>

text \<open>What \<open>fusion_transmit_routine\<close> and \<open>handle_lost_request\<close> send of a buffer.\<close>

definition wire :: "Msg_Buf \<Rightarrow> byte list" where
  "wire m = take (unat (m_msgLen m) + sizeof_Msg_Header) (Msg_Buf_bytes m)"

text \<open>What \<open>fusion_receive_routine\<close> copies into a buffer when a datagram arrives.\<close>

definition received :: "Msg_Buf \<Rightarrow> byte list \<Rightarrow> Msg_Buf" where
  "received payload bs =
     (Msg_Buf_of_bytes (mem_write (Msg_Buf_bytes payload) 0 (take sizeof_Msg_Buf bs)))
       \<lparr>m_msgLen := of_int (int (min sizeof_Msg_Buf (length bs)) - int sizeof_Msg_Header)\<rparr>"

lemma sendto_wire: "wf_Msg_Buf m \<Longrightarrow> unat (m_msgLen m) \<le> 60 \<Longrightarrow>
    sendto (Msg_Buf_bytes m) (unat (m_msgLen m) + sizeof_Msg_Header) = Inr (wire m)"
  by (simp add: sendto_def wire_def bytes_simps sizeofs)

lemma wire_eq: "wf_Msg_Buf m \<Longrightarrow> unat (m_msgLen m) \<le> 60 \<Longrightarrow>
    wire m = Msg_Header_bytes (msgHeader m) @ chunk_of m"
  by (simp add: wire_def Msg_Buf_bytes_def chunk_of_def sizeofs wf_Msg_Buf_def pkt_consts)

lemma of_int_unat: "of_int (int (unat (w :: u16))) = w"
  by simp

text \<open>A message survives the wire: header, length and data are those sent.\<close>

lemma received_wire:
  assumes m: "wf_Msg_Buf m" "unat (m_msgLen m) \<le> 60" and old: "wf_Msg_Buf payload"
  shows "wf_Msg_Buf (received payload (wire m))" "msgHeader (received payload (wire m)) = msgHeader m"
    "m_msgLen (received payload (wire m)) = m_msgLen m" "chunk_of (received payload (wire m)) = chunk_of m"
proof -
  let ?n = "unat (m_msgLen m)"
  have ck: "length (chunk_of m) = ?n" using m by (simp add: chunk_of_def wf_Msg_Buf_def pkt_consts)
  have w: "wire m = Msg_Header_bytes (msgHeader m) @ chunk_of m" "length (wire m) = ?n + 3"
    using wire_eq [OF m] ck by simp_all
  define raw where "raw = mem_write (Msg_Buf_bytes payload) 0 (wire m)"
  have lp: "length (Msg_Buf_bytes payload) = 99" using old by (simp add: bytes_simps sizeofs)
  have raw: "raw = Msg_Header_bytes (msgHeader m) @ chunk_of m @ drop (?n + 3) (Msg_Buf_bytes payload)"
    by (simp add: raw_def mem_write_def w ck add.commute)
  have len: "length raw = sizeof_Msg_Buf"
    unfolding raw using ck lp m(2) by (simp add: sizeofs)
  have r: "received payload (wire m) = (Msg_Buf_of_bytes raw)\<lparr>m_msgLen := m_msgLen m\<rparr>"
    using w(2) m(2) of_int_unat [of "m_msgLen m"] by (simp add: received_def raw_def sizeofs)
  show "wf_Msg_Buf (received payload (wire m))"
    using wf_Msg_Buf_of_bytes [OF len] unfolding r by (simp add: wf_Msg_Buf_def)
  show "msgHeader (received payload (wire m)) = msgHeader m"
    unfolding r by (simp add: Msg_Buf_of_bytes_def Msg_Header_of_bytes_take) (simp add: raw Msg_Header_roundtrip)
  show "m_msgLen (received payload (wire m)) = m_msgLen m" unfolding r by simp
  have "take ?n (take 60 (drop 3 raw)) = chunk_of m"
    using ck m(2) by (simp add: raw min_absorb1)
  then show "chunk_of (received payload (wire m)) = chunk_of m"
    unfolding r by (simp add: chunk_of_def Msg_Buf_of_bytes_def)
qed


section \<open>The steps of the threads\<close>

lemma fusion_header_simps [simp]:
  "wf_Msg_Buf (fusion_header m) = wf_Msg_Buf m" "m_msgLen (fusion_header m) = m_msgLen m"
  "m_data (fusion_header m) = m_data m" "chunk_of (fusion_header m) = chunk_of m"
  by (simp_all add: fusion_header_def wf_Msg_Buf_def chunk_of_def)

lemma fusion_tx_get_eq:
  assumes "fifo_repr cap (IotThrOutFifo (cluster s)) (p # qs)" "p \<noteq> NULL"
    and "wf_Msg_Buf (store s p)" "unat (m_msgLen (store s p)) \<le> 60"
  shows "\<exists>f. fusion_tx_get t s = Some (Inr (t\<lparr>ft_rxMsgBufPtr := p, ft_pc := FtPush\<rparr>,
      store_upd p fusion_header (s\<lparr>cluster := (cluster s)\<lparr>IotThrOutFifo := f\<rparr>\<rparr>),
      [ToFusion (wire (fusion_header (store s p)))])) \<and> fifo_repr cap f qs"
  using Fifo_get_repr [OF assms(1), of "ft_rxMsgBufPtr t"] assms(2-4) sendto_wire [of "fusion_header (store s p)"]
  by (auto simp: fusion_tx_get_def Let_def)

lemma fusion_rx_recv_data:
  assumes "bs \<noteq> []" "h_msgCode (msgHeader (received (rxMsgPayload t) bs)) \<noteq> MSG_CODE_REQUEST_FRAG"
  shows "\<exists>m. fusion_rx_recv (Some bs) t s = Some (t\<lparr>rxMsgPayload := m, fr_res := min sizeof_Msg_Buf (length bs), fr_pc := FrGet\<rparr>, s)
    \<and> m\<lparr>m_msgLen := of_int (int (min sizeof_Msg_Buf (length bs)) - int sizeof_Msg_Header)\<rparr> = received (rxMsgPayload t) bs"
  using assms
  by (intro exI [of _ "Msg_Buf_of_bytes (mem_write (Msg_Buf_bytes (rxMsgPayload t)) 0 (take sizeof_Msg_Buf bs))"])
    (simp add: fusion_rx_recv_def received_def Let_def)

lemma fusion_rx_get_eq:
  fixes t :: fusion_rx
  assumes "fifo_repr cap (fusionThrInFifo (cluster s)) (p # qs)" "p \<noteq> NULL"
  defines "m \<equiv> (rxMsgPayload t)\<lparr>m_msgLen := of_int (int (fr_res t) - int sizeof_Msg_Header)\<rparr>"
  shows "\<exists>f. fusion_rx_get t s = Some (Inr (t\<lparr>rxMsgPayload := m, fr_rxMsgBufPtr := p, pkt_drop_count := pkt_drop_count t + 1,
        fr_pc := if sint (pkt_drop_count t) mod 13 \<noteq> 0 then FrPut else FrRecv\<rparr>,
      store_upd p (\<lambda>_. m) (s\<lparr>cluster := (cluster s)\<lparr>fusionThrInFifo := f\<rparr>\<rparr>)))
    \<and> fifo_repr cap f qs"
  using Fifo_get_repr [OF assms(1), of "fr_rxMsgBufPtr t"] assms(2)
  by (auto simp: fusion_rx_get_def Let_def m_def)

text \<open>
  What \<open>fusion_transmit_routine\<close> sends of a queued fragment, received by
  \<open>fusion_receive_routine\<close>, ends in a buffer of the receiver with the same header, length and
  data, whatever earlier datagrams left in the receiver's stack buffer.
\<close>

theorem message_crosses_wire:
  assumes "fifo_repr cap (IotThrOutFifo (cluster s)) (p # qs)" "p \<noteq> NULL"
    and "wf_Msg_Buf (store s p)" "unat (m_msgLen (store s p)) \<le> 60"
    and "fifo_repr cap' (fusionThrInFifo (cluster r)) (b # bs)" "b \<noteq> NULL" "wf_Msg_Buf (rxMsgPayload u)"
  shows "\<exists>t' s' d u1 u2 r2. fusion_tx_get t s = Some (Inr (t', s', [ToFusion d]))
    \<and> fusion_rx_recv (Some d) u r = Some (u1, r) \<and> fusion_rx_get u1 r = Some (Inr (u2, r2))
    \<and> wf_Msg_Buf (store r2 b) \<and> msgHeader (store r2 b) = msgHeader (fusion_header (store s p))
    \<and> m_msgLen (store r2 b) = m_msgLen (store s p) \<and> chunk_of (store r2 b) = chunk_of (store s p)
    \<and> wf_Msg_Buf (rxMsgPayload u2)"
proof -
  let ?m = "fusion_header (store s p)"
  have m: "wf_Msg_Buf ?m" "unat (m_msgLen ?m) \<le> 60" using assms(3,4) by simp_all
  note rw = received_wire [OF m assms(7)]
  from fusion_tx_get_eq [OF assms(1-4), of t] obtain t' s' where
    tx: "fusion_tx_get t s = Some (Inr (t', s', [ToFusion (wire ?m)]))" by blast
  have "3 \<le> length (wire ?m)" by (simp add: wire_eq [OF m])
  then have ne: "wire ?m \<noteq> []" by auto
  have "h_msgCode (msgHeader (received (rxMsgPayload u) (wire ?m))) \<noteq> MSG_CODE_REQUEST_FRAG"
    unfolding rw(2) by (simp add: fusion_header_def pkt_consts)
  from fusion_rx_recv_data [OF ne this, of r] obtain u1 where
    rv: "fusion_rx_recv (Some (wire ?m)) u r = Some (u1, r)"
      "(rxMsgPayload u1)\<lparr>m_msgLen := of_int (int (fr_res u1) - int sizeof_Msg_Header)\<rparr> = received (rxMsgPayload u) (wire ?m)"
    by auto
  from fusion_rx_get_eq [OF assms(5,6), of u1, unfolded rv(2)] obtain u2 r2 where
    g: "fusion_rx_get u1 r = Some (Inr (u2, r2))" "store r2 b = received (rxMsgPayload u) (wire ?m)"
      "rxMsgPayload u2 = received (rxMsgPayload u) (wire ?m)" by (auto simp: store_upd_def)
  from tx rv(1) g(1) show ?thesis
    using rw by (intro exI [of _ t'] exI [of _ s'] exI [of _ "wire ?m"] exI [of _ u1] exI [of _ u2] exI [of _ r2])
      (simp add: g(2,3))
qed

text \<open>A queue with one pointer, and a service with one fragment to send and one buffer to receive into.\<close>

definition one_pointer :: "ptr \<Rightarrow> fifo_descriptor" where
  "one_pointer p = \<lparr> numBufs = 1, waitSize = 0, flushing = False, pipe = ptrs_bytes [p], pipe_size = 65536 \<rparr>"

definition service_11 :: service where
  "service_11 = service_3\<lparr>store := (\<lambda>_. mk_fragment 0 0 1 [5, 6]),
     cluster := cluster_example\<lparr>IotThrOutFifo := one_pointer 100, fusionThrInFifo := one_pointer 200\<rparr>\<rparr>"

lemma one_pointer_repr: "fifo_repr 8192 (one_pointer p) [p]"
  by (simp add: fifo_repr_def one_pointer_def)

theorem message_crosses_wire_witness:
  "\<exists>t' s' d u1 u2 r2. fusion_tx_get \<lparr> ft_pc = FtGet, ft_rxMsgBufPtr = NULL \<rparr> service_11 = Some (Inr (t', s', [ToFusion d]))
    \<and> fusion_rx_recv (Some d) \<lparr> fr_pc = FrRecv, fr_rxMsgBufPtr = NULL, rxMsgPayload = zero_Msg_Buf, fr_res = 0,
        fr_pkt = NULL, pkt_drop_count = 0 \<rparr> service_11 = Some (u1, service_11)
    \<and> fusion_rx_get u1 service_11 = Some (Inr (u2, r2))
    \<and> wf_Msg_Buf (store r2 200) \<and> msgHeader (store r2 200) = msgHeader (fusion_header (store service_11 100))
    \<and> m_msgLen (store r2 200) = m_msgLen (store service_11 100) \<and> chunk_of (store r2 200) = chunk_of (store service_11 100)
    \<and> wf_Msg_Buf (rxMsgPayload u2)"
proof (rule message_crosses_wire)
  show "fifo_repr 8192 (IotThrOutFifo (cluster service_11)) [100]" "fifo_repr 8192 (fusionThrInFifo (cluster service_11)) [200]"
    by (simp_all add: service_11_def one_pointer_repr)
qed (simp_all add: service_11_def mk_fragment_simps)

section \<open>End to end\<close>

lemma seq_mask: "unat (ucast ((tx :: u8) AND SEQ_MASK) :: 4 word) = unat tx mod 16"
proof -
  have "tx AND SEQ_MASK = take_bit 4 tx" by (simp add: SEQ_MASK_def take_bit_eq_mask mask_eq_exp_minus_1)
  then have "(ucast (tx AND SEQ_MASK) :: 4 word) = ucast tx"
    by (simp only:) (rule bit_word_eqI, auto simp: bit_simps)
  then show ?thesis by (simp add: unsigned_ucast_eq take_bit_eq_mod)
qed

text \<open>Fragment \<open>i\<close> as it was sent or, with the other code, as it is sent again on request.\<close>

definition sent_fragment :: "bool \<Rightarrow> u8 \<Rightarrow> byte list \<Rightarrow> nat \<Rightarrow> Msg_Buf \<Rightarrow> Msg_Buf" where
  "sent_fragment again tx data i m = (let m' = fusion_header (fragment_of tx data i m)
     in if again then m'\<lparr>msgHeader := (msgHeader m')\<lparr>h_msgCode := MSG_CODE_REPLY_FRAG\<rparr>\<rparr> else m')"

lemma sent_fragment_carries:
  assumes i: "i < fragment_count (length data)" and L: "length data \<le> 1500" and m: "wf_Msg_Buf m"
  shows "carries (unat tx mod 16) (chunks data) (sent_fragment again tx data i m)"
    "unat (m_msgLen (sent_fragment again tx data i m)) \<le> 60" "msg_idx (sent_fragment again tx data i m) = i"
proof -
  let ?c = "chunks data ! i" and ?m = "sent_fragment again tx data i m"
  have n: "fragment_count (length data) \<le> 25" by (rule fragment_count_le [OF L])
  have c: "length ?c \<le> 60" using i by (simp add: length_chunks_nth)
  have len: "unat (of_nat (length ?c) :: u16) = length ?c" by (rule unat_of_nat_small) (use c in simp)
  have u: "unat (of_nat i :: 5 word) = i"
    "unat (of_nat (fragment_count (length data)) :: 5 word) = fragment_count (length data)"
    using i n by (simp_all add: unat_of_nat_small)
  have h: "m_msgLen ?m = of_nat (length ?c)" "m_data ?m = mem_write (replicate 60 0) 0 ?c"
    "wf_Msg_Buf ?m" "msg_idx ?m = i" "msg_cnt ?m = fragment_count (length data)" "msg_seq ?m = unat tx mod 16"
    using m c u by (simp_all add: sent_fragment_def Let_def fusion_header_def fragment_of_def wf_Msg_Buf_def
        MAX_MSG_SIZE_def bytes_simps seq_mask)
  have "chunk_of ?m = ?c" by (simp add: chunk_of_def h(1,2) len take_mem_write_0)
  then show "carries (unat tx mod 16) (chunks data) ?m"
    using i by (simp add: carries_def h len)
  show "unat (m_msgLen ?m) \<le> 60" using c by (simp add: h(1) len)
  show "msg_idx ?m = i" by (rule h(4))
qed

lemma received_sent_fragment:
  assumes "i < fragment_count (length data)" "length data \<le> 1500" "wf_Msg_Buf m" "wf_Msg_Buf payload"
  shows "carries (unat tx mod 16) (chunks data) (received payload (wire (sent_fragment again tx data i m)))"
    "msg_idx (received payload (wire (sent_fragment again tx data i m))) = i"
proof -
  let ?m = "sent_fragment again tx data i m"
  note f = sent_fragment_carries [OF assms(1-3), where tx = tx and again = again]
  have wf: "wf_Msg_Buf ?m" using f(1) by (simp add: carries_def)
  note r = received_wire [OF wf f(2) assms(4)]
  show "carries (unat tx mod 16) (chunks data) (received payload (wire ?m))"
    using f(1) unfolding carries_def r(2-4) by (simp add: r(1))
  show "msg_idx (received payload (wire ?m)) = i" using f(3) unfolding r(2) .
qed

text \<open>
  A datagram of 1 to 1500 bytes whose sequence number has a slot at the
  receiver: its fragments, cut, sent, received in any order and each as original or as
  retransmission, make the receiving side send exactly that datagram to its device, once.
\<close>

theorem datagram_end_to_end:
  assumes "data \<noteq> []" "length data \<le> 1500" "unat tx mod 16 < 4"
    and "rudp_rel st A" "A (unat tx mod 16) = []"
    and "distinct is" "set is = {0..<fragment_count (length data)}"
    and "\<forall>i. wf_Msg_Buf (buffer i)" "\<forall>i. wf_Msg_Buf (payload i)"
  shows "\<exists>st'. iot_deliver_all
      (map (\<lambda>i. (env i, received (payload i) (wire (sent_fragment (again i) tx data i (buffer i))))) is) st
      = Inr (st', [data]) \<and> rudp_rel st' A"
proof -
  let ?r = "\<lambda>i. received (payload i) (wire (sent_fragment (again i) tx data i (buffer i)))"
  let ?ms = "map (\<lambda>i. (env i, ?r i)) is"
  have r: "carries (unat tx mod 16) (chunks data) (?r i) \<and> msg_idx (?r i) = i" if "i \<in> set is" for i
    using received_sent_fragment [where i = i and data = data and m = "buffer i" and payload = "payload i"
        and tx = tx and again = "again i"] that assms(2,7-9) by auto
  have idx: "map (msg_idx \<circ> snd) ?ms = is" by (rule nth_equalityI) (simp_all add: r)
  have "\<exists>st'. iot_deliver_all ?ms st = Inr (st', [concat (chunks data)]) \<and> rudp_rel st' A"
  proof (rule iot_deliver_all_packet [OF assms(4) packet_ok_chunks [OF assms(1,2)] assms(3,5)])
    show "\<forall>m \<in> snd ` set ?ms. carries (unat tx mod 16) (chunks data) m" using r by auto
    show "distinct (map (msg_idx \<circ> snd) ?ms)" using idx assms(6) by simp
    show "(msg_idx \<circ> snd) ` set ?ms = {0..<length (chunks data)}"
      by (simp only: set_map [symmetric] idx assms(7) length_chunks)
  qed
  then show ?thesis by (simp add: concat_chunks)
qed

theorem datagram_end_to_end_witness:
  "\<exists>st'. iot_deliver_all
      (map (\<lambda>i. (env_example, received zero_Msg_Buf (wire (sent_fragment (i = 1) 3 (replicate 100 7) i zero_Msg_Buf)))) [1, 0])
      idle_state = Inr (st', [replicate 100 7]) \<and> rudp_rel st' (\<lambda>_. [])"
  by (rule datagram_end_to_end [OF _ _ _ idle_rel])
    (auto simp: fragment_count_def MAX_MSG_SIZE_def)

end
