(* ===== verification/System.thy ===== *)
theory System
  imports Sender "HOL-Library.Multiset"
begin

text \<open>
  The threads of the service running together: a step of the system is a step of one thread
  from one blocking call to the next.  Datagrams arrive at any time and with any content, the
  clock and the scheduler are arbitrary.
\<close>

record system =
  sv :: service
  trx :: iot_rx
  ttx :: iot_tx
  tft :: fusion_tx
  tfr :: fusion_rx

section \<open>The background threads\<close>

text \<open>\<open>r_udp_routine\<close> sets the socket the replies go to and then frees the history each second.\<close>

definition r_udp_start :: "service \<Rightarrow> service" where
  "r_udp_start s = s\<lparr>sockTx := True\<rparr>"

definition r_udp_round :: "(nat \<Rightarrow> timeval) \<Rightarrow> service \<Rightarrow> (c_error + service) option" where
  "r_udp_round clock s =
     (case free_history clock 0 (cluster s) s of
        None \<Rightarrow> None
      | Some (Inl e) \<Rightarrow> Some (Inl e)
      | Some (Inr (cl, s')) \<Rightarrow> Some (Inr (s'\<lparr>cluster := cl\<rparr>)))"

text \<open>\<open>r_udp_req_routine\<close> sets the socket the requests go to and then drops old packets.\<close>

definition r_udp_req_start :: "service \<Rightarrow> service" where
  "r_udp_req_start s = s\<lparr>rudp := (rudp s)\<lparr>fusionSock := True\<rparr>\<rparr>"

definition r_udp_req_round :: "timeval \<Rightarrow> service \<Rightarrow> service" where
  "r_udp_req_round tm s = s\<lparr>rudp := r_udp_req_sweep tm (rudp s)\<rparr>"

definition control_round :: "control_answer \<Rightarrow> service \<Rightarrow> service" where
  "control_round a s =
     s\<lparr>ctl := fst (service_control_round (poll_rc a) (poll_err a) (poll_in a) (read_msg a) (reply_taken a) (ctl s))\<rparr>"

lemma rudp_store_upd [simp]: "rudp (store_upd p f s) = rudp s"
  by (simp add: store_upd_def)

section \<open>Steps of the system\<close>

text \<open>The six threads of \<open>start_udp_service\<close> and the one of the control socket.\<close>

datatype thread_id = IotReceive | IotTransmit | FusionTransmit | FusionReceive | RUdp | RUdpReq

datatype actor = Thread thread_id | ControlThread

inductive thread_step :: "actor \<Rightarrow> system \<Rightarrow> sent list \<Rightarrow> system \<Rightarrow> bool" where
  rx_recv: "rx_pc (trx S) = RxWait \<Longrightarrow> iot_rx_recv d eagain (trx S) (sv S) = (t, s)
    \<Longrightarrow> thread_step (Thread IotReceive) S [] (S\<lparr>trx := t, sv := s\<rparr>)"
| rx_get: "rx_pc (trx S) = RxGet \<Longrightarrow> iot_rx_get (trx S) (sv S) = Some (Inr (t, s))
    \<Longrightarrow> thread_step (Thread IotReceive) S [] (S\<lparr>trx := t, sv := s\<rparr>)"
| rx_put: "rx_pc (trx S) = RxPut \<Longrightarrow> iot_rx_put (trx S) (sv S) = Some (t, s)
    \<Longrightarrow> thread_step (Thread IotReceive) S [] (S\<lparr>trx := t, sv := s\<rparr>)"
| tx_get: "tx_pc (ttx S) = TxGet \<Longrightarrow> iot_tx_get (ttx S) (sv S) = Some (Inr (u, s))
    \<Longrightarrow> thread_step (Thread IotTransmit) S [] (S\<lparr>ttx := u, sv := s\<rparr>)"
| tx_lookup: "tx_pc (ttx S) = TxLookup \<Longrightarrow> iot_tx_lookup env (ttx S) (sv S) = Inr (u, s, out)
    \<Longrightarrow> thread_step (Thread IotTransmit) S out (S\<lparr>ttx := u, sv := s\<rparr>)"
| tx_store: "tx_pc (ttx S) = TxStore \<Longrightarrow> iot_tx_store env (ttx S) (sv S) = Inr (u, s, out)
    \<Longrightarrow> thread_step (Thread IotTransmit) S out (S\<lparr>ttx := u, sv := s\<rparr>)"
| tx_send: "tx_pc (ttx S) = TxSend \<Longrightarrow> iot_tx_send (ttx S) (sv S) = Inr (u, s, out)
    \<Longrightarrow> thread_step (Thread IotTransmit) S out (S\<lparr>ttx := u, sv := s\<rparr>)"
| tx_put: "tx_pc (ttx S) = TxPut \<Longrightarrow> iot_tx_put (ttx S) (sv S) = Some (u, s)
    \<Longrightarrow> thread_step (Thread IotTransmit) S [] (S\<lparr>ttx := u, sv := s\<rparr>)"
| ft_get: "ft_pc (tft S) = FtGet \<Longrightarrow> fusion_tx_get (tft S) (sv S) = Some (Inr (v, s, out))
    \<Longrightarrow> thread_step (Thread FusionTransmit) S out (S\<lparr>tft := v, sv := s\<rparr>)"
| ft_push: "ft_pc (tft S) = FtPush \<Longrightarrow> fusion_tx_push tm (tft S) (sv S) = (v, s)
    \<Longrightarrow> thread_step (Thread FusionTransmit) S [] (S\<lparr>tft := v, sv := s\<rparr>)"
| fr_recv: "fr_pc (tfr S) = FrRecv \<Longrightarrow> fusion_rx_recv bs (tfr S) (sv S) = Some (w, s)
    \<Longrightarrow> thread_step (Thread FusionReceive) S [] (S\<lparr>tfr := w, sv := s\<rparr>)"
| fr_reply: "fr_pc (tfr S) = FrReply \<Longrightarrow> fusion_rx_reply (tfr S) (sv S) = Inr (w, s, out)
    \<Longrightarrow> thread_step (Thread FusionReceive) S out (S\<lparr>tfr := w, sv := s\<rparr>)"
| fr_get: "fr_pc (tfr S) = FrGet \<Longrightarrow> fusion_rx_get (tfr S) (sv S) = Some (Inr (w, s))
    \<Longrightarrow> thread_step (Thread FusionReceive) S [] (S\<lparr>tfr := w, sv := s\<rparr>)"
| fr_put: "fr_pc (tfr S) = FrPut \<Longrightarrow> fusion_rx_put (tfr S) (sv S) = Some (w, s)
    \<Longrightarrow> thread_step (Thread FusionReceive) S [] (S\<lparr>tfr := w, sv := s\<rparr>)"
| r_udp_start: "thread_step (Thread RUdp) S [] (S\<lparr>sv := r_udp_start (sv S)\<rparr>)"
| r_udp: "r_udp_round clock (sv S) = Some (Inr s) \<Longrightarrow> thread_step (Thread RUdp) S [] (S\<lparr>sv := s\<rparr>)"
| r_udp_req_start: "thread_step (Thread RUdpReq) S [] (S\<lparr>sv := r_udp_req_start (sv S)\<rparr>)"
| r_udp_req: "thread_step (Thread RUdpReq) S [] (S\<lparr>sv := r_udp_req_round tm (sv S)\<rparr>)"
| control: "thread_step ControlThread S [] (S\<lparr>sv := control_round a (sv S)\<rparr>)"

inductive_cases thread_stepE: "thread_step i S out S'"

inductive sys_step :: "system \<Rightarrow> sent list \<Rightarrow> system \<Rightarrow> bool" where
  any: "thread_step i S out S' \<Longrightarrow> sys_step S out S'"

lemma sys_step_iff: "sys_step S out S' \<longleftrightarrow> (\<exists>i. thread_step i S out S')"
  by (auto intro: sys_step.intros elim: sys_step.cases)

inductive reachable :: "system \<Rightarrow> system \<Rightarrow> bool" for S0 where
  start: "reachable S0 S0"
| step: "reachable S0 S \<Longrightarrow> sys_step S out S' \<Longrightarrow> reachable S0 S'"

text \<open>The steps in which a thread would run into undefined behaviour.\<close>

definition sender_fault :: "system \<Rightarrow> bool" where
  "sender_fault S \<longleftrightarrow>
     (rx_pc (trx S) = RxGet \<and> (\<exists>e. iot_rx_get (trx S) (sv S) = Some (Inl e)))
     \<or> (ft_pc (tft S) = FtGet \<and> (\<exists>e. fusion_tx_get (tft S) (sv S) = Some (Inl e)))
     \<or> (fr_pc (tfr S) = FrReply \<and> (\<exists>e. fusion_rx_reply (tfr S) (sv S) = Inl e))
     \<or> (fr_pc (tfr S) = FrGet \<and> (\<exists>e. fusion_rx_get (tfr S) (sv S) = Some (Inl e)))
     \<or> (\<exists>clock e. r_udp_round clock (sv S) = Some (Inl e))"

section \<open>Who owns the buffers\<close>

abbreviation held_rx :: "iot_rx \<Rightarrow> ptr list" where
  "held_rx t \<equiv> (if rx_pc t = RxPut then [rx_dataPayLoad t] else [])"

abbreviation held_tx :: "iot_tx \<Rightarrow> ptr list" where
  "held_tx t \<equiv> (if tx_pc t = TxGet then [] else [tx_dataPayLoad t])"

abbreviation held_ft :: "fusion_tx \<Rightarrow> ptr list" where
  "held_ft t \<equiv> (if ft_pc t = FtPush then [ft_rxMsgBufPtr t] else [])"

abbreviation held_fr :: "fusion_rx \<Rightarrow> ptr list" where
  "held_fr t \<equiv> (if fr_pc t = FrPut then [fr_rxMsgBufPtr t] else [])"

text \<open>The four queues and the history hold these buffers.\<close>

definition queues :: "service \<Rightarrow> ptr list \<Rightarrow> ptr list \<Rightarrow> ptr list \<Rightarrow> ptr list \<Rightarrow> ptr list \<Rightarrow> bool" where
  "queues s ins outs fin fout hs \<longleftrightarrow>
     fifo_repr 8192 (IotThrInFifo (cluster s)) ins \<and> fifo_repr 8192 (IotThrOutFifo (cluster s)) outs
     \<and> fifo_repr 8192 (fusionThrInFifo (cluster s)) fin \<and> fifo_repr 8192 (fusionThrOutFifo (cluster s)) fout
     \<and> hist_repr s hs"

text \<open>
  Every buffer of the sending pool \<open>A\<close> and of the receiving pool \<open>B\<close> has exactly one owner; the
  lost ones are those of the dropped messages.
\<close>

definition owned :: "ptr list \<Rightarrow> ptr list \<Rightarrow> system \<Rightarrow> ptr list \<Rightarrow> ptr list \<Rightarrow> ptr list \<Rightarrow> ptr list \<Rightarrow> ptr list
    \<Rightarrow> ptr list \<Rightarrow> bool" where
  "owned A B S ins outs fin fout hs lost \<longleftrightarrow>
     mset A = mset ins + mset (held_rx (trx S)) + mset outs + mset (held_ft (tft S)) + mset hs
     \<and> mset B = mset fin + mset (held_fr (tfr S)) + mset fout + mset (held_tx (ttx S)) + mset lost
     \<and> length lost = (unat (pkt_drop_count (tfr S)) + 12) div 13
     \<and> unat (pkt_drop_count (tfr S)) \<le> 13 * length B - 12"

text \<open>Well-formed buffers; those on their way to Fusion carry at most 60 bytes.\<close>

definition contents :: "ptr list \<Rightarrow> system \<Rightarrow> ptr list \<Rightarrow> ptr list \<Rightarrow> bool" where
  "contents A S outs hs \<longleftrightarrow> (\<forall>p. wf_Msg_Buf (store (sv S) p)) \<and> wf_Msg_Buf (rxMsgPayload (tfr S))
     \<and> (\<forall>p \<in> set (held_rx (trx S) @ outs @ held_ft (tft S) @ hs). unat (m_msgLen (store (sv S) p)) \<le> 60)
     \<and> (fr_pc (tfr S) = FrReply \<longrightarrow> fr_pkt (tfr S) \<noteq> NULL \<and> fr_pkt (tfr S) \<in> set A
          \<and> unat (m_msgLen (store (sv S) (fr_pkt (tfr S)))) \<le> 60)
     \<and> length (rxPayLoad (trx S)) = 1500
     \<and> (rx_pc (trx S) \<noteq> RxWait \<longrightarrow> rx_dataPtr (trx S) + rx_res (trx S) \<le> 1500)"

definition sys_inv :: "ptr list \<Rightarrow> ptr list \<Rightarrow> system \<Rightarrow> bool" where
  "sys_inv A B S \<longleftrightarrow> distinct (A @ B) \<and> NULL \<notin> set (A @ B) \<and> length A \<le> 8192 \<and> length B \<le> 8192
     \<and> (\<exists>ins outs fin fout hs lost. queues (sv S) ins outs fin fout hs \<and> owned A B S ins outs fin fout hs lost
          \<and> contents A S outs hs)"


section \<open>What the steps do to buffers\<close>

lemma hist_repr_other:
  assumes "p \<notin> set hs"
  shows "hist_repr (store_upd p f s) hs = hist_repr s hs"
proof -
  have "path (store (store_upd p f s)) (ListHead s) hs = path (store s) (ListHead s) hs"
    by (rule path_cong) (use assms in \<open>auto simp: store_upd_def\<close>)
  then show ?thesis by (simp add: hist_repr_def store_upd_def)
qed

lemma hist_repr_cong:
  "store s = store s' \<Longrightarrow> ListHead s = ListHead s' \<Longrightarrow> ListTail s = ListTail s' \<Longrightarrow> hist_repr s hs = hist_repr s' hs"
  by (simp add: hist_repr_def)

lemma iot_rx_fill_Inr:
  assumes "length (rxPayLoad t) = 1500" "rx_dataPtr t + rx_res t \<le> 1500"
  shows "\<exists>t' m'. iot_rx_fill t m = Inr (t', m') \<and> (wf_Msg_Buf m \<longrightarrow> wf_Msg_Buf m') \<and> unat (m_msgLen m') \<le> 60
    \<and> rxPayLoad t' = rxPayLoad t \<and> rx_dataPtr t' + rx_res t' \<le> 1500"
proof -
  define n where "n = min 60 (rx_res t)"
  have split: "(if 60 < rx_res t then (60, rx_res t - 60) else (rx_res t, 0)) = (n, rx_res t - n)"
    by (auto simp: n_def)
  have n: "n \<le> 60" "n \<le> rx_res t" by (simp_all add: n_def)
  have u: "unat (of_nat n :: u16) = n" by (rule unat_of_nat_small) (use n in simp)
  have "memcpy (replicate 60 0) 0 (drop (rx_dataPtr t) (rxPayLoad t)) n
      = Inr (mem_write (replicate 60 0) 0 (take n (drop (rx_dataPtr t) (rxPayLoad t))))"
    by (rule memcpy_ok) (use assms n in simp_all)
  then show ?thesis
    unfolding iot_rx_fill_def Let_def pkt_consts(1) split prod.case
    using assms(2) n by (simp add: u wf_Msg_Buf_def MAX_MSG_SIZE_def bytes_simps)
qed

lemma hist_push_frag_contents:
  "wf_Msg_Buf (store (hist_push_frag tm p s) q) = wf_Msg_Buf (store s q)"
  "m_msgLen (store (hist_push_frag tm p s) q) = m_msgLen (store s q)"
  by (simp_all add: hist_push_frag_def store_upd_def Let_def wf_Msg_Buf_def)

lemma hist_linger_contents:
  "wf_Msg_Buf (store (hist_linger p s) q) = wf_Msg_Buf (store s q)"
  "m_msgLen (store (hist_linger p s) q) = m_msgLen (store s q)"
  by (simp_all add: hist_linger_def store_upd_def wf_Msg_Buf_def)

text \<open>\<open>Fifo_get\<close> on a queue answers its head, \<open>Fifo_put\<close> never blocks below the capacity.\<close>

lemma Fifo_get_SomeD:
  assumes "fifo_repr cap f qs" "Fifo_get f old = Some (f', r, p)"
  shows "r = 0 \<and> (\<exists>ps. qs = p # ps \<and> fifo_repr cap f' ps)"
proof (cases qs)
  case Nil
  with assms Fifo_get_empty [of cap f old] show ?thesis by simp
next
  case (Cons x xs)
  with assms Fifo_get_repr [of cap f x xs old] show ?thesis by auto
qed

lemma Fifo_put_SomeD:
  assumes "fifo_repr cap f qs" "length qs < cap" "Fifo_put f p = Some (f', r)"
  shows "fifo_repr cap f' (qs @ [p])"
  using Fifo_put_repr [OF assms(1,2), of p] assms(3) by auto


section \<open>The invariant is kept by every step\<close>

definition pools :: "ptr list \<Rightarrow> ptr list \<Rightarrow> bool" where
  "pools A B \<longleftrightarrow> distinct (A @ B) \<and> NULL \<notin> set (A @ B) \<and> length A \<le> 8192 \<and> length B \<le> 8192"

lemma sys_inv_iff: "sys_inv A B S \<longleftrightarrow> pools A B \<and> (\<exists>ins outs fin fout hs lost.
    queues (sv S) ins outs fin fout hs \<and> owned A B S ins outs fin fout hs lost \<and> contents A S outs hs)"
  by (simp add: sys_inv_def pools_def)

lemma sys_invI:
  "pools A B \<Longrightarrow> sv S = s \<Longrightarrow> queues s ins outs fin fout hs \<Longrightarrow> owned A B S ins outs fin fout hs lost
   \<Longrightarrow> contents A S outs hs \<Longrightarrow> sys_inv A B S"
  by (simp add: sys_inv_iff) blast

lemma owned_A:
  assumes "pools A B" "owned A B S ins outs fin fout hs lost"
  shows "distinct (ins @ held_rx (trx S) @ outs @ held_ft (tft S) @ hs)"
    "set (ins @ held_rx (trx S) @ outs @ held_ft (tft S) @ hs) = set A"
    "length (ins @ held_rx (trx S) @ outs @ held_ft (tft S) @ hs) \<le> 8192"
    "NULL \<notin> set A"
proof -
  have m: "mset (ins @ held_rx (trx S) @ outs @ held_ft (tft S) @ hs) = mset A"
    using assms(2) by (simp add: owned_def)
  show "distinct (ins @ held_rx (trx S) @ outs @ held_ft (tft S) @ hs)"
    using assms(1) mset_eq_imp_distinct_iff [OF m] by (simp add: pools_def)
  show "set (ins @ held_rx (trx S) @ outs @ held_ft (tft S) @ hs) = set A" by (rule mset_eq_setD [OF m])
  show "length (ins @ held_rx (trx S) @ outs @ held_ft (tft S) @ hs) \<le> 8192"
    using assms(1) mset_eq_length [OF m] by (simp add: pools_def)
  show "NULL \<notin> set A" using assms(1) by (simp add: pools_def)
qed

lemma owned_B:
  assumes "pools A B" "owned A B S ins outs fin fout hs lost"
  shows "distinct (fin @ held_fr (tfr S) @ fout @ held_tx (ttx S) @ lost)"
    "set (fin @ held_fr (tfr S) @ fout @ held_tx (ttx S) @ lost) = set B"
    "length (fin @ held_fr (tfr S) @ fout @ held_tx (ttx S) @ lost) \<le> 8192"
    "NULL \<notin> set B" "set A \<inter> set B = {}"
proof -
  have m: "mset (fin @ held_fr (tfr S) @ fout @ held_tx (ttx S) @ lost) = mset B"
    using assms(2) by (simp add: owned_def)
  show "distinct (fin @ held_fr (tfr S) @ fout @ held_tx (ttx S) @ lost)"
    using assms(1) mset_eq_imp_distinct_iff [OF m] by (simp add: pools_def)
  show "set (fin @ held_fr (tfr S) @ fout @ held_tx (ttx S) @ lost) = set B" by (rule mset_eq_setD [OF m])
  show "length (fin @ held_fr (tfr S) @ fout @ held_tx (ttx S) @ lost) \<le> 8192"
    using assms(1) mset_eq_length [OF m] by (simp add: pools_def)
  show "NULL \<notin> set B" "set A \<inter> set B = {}" using assms(1) by (auto simp: pools_def)
qed

lemma released_prefix: "hs = released clock k st hs @ drop (length (released clock k st hs)) hs"
  by (induction hs arbitrary: k) auto

text \<open>A round of the history thread changes the list and the free queue only.\<close>

definition history_frame :: "service \<Rightarrow> service \<Rightarrow> bool" where
  "history_frame s s' \<longleftrightarrow> store s' = store s \<and> rudp s' = rudp s \<and> ctl s' = ctl s \<and> IOTSocket s' = IOTSocket s
     \<and> sockTx s' = sockTx s \<and> cluster s' = (cluster s)\<lparr>IotThrInFifo := IotThrInFifo (cluster s')\<rparr>"

lemma r_udp_round_frame:
  assumes "r_udp_round clock s = Some (Inr s')" shows "history_frame s s'"
proof -
  from assms obtain cl s1 where f: "free_history clock 0 (cluster s) s = Some (Inr (cl, s1))" "s' = s1\<lparr>cluster := cl\<rparr>"
    by (auto simp: r_udp_round_def split: option.splits sum.splits)
  from free_history_frame [OF f(1)] have h: "store s1 = store s" "hist.more s1 = hist.more s"
    "cl = (cluster s)\<lparr>IotThrInFifo := IotThrInFifo cl\<rparr>" by auto
  from h(2) have "rudp s1 = rudp s \<and> ctl s1 = ctl s \<and> IOTSocket s1 = IOTSocket s \<and> sockTx s1 = sockTx s"
    by (cases s; cases s1) simp
  with h(1,3) show ?thesis by (simp add: history_frame_def f(2))
qed

text \<open>Freeing the history touches nothing else of the service.\<close>

lemma free_history_service:
  fixes s :: service
  assumes "hist_repr s xs" "fifo_repr cap (IotThrInFifo cl) fs" "length fs + length xs \<le> cap"
  shows "\<exists>f s'. free_history clock k cl s = Some (Inr (cl\<lparr>IotThrInFifo := f\<rparr>, s'))
    \<and> fifo_repr cap f (fs @ released clock k (store s) xs)
    \<and> hist_repr s' (drop (length (released clock k (store s) xs)) xs) \<and> store s' = store s
    \<and> cluster s' = cluster s \<and> sockTx s' = sockTx s \<and> ctl s' = ctl s"
proof -
  from free_history_repr [OF assms, of clock k] obtain f s' where
    f: "free_history clock k cl s = Some (Inr (cl\<lparr>IotThrInFifo := f\<rparr>, s'))"
      "fifo_repr cap f (fs @ released clock k (store s) xs)"
      "hist_repr s' (drop (length (released clock k (store s) xs)) xs)" "store s' = store s"
      "hist.more s' = hist.more s" by blast
  from f(5) have "cluster s' = cluster s \<and> sockTx s' = sockTx s \<and> ctl s' = ctl s" by (cases s; cases s') simp
  with f(1-4) show ?thesis by blast
qed

lemma step_rx_recv:
  assumes inv: "sys_inv A B S" and pc: "rx_pc (trx S) = RxWait"
    and st: "iot_rx_recv d eagain (trx S) (sv S) = (t, s)"
  shows "sys_inv A B (S\<lparr>trx := t, sv := s\<rparr>)"
proof -
  from inv obtain ins outs fin fout hs lost where i: "pools A B" "queues (sv S) ins outs fin fout hs"
    "owned A B S ins outs fin fout hs lost" "contents A S outs hs" by (auto simp: sys_inv_iff)
  have len: "length (rxPayLoad (trx S)) = 1500" using i(4) by (simp add: contents_def)
  have s: "store s = store (sv S)" "ListHead s = ListHead (sv S)" "ListTail s = ListTail (sv S)"
    "cluster s = cluster (sv S)" "sockTx s = sockTx (sv S)" "rx_pc t \<noteq> RxPut" "length (rxPayLoad t) = 1500"
    "rx_pc t \<noteq> RxWait \<longrightarrow> rx_dataPtr t + rx_res t \<le> 1500"
    using st len pc by (auto simp: iot_rx_recv_def udp_recv_def Let_def NET_PACKET_SIZE_def bytes_simps
        split: option.splits if_splits)
  have "queues s ins outs fin fout hs"
    using i(2) s(4) hist_repr_cong [OF s(1-3), of hs] by (simp add: queues_def)
  moreover have "owned A B (S\<lparr>trx := t, sv := s\<rparr>) ins outs fin fout hs lost"
    using i(3) s(6) pc by (simp add: owned_def)
  moreover have "contents A (S\<lparr>trx := t, sv := s\<rparr>) outs hs"
    using i(4) s pc by (simp add: contents_def)
  ultimately show ?thesis using i(1) by (simp add: sys_inv_iff) blast
qed

lemma step_rx_get:
  assumes inv: "sys_inv A B S" and pc: "rx_pc (trx S) = RxGet"
  shows "\<not> (\<exists>e. iot_rx_get (trx S) (sv S) = Some (Inl e))"
    and "iot_rx_get (trx S) (sv S) = Some (Inr (t, s)) \<Longrightarrow> sys_inv A B (S\<lparr>trx := t, sv := s\<rparr>)"
proof -
  from inv obtain ins outs fin fout hs lost where i: "pools A B" "queues (sv S) ins outs fin fout hs"
    "owned A B S ins outs fin fout hs lost" "contents A S outs hs" by (auto simp: sys_inv_iff)
  note A = owned_A [OF i(1,3)]
  have q: "fifo_repr 8192 (IotThrInFifo (cluster (sv S))) ins" using i(2) by (simp add: queues_def)
  have c: "length (rxPayLoad (trx S)) = 1500" "rx_dataPtr (trx S) + rx_res (trx S) \<le> 1500"
    "\<And>p. wf_Msg_Buf (store (sv S) p)"
    using i(4) pc by (simp_all add: contents_def)
  have get: "\<exists>ps t' m' . r = 0 \<and> ins = p # ps \<and> fifo_repr 8192 f ps \<and> p \<noteq> NULL \<and> p \<notin> set outs \<and> p \<notin> set hs
      \<and> iot_rx_fill (trx S) (store (sv S) p) = Inr (t', m') \<and> wf_Msg_Buf m' \<and> unat (m_msgLen m') \<le> 60
      \<and> length (rxPayLoad t') = 1500 \<and> rx_dataPtr t' + rx_res t' \<le> 1500"
    if g: "Fifo_get (IotThrInFifo (cluster (sv S))) (rx_dataPayLoad (trx S)) = Some (f, r, p)" for f r p
    using Fifo_get_SomeD [OF q g] A(1,2,4) iot_rx_fill_Inr [OF c(1,2), of "store (sv S) p"] c(1,3) by auto
  show "\<not> (\<exists>e. iot_rx_get (trx S) (sv S) = Some (Inl e))"
    using get by (fastforce simp: iot_rx_get_def split: option.splits prod.splits sum.splits if_splits)
  assume st: "iot_rx_get (trx S) (sv S) = Some (Inr (t, s))"
  then obtain f r p where g: "Fifo_get (IotThrInFifo (cluster (sv S))) (rx_dataPayLoad (trx S)) = Some (f, r, p)"
    by (auto simp: iot_rx_get_def split: option.splits)
  from get [OF g] obtain ps t' m' where
    p: "ins = p # ps" "fifo_repr 8192 f ps" "p \<noteq> NULL" "p \<notin> set outs" "p \<notin> set hs"
      "iot_rx_fill (trx S) (store (sv S) p) = Inr (t', m')" "wf_Msg_Buf m'" "unat (m_msgLen m') \<le> 60"
      "length (rxPayLoad t') = 1500" "rx_dataPtr t' + rx_res t' \<le> 1500" by blast
  have ts: "t = t'\<lparr>rx_dataPayLoad := p, rx_pc := RxPut\<rparr>"
    "s = store_upd p (\<lambda>_. m') ((sv S)\<lparr>cluster := (cluster (sv S))\<lparr>IotThrInFifo := f\<rparr>\<rparr>)"
    using st g p(3,6) by (simp_all add: iot_rx_get_def)
  have "hist_repr s hs"
    unfolding ts(2) hist_repr_other [OF p(5)] using i(2) by (simp add: queues_def hist_repr_def)
  then have "queues s ps outs fin fout hs"
    using i(2) p(2) by (simp add: queues_def ts(2) store_upd_def)
  moreover have "owned A B (S\<lparr>trx := t, sv := s\<rparr>) ps outs fin fout hs lost"
    using i(3) pc by (simp add: owned_def p(1) ts(1))
  moreover have "contents A (S\<lparr>trx := t, sv := s\<rparr>) outs hs"
    using i(4) p(4,5,7-10) by (auto simp: contents_def ts store_upd_def)
  ultimately show "sys_inv A B (S\<lparr>trx := t, sv := s\<rparr>)" using i(1) by (simp add: sys_inv_iff) blast
qed


lemma step_rx_put:
  assumes inv: "sys_inv A B S" and pc: "rx_pc (trx S) = RxPut"
  shows "\<exists>t s. iot_rx_put (trx S) (sv S) = Some (t, s) \<and> sys_inv A B (S\<lparr>trx := t, sv := s\<rparr>)"
proof -
  from inv obtain ins outs fin fout hs lost where i: "pools A B" "queues (sv S) ins outs fin fout hs"
    "owned A B S ins outs fin fout hs lost" "contents A S outs hs" by (auto simp: sys_inv_iff)
  let ?p = "rx_dataPayLoad (trx S)"
  have "length outs < 8192" using owned_A(3) [OF i(1,3)] pc by simp
  moreover have "fifo_repr 8192 (IotThrOutFifo (cluster (sv S))) outs" using i(2) by (simp add: queues_def)
  ultimately obtain f where f: "Fifo_put (IotThrOutFifo (cluster (sv S))) ?p = Some (f, 0)" "fifo_repr 8192 f (outs @ [?p])"
    using Fifo_put_repr by blast
  let ?t = "(trx S)\<lparr>rx_pc := if 0 < rx_res (trx S) then RxGet else RxWait\<rparr>"
  let ?s = "(sv S)\<lparr>cluster := (cluster (sv S))\<lparr>IotThrOutFifo := f\<rparr>, ctl := if 0 < rx_res (trx S) then ctl (sv S)
      else (ctl (sv S))\<lparr>stats := update_stats_pkts_recv 1 (stats (ctl (sv S)))\<rparr>\<rparr>"
  have st: "iot_rx_put (trx S) (sv S) = Some (?t, ?s)" using f(1) by (simp add: iot_rx_put_def Let_def)
  have q: "queues ?s ins (outs @ [?p]) fin fout hs"
    using i(2) f(2) by (simp add: queues_def hist_repr_def)
  have o: "owned A B (S\<lparr>trx := ?t, sv := ?s\<rparr>) ins (outs @ [?p]) fin fout hs lost"
    using i(3) pc by (simp add: owned_def)
  have c: "contents A (S\<lparr>trx := ?t, sv := ?s\<rparr>) (outs @ [?p]) hs"
    using i(4) pc by (auto simp: contents_def)
  have "sys_inv A B (S\<lparr>trx := ?t, sv := ?s\<rparr>)" by (rule sys_invI [OF i(1) _ q o c]) simp
  with st show ?thesis by blast
qed

lemma step_tx_get:
  assumes inv: "sys_inv A B S" and pc: "tx_pc (ttx S) = TxGet"
    and st: "iot_tx_get (ttx S) (sv S) = Some (Inr (u, s))"
  shows "sys_inv A B (S\<lparr>ttx := u, sv := s\<rparr>)"
proof -
  from inv obtain ins outs fin fout hs lost where i: "pools A B" "queues (sv S) ins outs fin fout hs"
    "owned A B S ins outs fin fout hs lost" "contents A S outs hs" by (auto simp: sys_inv_iff)
  from st obtain f r p where g: "Fifo_get (fusionThrOutFifo (cluster (sv S))) (tx_dataPayLoad (ttx S)) = Some (f, r, p)"
    by (auto simp: iot_tx_get_def split: option.splits)
  have "fifo_repr 8192 (fusionThrOutFifo (cluster (sv S))) fout" using i(2) by (simp add: queues_def)
  from Fifo_get_SomeD [OF this g] obtain ps where p: "fout = p # ps" "fifo_repr 8192 f ps" by blast
  have us: "u = (ttx S)\<lparr>tx_dataPayLoad := p, tx_msgHandle := None, tx_pc := TxLookup\<rparr>"
    "s = (sv S)\<lparr>cluster := (cluster (sv S))\<lparr>fusionThrOutFifo := f\<rparr>\<rparr>"
    using st g by (auto simp: iot_tx_get_def split: if_splits)
  have "queues s ins outs fin ps hs"
    using i(2) p(2) by (simp add: queues_def us(2) hist_repr_def)
  moreover have "owned A B (S\<lparr>ttx := u, sv := s\<rparr>) ins outs fin ps hs lost"
    using i(3) pc by (simp add: owned_def p(1) us(1))
  moreover have "contents A (S\<lparr>ttx := u, sv := s\<rparr>) outs hs"
    using i(4) us(2) by (simp add: contents_def)
  ultimately show ?thesis using i(1) by (simp add: sys_inv_iff) blast
qed

text \<open>The steps of reassembly keep the buffer and leave everything but table and counters alone.\<close>

definition tx_frame :: "iot_tx \<Rightarrow> service \<Rightarrow> iot_tx \<Rightarrow> service \<Rightarrow> bool" where
  "tx_frame t s t' s' \<longleftrightarrow> tx_dataPayLoad t' = tx_dataPayLoad t \<and> tx_pc t' \<noteq> TxGet \<and> store s' = store s
     \<and> ListHead s' = ListHead s \<and> ListTail s' = ListTail s \<and> cluster s' = cluster s \<and> sockTx s' = sockTx s
     \<and> IOTSocket s' = IOTSocket s \<and> service_disabled (ctl s') = service_disabled (ctl s)"

lemma tx_frame_steps:
  "iot_tx_lookup env t s = Inr (t', s', out) \<Longrightarrow> tx_frame t s t' s'"
  "iot_tx_store env t s = Inr (t', s', out) \<Longrightarrow> tx_frame t s t' s'"
  "iot_tx_send t s = Inr (t', s', out) \<Longrightarrow> tx_frame t s t' s'"
  by (auto simp: iot_tx_lookup_def iot_tx_store_def iot_tx_send_def iot_tx_sent_def tx_frame_def Let_def
      split: if_splits sum.splits prod.splits)

lemma step_tx_frame:
  assumes inv: "sys_inv A B S" and pc: "tx_pc (ttx S) \<noteq> TxGet" and f: "tx_frame (ttx S) (sv S) u s"
  shows "sys_inv A B (S\<lparr>ttx := u, sv := s\<rparr>)"
proof -
  from inv obtain ins outs fin fout hs lost where i: "pools A B" "queues (sv S) ins outs fin fout hs"
    "owned A B S ins outs fin fout hs lost" "contents A S outs hs" by (auto simp: sys_inv_iff)
  note us = f [unfolded tx_frame_def]
  have "queues s ins outs fin fout hs"
    using i(2) us hist_repr_cong [of s "sv S" hs] by (simp add: queues_def)
  moreover have "owned A B (S\<lparr>ttx := u, sv := s\<rparr>) ins outs fin fout hs lost"
    using i(3) pc us by (simp add: owned_def)
  moreover have "contents A (S\<lparr>ttx := u, sv := s\<rparr>) outs hs"
    using i(4) us by (simp add: contents_def)
  ultimately show ?thesis using i(1) by (simp add: sys_inv_iff) blast
qed

lemma step_tx_put:
  assumes inv: "sys_inv A B S" and pc: "tx_pc (ttx S) = TxPut"
  shows "\<exists>u s. iot_tx_put (ttx S) (sv S) = Some (u, s) \<and> sys_inv A B (S\<lparr>ttx := u, sv := s\<rparr>)"
proof -
  from inv obtain ins outs fin fout hs lost where i: "pools A B" "queues (sv S) ins outs fin fout hs"
    "owned A B S ins outs fin fout hs lost" "contents A S outs hs" by (auto simp: sys_inv_iff)
  let ?p = "tx_dataPayLoad (ttx S)"
  have "length fin < 8192" using owned_B(3) [OF i(1,3)] pc by simp
  moreover have "fifo_repr 8192 (fusionThrInFifo (cluster (sv S))) fin" using i(2) by (simp add: queues_def)
  ultimately obtain f where f: "Fifo_put (fusionThrInFifo (cluster (sv S))) ?p = Some (f, 0)" "fifo_repr 8192 f (fin @ [?p])"
    using Fifo_put_repr by blast
  let ?u = "(ttx S)\<lparr>tx_pc := TxGet\<rparr>" and ?s = "(sv S)\<lparr>cluster := (cluster (sv S))\<lparr>fusionThrInFifo := f\<rparr>\<rparr>"
  have st: "iot_tx_put (ttx S) (sv S) = Some (?u, ?s)" using f(1) by (simp add: iot_tx_put_def)
  have "queues ?s ins outs (fin @ [?p]) fout hs" using i(2) f(2) by (simp add: queues_def hist_repr_def)
  moreover have "owned A B (S\<lparr>ttx := ?u, sv := ?s\<rparr>) ins outs (fin @ [?p]) fout hs lost"
    using i(3) pc by (simp add: owned_def)
  moreover have "contents A (S\<lparr>ttx := ?u, sv := ?s\<rparr>) outs hs" using i(4) by (simp add: contents_def)
  ultimately have "sys_inv A B (S\<lparr>ttx := ?u, sv := ?s\<rparr>)" using i(1) by (simp add: sys_inv_iff) blast
  with st show ?thesis by blast
qed

lemma step_ft_get:
  assumes inv: "sys_inv A B S" and pc: "ft_pc (tft S) = FtGet"
  shows "\<not> (\<exists>e. fusion_tx_get (tft S) (sv S) = Some (Inl e))"
    and "fusion_tx_get (tft S) (sv S) = Some (Inr (v, s, out)) \<Longrightarrow> sys_inv A B (S\<lparr>tft := v, sv := s\<rparr>)"
proof -
  from inv obtain ins outs fin fout hs lost where i: "pools A B" "queues (sv S) ins outs fin fout hs"
    "owned A B S ins outs fin fout hs lost" "contents A S outs hs" by (auto simp: sys_inv_iff)
  note A = owned_A [OF i(1,3)]
  have q: "fifo_repr 8192 (IotThrOutFifo (cluster (sv S))) outs" using i(2) by (simp add: queues_def)
  have get: "\<exists>ps. outs = p # ps \<and> fifo_repr 8192 f ps \<and> p \<noteq> NULL \<and> p \<notin> set hs
      \<and> sendto (Msg_Buf_bytes (fusion_header (store (sv S) p)))
          (unat (m_msgLen (store (sv S) p)) + sizeof_Msg_Header) = Inr (wire (fusion_header (store (sv S) p)))"
    if g: "Fifo_get (IotThrOutFifo (cluster (sv S))) (ft_rxMsgBufPtr (tft S)) = Some (f, r, p)" for f r p
    using Fifo_get_SomeD [OF q g] A(1,2,4) i(4) sendto_wire [of "fusion_header (store (sv S) p)"]
    by (auto simp: contents_def)
  show "\<not> (\<exists>e. fusion_tx_get (tft S) (sv S) = Some (Inl e))"
    using get by (fastforce simp: fusion_tx_get_def Let_def split: option.splits prod.splits sum.splits if_splits)
  assume st: "fusion_tx_get (tft S) (sv S) = Some (Inr (v, s, out))"
  then obtain f r p where g: "Fifo_get (IotThrOutFifo (cluster (sv S))) (ft_rxMsgBufPtr (tft S)) = Some (f, r, p)"
    by (auto simp: fusion_tx_get_def split: option.splits)
  from get [OF g] obtain ps where p: "outs = p # ps" "fifo_repr 8192 f ps" "p \<noteq> NULL" "p \<notin> set hs"
    "sendto (Msg_Buf_bytes (fusion_header (store (sv S) p)))
          (unat (m_msgLen (store (sv S) p)) + sizeof_Msg_Header) = Inr (wire (fusion_header (store (sv S) p)))" by blast
  have vs: "v = (tft S)\<lparr>ft_rxMsgBufPtr := p, ft_pc := FtPush\<rparr>"
    "s = store_upd p fusion_header ((sv S)\<lparr>cluster := (cluster (sv S))\<lparr>IotThrOutFifo := f\<rparr>\<rparr>)"
    using st g p(3,5) by (simp_all add: fusion_tx_get_def Let_def)
  have "hist_repr s hs"
    unfolding vs(2) hist_repr_other [OF p(4)] using i(2) by (simp add: queues_def hist_repr_def)
  then have "queues s ins ps fin fout hs"
    using i(2) p(2) by (simp add: queues_def vs(2) store_upd_def)
  moreover have "owned A B (S\<lparr>tft := v, sv := s\<rparr>) ins ps fin fout hs lost"
    using i(3) pc by (simp add: owned_def p(1) vs(1))
  moreover have "contents A (S\<lparr>tft := v, sv := s\<rparr>) ps hs"
    using i(4) pc by (auto simp: contents_def vs store_upd_def p(1))
  ultimately show "sys_inv A B (S\<lparr>tft := v, sv := s\<rparr>)" using i(1) by (simp add: sys_inv_iff) blast
qed

lemma step_ft_push:
  assumes inv: "sys_inv A B S" and pc: "ft_pc (tft S) = FtPush"
    and st: "fusion_tx_push tm (tft S) (sv S) = (v, s)"
  shows "sys_inv A B (S\<lparr>tft := v, sv := s\<rparr>)"
proof -
  from inv obtain ins outs fin fout hs lost where i: "pools A B" "queues (sv S) ins outs fin fout hs"
    "owned A B S ins outs fin fout hs lost" "contents A S outs hs" by (auto simp: sys_inv_iff)
  let ?p = "ft_rxMsgBufPtr (tft S)"
  note A = owned_A [OF i(1,3)]
  have vs: "v = (tft S)\<lparr>ft_pc := FtGet\<rparr>" "s = hist_push_frag tm ?p (sv S)"
    using st by (simp_all add: fusion_tx_push_def)
  have h: "hist_repr (sv S) hs" "?p \<noteq> NULL" "?p \<notin> set hs"
    using i(2) A(1,2,4) pc by (auto simp: queues_def)
  have c: "cluster s = cluster (sv S)" "sockTx s = sockTx (sv S)"
    by (simp_all add: vs(2) hist_push_frag_def store_upd_def Let_def)
  have "queues s ins outs fin fout (hs @ [?p])"
    using i(2) hist_push_repr [OF h, of tm] by (simp add: queues_def c(1)) (simp add: vs(2))
  moreover have "owned A B (S\<lparr>tft := v, sv := s\<rparr>) ins outs fin fout (hs @ [?p]) lost"
    using i(3) pc by (simp add: owned_def vs(1))
  moreover have "contents A (S\<lparr>tft := v, sv := s\<rparr>) outs (hs @ [?p])"
    using i(4) pc c(2) by (auto simp: contents_def vs hist_push_frag_contents)
  ultimately show ?thesis using i(1) by (simp add: sys_inv_iff) blast
qed


lemma step_fr_recv:
  assumes inv: "sys_inv A B S" and pc: "fr_pc (tfr S) = FrRecv"
    and st: "fusion_rx_recv bs (tfr S) (sv S) = Some (w, s)"
  shows "sys_inv A B (S\<lparr>tfr := w, sv := s\<rparr>)"
proof -
  from inv obtain ins outs fin fout hs lost where i: "pools A B" "queues (sv S) ins outs fin fout hs"
    "owned A B S ins outs fin fout hs lost" "contents A S outs hs" by (auto simp: sys_inv_iff)
  note A = owned_A [OF i(1,3)]
  have h: "hist_repr (sv S) hs" using i(2) by (simp add: queues_def)
  have wfp: "wf_Msg_Buf (rxMsgPayload (tfr S))" using i(4) by (simp add: contents_def)
  have raw: "wf_Msg_Buf (Msg_Buf_of_bytes (mem_write (Msg_Buf_bytes (rxMsgPayload (tfr S))) 0 (take sizeof_Msg_Buf xs)))" for xs
    by (rule wf_Msg_Buf_of_bytes) (use wfp in \<open>simp add: bytes_simps sizeofs\<close>)
  have search: "x \<noteq> NULL \<longrightarrow> x \<in> set hs" if "hist_search (store (sv S)) (ListHead (sv S)) fl sq = Some x" for fl sq x
    using that hist_search_path [of "store (sv S)" "ListHead (sv S)" hs fl sq] h
    by (auto simp: hist_repr_def split: option.splits dest!: find_Some_mem)
  have fnd: "(x = NULL \<longrightarrow> s' = sv S) \<and> (x \<noteq> NULL \<longrightarrow> x \<in> set hs \<and> s' = hist_linger x (sv S))"
    if "hist_find_frag fl sq (sv S) = Some (x, s')" for fl sq x s'
    using that search by (auto simp: hist_find_frag_def split: option.splits)
  have w: "rx_pc (trx S) = rx_pc (trx S) \<and> pkt_drop_count w = pkt_drop_count (tfr S) \<and> fr_pc w \<noteq> FrPut
      \<and> wf_Msg_Buf (rxMsgPayload w)
      \<and> (s = sv S \<and> fr_pc w \<noteq> FrReply
         \<or> s = hist_linger (fr_pkt w) (sv S) \<and> fr_pkt w \<in> set hs \<and> fr_pkt w \<noteq> NULL)"
    using st pc wfp raw
    by (auto simp: fusion_rx_recv_def Let_def split: option.splits if_splits dest!: fnd)
  have s: "cluster s = cluster (sv S)" "sockTx s = sockTx (sv S)" "hist_repr s hs"
    "\<And>p. wf_Msg_Buf (store s p) = wf_Msg_Buf (store (sv S) p)" "\<And>p. m_msgLen (store s p) = m_msgLen (store (sv S) p)"
    using w h by (auto simp: hist_linger_repr hist_linger_contents) (auto simp: hist_linger_def store_upd_def)
  have "queues s ins outs fin fout hs" using i(2) s(1,3) by (simp add: queues_def)
  moreover have "owned A B (S\<lparr>tfr := w, sv := s\<rparr>) ins outs fin fout hs lost"
    using i(3) pc w by (simp add: owned_def)
  moreover have "contents A (S\<lparr>tfr := w, sv := s\<rparr>) outs hs"
    using i(4) w A(2) s(2) by (auto simp: contents_def s(4,5))
  ultimately show ?thesis using i(1) by (simp add: sys_inv_iff) blast
qed

lemma send_reply_Inr:
  assumes "wf_Msg_Buf (store s p)" "unat (m_msgLen (store s p)) \<le> 60"
  defines "m \<equiv> (store s p)\<lparr>msgHeader := (msgHeader (store s p))\<lparr>h_msgCode := MSG_CODE_REPLY_FRAG\<rparr>\<rparr>"
  shows "send_reply True p s = Inr (wire m, store_upd p (\<lambda>m. m\<lparr>msgHeader := (msgHeader m)\<lparr>h_msgCode := MSG_CODE_REPLY_FRAG\<rparr>\<rparr>) s)"
proof -
  have "wf_Msg_Buf m" "unat (m_msgLen m) \<le> 60" using assms by (simp_all add: wf_Msg_Buf_def)
  from sendto_wire [OF this] show ?thesis by (simp add: send_reply_def Let_def store_upd_def m_def)
qed

lemma step_fr_reply:
  assumes inv: "sys_inv A B S" and pc: "fr_pc (tfr S) = FrReply"
  shows "(\<exists>e. fusion_rx_reply (tfr S) (sv S) = Inl e) \<longleftrightarrow> \<not> sockTx (sv S)"
    and "fusion_rx_reply (tfr S) (sv S) = Inr (w, s, out) \<Longrightarrow> sys_inv A B (S\<lparr>tfr := w, sv := s\<rparr>)"
proof -
  from inv obtain ins outs fin fout hs lost where i: "pools A B" "queues (sv S) ins outs fin fout hs"
    "owned A B S ins outs fin fout hs lost" "contents A S outs hs" by (auto simp: sys_inv_iff)
  let ?p = "fr_pkt (tfr S)"
  let ?w = "(tfr S)\<lparr>fr_pc := FrRecv\<rparr>"
  let ?s = "store_upd ?p (\<lambda>m. m\<lparr>msgHeader := (msgHeader m)\<lparr>h_msgCode := MSG_CODE_REPLY_FRAG\<rparr>\<rparr>) (sv S)"
  have m: "wf_Msg_Buf (store (sv S) ?p)" "unat (m_msgLen (store (sv S) ?p)) \<le> 60"
    using i(4) pc by (simp_all add: contents_def)
  from send_reply_Inr [OF m] have st: "\<exists>out. fusion_rx_reply (tfr S) (sv S) = (if sockTx (sv S) then Inr (?w, ?s, out) else Inl NullDeref)"
    by (auto simp: fusion_rx_reply_def send_reply_def)
  then show "(\<exists>e. fusion_rx_reply (tfr S) (sv S) = Inl e) \<longleftrightarrow> \<not> sockTx (sv S)" by auto
  have "hist_repr ?s hs" using i(2) by (subst hist_repr_store_upd) (simp_all add: queues_def)
  then have q: "queues ?s ins outs fin fout hs"
    using i(2) by (simp add: queues_def store_upd_def)
  have o: "owned A B (S\<lparr>tfr := ?w, sv := ?s\<rparr>) ins outs fin fout hs lost"
    using i(3) pc by (simp add: owned_def)
  have c: "contents A (S\<lparr>tfr := ?w, sv := ?s\<rparr>) outs hs"
    using i(4) by (auto simp: contents_def store_upd_def wf_Msg_Buf_def)
  have "sys_inv A B (S\<lparr>tfr := ?w, sv := ?s\<rparr>)" by (rule sys_invI [OF i(1) _ q o c]) simp
  with st show "fusion_rx_reply (tfr S) (sv S) = Inr (w, s, out) \<Longrightarrow> sys_inv A B (S\<lparr>tfr := w, sv := s\<rparr>)"
    by (auto split: if_splits)
qed

lemma signed_take_bit_small: "x < 2 ^ 20 \<Longrightarrow> signed_take_bit 31 (int x) = int x"
  by (rule signed_take_bit_int_eq_self) simp_all

lemma drop_count_step:
  assumes "(unat c + 12) div 13 \<le> 8192"
  shows "unat (c + 1 :: u32) = Suc (unat c)" "sint c mod 13 \<noteq> 0 \<longleftrightarrow> unat c mod 13 \<noteq> 0"
    "(Suc (unat c) + 12) div 13 = (unat c + 12) div 13 + (if unat c mod 13 = 0 then 1 else 0)"
proof -
  have c: "unat c < 2 ^ 20" using assms by simp
  show "unat (c + 1 :: u32) = Suc (unat c)" using c by (simp add: unat_word_ariths)
  have "signed_take_bit 31 (int (unat c)) = int (unat c)" by (rule signed_take_bit_small [OF c])
  then have "sint (of_nat (unat c) :: u32) = int (unat c)" by (simp only: signed_of_nat) simp
  then have "sint c = int (unat c)" by simp
  then show "sint c mod 13 \<noteq> 0 \<longleftrightarrow> unat c mod 13 \<noteq> 0" by (metis of_nat_eq_0_iff of_nat_mod of_nat_numeral)
  show "(Suc (unat c) + 12) div 13 = (unat c + 12) div 13 + (if unat c mod 13 = 0 then 1 else 0)"
    by presburger
qed


lemma step_fr_get:
  assumes inv: "sys_inv A B S" and pc: "fr_pc (tfr S) = FrGet"
  shows "\<not> (\<exists>e. fusion_rx_get (tfr S) (sv S) = Some (Inl e))"
    and "fusion_rx_get (tfr S) (sv S) = Some (Inr (w, s)) \<Longrightarrow> sys_inv A B (S\<lparr>tfr := w, sv := s\<rparr>)"
proof -
  from inv obtain ins outs fin fout hs lost where i: "pools A B" "queues (sv S) ins outs fin fout hs"
    "owned A B S ins outs fin fout hs lost" "contents A S outs hs" by (auto simp: sys_inv_iff)
  note A = owned_A [OF i(1,3)] and B = owned_B [OF i(1,3)]
  let ?c = "pkt_drop_count (tfr S)"
  let ?m = "(rxMsgPayload (tfr S))\<lparr>m_msgLen := of_int (int (fr_res (tfr S)) - int sizeof_Msg_Header)\<rparr>"
  have q: "fifo_repr 8192 (fusionThrInFifo (cluster (sv S))) fin" using i(2) by (simp add: queues_def)
  have fB: "set fin \<subseteq> set B" using B(2) by auto
  have get: "\<exists>ps. fin = p # ps \<and> fifo_repr 8192 f ps \<and> p \<noteq> NULL \<and> p \<notin> set A"
    if g: "Fifo_get (fusionThrInFifo (cluster (sv S))) (fr_rxMsgBufPtr (tfr S)) = Some (f, r, p)" for f r p
    using Fifo_get_SomeD [OF q g] fB B(4,5) by auto
  show "\<not> (\<exists>e. fusion_rx_get (tfr S) (sv S) = Some (Inl e))"
    using get by (fastforce simp: fusion_rx_get_def Let_def split: option.splits prod.splits if_splits)
  assume st: "fusion_rx_get (tfr S) (sv S) = Some (Inr (w, s))"
  then obtain f r p where g: "Fifo_get (fusionThrInFifo (cluster (sv S))) (fr_rxMsgBufPtr (tfr S)) = Some (f, r, p)"
    by (auto simp: fusion_rx_get_def split: option.splits)
  from get [OF g] obtain ps where p: "fin = p # ps" "fifo_repr 8192 f ps" "p \<noteq> NULL" "p \<notin> set A" by blast
  have ws: "w = (tfr S)\<lparr>rxMsgPayload := ?m, fr_rxMsgBufPtr := p, pkt_drop_count := ?c + 1,
      fr_pc := if sint ?c mod 13 \<noteq> 0 then FrPut else FrRecv\<rparr>"
    "s = store_upd p (\<lambda>_. ?m) ((sv S)\<lparr>cluster := (cluster (sv S))\<lparr>fusionThrInFifo := f\<rparr>\<rparr>)"
    using st g p(3) by (simp_all add: fusion_rx_get_def Let_def)
  have "(unat ?c + 12) div 13 \<le> 8192" using B(3) i(3) by (simp add: owned_def)
  note cnt = drop_count_step [OF this]
  have "length lost < length B" using i(3) mset_eq_length [of B "fin @ held_fr (tfr S) @ fout @ held_tx (ttx S) @ lost"]
    by (simp add: owned_def p(1))
  then have bound: "Suc (unat ?c) \<le> 13 * length B - 12" using i(3) by (simp add: owned_def)
  let ?lost = "if unat ?c mod 13 = 0 then lost @ [p] else lost"
  have hs: "p \<notin> set hs" "p \<notin> set outs" "p \<notin> set (held_rx (trx S))" "p \<notin> set (held_ft (tft S))"
    using A(2) p(4) by auto
  have "hist_repr s hs"
    unfolding ws(2) hist_repr_other [OF hs(1)] using i(2) by (simp add: queues_def hist_repr_def)
  then have q: "queues s ins outs ps fout hs"
    using i(2) p(2) by (simp add: queues_def ws(2) store_upd_def)
  have o: "owned A B (S\<lparr>tfr := w, sv := s\<rparr>) ins outs ps fout hs ?lost"
    using i(3) pc cnt(2,3) bound by (auto simp: owned_def p(1) ws(1) cnt(1))
  have wf: "wf_Msg_Buf ?m" using i(4) by (simp add: contents_def wf_Msg_Buf_def)
  have c: "contents A (S\<lparr>tfr := w, sv := s\<rparr>) outs hs"
    using i(4) hs wf by (auto simp: contents_def ws store_upd_def)
  show "sys_inv A B (S\<lparr>tfr := w, sv := s\<rparr>)" by (rule sys_invI [OF i(1) _ q o c]) simp
qed

lemma step_fr_put:
  assumes inv: "sys_inv A B S" and pc: "fr_pc (tfr S) = FrPut"
  shows "\<exists>w s. fusion_rx_put (tfr S) (sv S) = Some (w, s) \<and> sys_inv A B (S\<lparr>tfr := w, sv := s\<rparr>)"
proof -
  from inv obtain ins outs fin fout hs lost where i: "pools A B" "queues (sv S) ins outs fin fout hs"
    "owned A B S ins outs fin fout hs lost" "contents A S outs hs" by (auto simp: sys_inv_iff)
  let ?p = "fr_rxMsgBufPtr (tfr S)"
  have "length fout < 8192" using owned_B(3) [OF i(1,3)] pc by simp
  moreover have "fifo_repr 8192 (fusionThrOutFifo (cluster (sv S))) fout" using i(2) by (simp add: queues_def)
  ultimately obtain f where f: "Fifo_put (fusionThrOutFifo (cluster (sv S))) ?p = Some (f, 0)" "fifo_repr 8192 f (fout @ [?p])"
    using Fifo_put_repr by blast
  let ?w = "(tfr S)\<lparr>fr_pc := FrRecv\<rparr>" and ?s = "(sv S)\<lparr>cluster := (cluster (sv S))\<lparr>fusionThrOutFifo := f\<rparr>\<rparr>"
  have st: "fusion_rx_put (tfr S) (sv S) = Some (?w, ?s)" using f(1) by (simp add: fusion_rx_put_def)
  have q: "queues ?s ins outs fin (fout @ [?p]) hs" using i(2) f(2) by (simp add: queues_def hist_repr_def)
  have o: "owned A B (S\<lparr>tfr := ?w, sv := ?s\<rparr>) ins outs fin (fout @ [?p]) hs lost"
    using i(3) pc by (simp add: owned_def)
  have c: "contents A (S\<lparr>tfr := ?w, sv := ?s\<rparr>) outs hs" using i(4) by (auto simp: contents_def)
  have "sys_inv A B (S\<lparr>tfr := ?w, sv := ?s\<rparr>)" by (rule sys_invI [OF i(1) _ q o c]) simp
  with st show ?thesis by blast
qed

lemma step_r_udp:
  assumes inv: "sys_inv A B S"
  shows "\<exists>s. r_udp_round clock (sv S) = Some (Inr s) \<and> sys_inv A B (S\<lparr>sv := s\<rparr>)"
proof -
  from inv obtain ins outs fin fout hs lost where i: "pools A B" "queues (sv S) ins outs fin fout hs"
    "owned A B S ins outs fin fout hs lost" "contents A S outs hs" by (auto simp: sys_inv_iff)
  let ?r = "released clock 0 (store (sv S)) hs"
  have "length ins + length hs \<le> 8192" using owned_A(3) [OF i(1,3)] by simp
  moreover have "fifo_repr 8192 (IotThrInFifo (cluster (sv S))) ins" "hist_repr (sv S) hs"
    using i(2) by (simp_all add: queues_def)
  ultimately obtain f s' where f: "free_history clock 0 (cluster (sv S)) (sv S)
        = Some (Inr ((cluster (sv S))\<lparr>IotThrInFifo := f\<rparr>, s'))" "fifo_repr 8192 f (ins @ ?r)"
      "hist_repr s' (drop (length ?r) hs)" "store s' = store (sv S)" "cluster s' = cluster (sv S)" "sockTx s' = sockTx (sv S)"
    using free_history_service by blast
  let ?s = "s'\<lparr>cluster := (cluster (sv S))\<lparr>IotThrInFifo := f\<rparr>\<rparr>"
  have st: "r_udp_round clock (sv S) = Some (Inr ?s)" using f(1) by (simp add: r_udp_round_def)
  have hs: "hs = ?r @ drop (length ?r) hs" by (rule released_prefix)
  have q: "queues ?s (ins @ ?r) outs fin fout (drop (length ?r) hs)"
    using i(2) f(2,3) by (simp add: queues_def hist_repr_def)
  have m: "mset hs = mset ?r + mset (drop (length ?r) hs)" by (subst hs) simp
  have o: "owned A B (S\<lparr>sv := ?s\<rparr>) (ins @ ?r) outs fin fout (drop (length ?r) hs) lost"
    using i(3) by (simp add: owned_def m)
  have c: "contents A (S\<lparr>sv := ?s\<rparr>) outs (drop (length ?r) hs)"
    using i(4) f(4,6) by (auto simp: contents_def dest: in_set_dropD)
  have "sys_inv A B (S\<lparr>sv := ?s\<rparr>)" by (rule sys_invI [OF i(1) _ q o c]) simp
  with st show ?thesis by blast
qed


lemma step_background:
  assumes inv: "sys_inv A B S"
  shows "sys_inv A B (S\<lparr>sv := r_udp_req_round tm (sv S)\<rparr>)" "sys_inv A B (S\<lparr>sv := control_round a (sv S)\<rparr>)"
    "sys_inv A B (S\<lparr>sv := r_udp_start (sv S)\<rparr>)" "sys_inv A B (S\<lparr>sv := r_udp_req_start (sv S)\<rparr>)"
proof -
  from inv obtain ins outs fin fout hs lost where i: "pools A B" "queues (sv S) ins outs fin fout hs"
    "owned A B S ins outs fin fout hs lost" "contents A S outs hs" by (auto simp: sys_inv_iff)
  show "sys_inv A B (S\<lparr>sv := r_udp_req_round tm (sv S)\<rparr>)"
    by (rule sys_invI [OF i(1) refl, of _ ins outs fin fout hs lost])
      (use i(2-4) in \<open>simp_all add: queues_def owned_def contents_def r_udp_req_round_def hist_repr_def\<close>)
  show "sys_inv A B (S\<lparr>sv := r_udp_start (sv S)\<rparr>)"
    by (rule sys_invI [OF i(1) refl, of _ ins outs fin fout hs lost])
      (use i(2-4) in \<open>simp_all add: queues_def owned_def contents_def r_udp_start_def hist_repr_def\<close>)
  show "sys_inv A B (S\<lparr>sv := r_udp_req_start (sv S)\<rparr>)"
    by (rule sys_invI [OF i(1) refl, of _ ins outs fin fout hs lost])
      (use i(2-4) in \<open>simp_all add: queues_def owned_def contents_def r_udp_req_start_def hist_repr_def\<close>)
  show "sys_inv A B (S\<lparr>sv := control_round a (sv S)\<rparr>)"
    by (rule sys_invI [OF i(1) refl, of _ ins outs fin fout hs lost])
      (use i(2-4) in \<open>simp_all add: queues_def owned_def contents_def control_round_def hist_repr_def\<close>)
qed

lemma thread_step_inv:
  assumes "thread_step i S out S'" "sys_inv A B S"
  shows "sys_inv A B S'"
  using assms
proof (induction rule: thread_step.induct)
  case (rx_put S t s)
  then show ?case using step_rx_put [of A B S] by auto
next
  case (tx_put S u s)
  then show ?case using step_tx_put [of A B S] by auto
next
  case (fr_put S w s)
  then show ?case using step_fr_put [of A B S] by auto
next
  case (r_udp clock S s)
  then show ?case using step_r_udp [of A B S clock] by auto
qed (simp_all add: step_rx_recv step_rx_get(2) step_tx_get step_tx_frame tx_frame_steps step_ft_get(2) step_ft_push step_fr_recv
    step_fr_reply(2) step_fr_get(2) step_background)

lemma sys_step_inv: "sys_step S out S' \<Longrightarrow> sys_inv A B S \<Longrightarrow> sys_inv A B S'"
  by (auto simp: sys_step_iff intro: thread_step_inv)

lemma reachable_inv: "reachable S0 S \<Longrightarrow> sys_inv A B S0 \<Longrightarrow> sys_inv A B S"
  by (induction rule: reachable.induct) (auto dest: sys_step_inv)

section \<open>A small instance\<close>

text \<open>One buffer in each pool, all threads waiting.\<close>

definition system_1 :: system where
  "system_1 = \<lparr> sv = service_3\<lparr>cluster := cluster_example\<lparr>IotThrInFifo := one_pointer 100, fusionThrInFifo := one_pointer 200\<rparr>\<rparr>,
     trx = iot_rx_0, ttx = \<lparr> tx_pc = TxGet, tx_dataPayLoad = NULL, tx_handle = (0, 0), tx_msgHandle = None \<rparr>, tft = \<lparr> ft_pc = FtGet, ft_rxMsgBufPtr = NULL \<rparr>,
     tfr = \<lparr> fr_pc = FrRecv, fr_rxMsgBufPtr = NULL, rxMsgPayload = zero_Msg_Buf, fr_res = 0, fr_pkt = NULL,
       pkt_drop_count = 0 \<rparr> \<rparr>"

lemma system_1_inv: "sys_inv [100] [200] system_1"
proof -
  have q: "queues (sv system_1) [100] [] [200] [] []"
    by (simp add: queues_def system_1_def fifo_repr_def one_pointer_def service_3_def cluster_example_def hist_repr_def Let_def)
  have o: "owned [100] [200] system_1 [100] [] [200] [] [] []"
    by (simp add: owned_def system_1_def iot_rx_0_def)
  have c: "contents [100] system_1 [] []"
    by (simp add: contents_def system_1_def iot_rx_0_def service_3_def)
  show ?thesis by (rule sys_invI [OF _ refl q o c]) (simp add: pools_def)
qed

text \<open>A datagram of the device starts the fragmentation; a message of Fusion, the first one, is dropped.\<close>

lemma system_1_step: "\<exists>S. reachable system_1 S \<and> rx_pc (trx S) = RxGet \<and> tfr S = tfr system_1 \<and> fusionThrInFifo (cluster (sv S)) = one_pointer 200"
proof -
  obtain t s where ts: "iot_rx_recv (Some (zero_addr, [1, 2])) False (trx system_1) (sv system_1) = (t, s)" by fastforce
  have "rx_pc (trx system_1) = RxWait" by (simp add: system_1_def iot_rx_0_def)
  from sys_step.any [OF thread_step.rx_recv [OF this ts]] have "reachable system_1 (system_1\<lparr>trx := t, sv := s\<rparr>)"
    by (rule reachable.step [OF reachable.start])
  moreover have "rx_pc t = RxGet \<and> cluster s = cluster (sv system_1)"
    using ts by (auto simp: iot_rx_recv_def system_1_def service_3_def iot_rx_0_def udp_recv_def Let_def NET_PACKET_SIZE_def)
  ultimately show ?thesis
    by (intro exI [of _ "system_1\<lparr>trx := t, sv := s\<rparr>"]) (simp add: system_1_def)
qed

lemma system_1_drop: "\<exists>S. reachable system_1 S \<and> unat (pkt_drop_count (tfr S)) = 1"
proof -
  let ?m = "mk_fragment 1 0 1 [7]" and ?u = "tfr system_1"
  have m: "wf_Msg_Buf ?m" "unat (m_msgLen ?m) \<le> 60" by (simp_all add: mk_fragment_simps)
  have u: "rxMsgPayload ?u = zero_Msg_Buf" "fr_pc ?u = FrRecv" "pkt_drop_count ?u = 0" by (simp_all add: system_1_def)
  note rw = received_wire [OF m, of "rxMsgPayload ?u"]
  have "3 \<le> length (wire ?m)" unfolding wire_eq [OF m] by simp
  then have ne: "wire ?m \<noteq> []" by auto
  have code: "h_msgCode (msgHeader (received (rxMsgPayload ?u) (wire ?m))) \<noteq> MSG_CODE_REQUEST_FRAG"
    using rw(2) by (simp add: u mk_fragment_def pkt_consts)
  obtain w where w: "fusion_rx_recv (Some (wire ?m)) ?u (sv system_1) = Some (w, sv system_1)"
    "fr_pc w = FrGet" "pkt_drop_count w = 0"
    using fusion_rx_recv_data [OF ne code, of "sv system_1"] u(3) by auto
  let ?S = "system_1\<lparr>tfr := w, sv := sv system_1\<rparr>"
  have r1: "reachable system_1 ?S"
    by (rule reachable.step [OF reachable.start sys_step.any [OF thread_step.fr_recv [OF u(2) w(1)]]])
  have q: "fifo_repr 8192 (fusionThrInFifo (cluster (sv system_1))) [200]"
    by (simp add: system_1_def service_3_def cluster_example_def Let_def one_pointer_def fifo_repr_def)
  obtain w' s where g: "fusion_rx_get w (sv system_1) = Some (Inr (w', s))" "pkt_drop_count w' = 1"
    using fusion_rx_get_eq [OF q, of w] w(3) by auto
  have "reachable system_1 (?S\<lparr>tfr := w', sv := s\<rparr>)"
    by (rule reachable.step [OF r1 sys_step.any [OF thread_step.fr_get]]) (simp_all add: w(2) g(1))
  with g(2) show ?thesis by (intro exI [of _ "?S\<lparr>tfr := w', sv := s\<rparr>"]) simp
qed

section \<open>Properties of the running service\<close>

text \<open>
  C5: However the threads interleave and whatever arrives, no buffer is ever
  in two places: the queues, the history and the hands of the four threads are disjoint, and
  together with the buffers of dropped messages they are exactly the two pools.
\<close>

theorem buffers_have_one_owner:
  assumes "sys_inv A B S0" "reachable S0 S"
  shows "\<exists>ins outs fin fout hs lost. queues (sv S) ins outs fin fout hs
    \<and> distinct (ins @ held_rx (trx S) @ outs @ held_ft (tft S) @ hs
        @ fin @ held_fr (tfr S) @ fout @ held_tx (ttx S) @ lost)
    \<and> set (ins @ held_rx (trx S) @ outs @ held_ft (tft S) @ hs) = set A
    \<and> set (fin @ held_fr (tfr S) @ fout @ held_tx (ttx S) @ lost) = set B
    \<and> length lost = (unat (pkt_drop_count (tfr S)) + 12) div 13"
proof -
  from reachable_inv [OF assms(2,1)] obtain ins outs fin fout hs lost where i: "pools A B"
    "queues (sv S) ins outs fin fout hs" "owned A B S ins outs fin fout hs lost" by (auto simp: sys_inv_iff)
  note A = owned_A [OF i(1,3)] and B = owned_B [OF i(1,3)]
  have "distinct ((ins @ held_rx (trx S) @ outs @ held_ft (tft S) @ hs)
      @ (fin @ held_fr (tfr S) @ fout @ held_tx (ttx S) @ lost))"
    using A(1,2) B(1,2,5) by (simp only: distinct_append)
  then have d: "distinct (ins @ held_rx (trx S) @ outs @ held_ft (tft S) @ hs
      @ fin @ held_fr (tfr S) @ fout @ held_tx (ttx S) @ lost)" by (simp only: append_assoc)
  have "length lost = (unat (pkt_drop_count (tfr S)) + 12) div 13" using i(3) by (simp only: owned_def)
  with i(2) d A(2) B(2) show ?thesis by blast
qed

theorem buffers_have_one_owner_witness:
  "\<exists>S. reachable system_1 S \<and> rx_pc (trx S) = RxGet \<and> (\<exists>ins outs fin fout hs lost. queues (sv S) ins outs fin fout hs
    \<and> distinct (ins @ held_rx (trx S) @ outs @ held_ft (tft S) @ hs
        @ fin @ held_fr (tfr S) @ fout @ held_tx (ttx S) @ lost)
    \<and> set (ins @ held_rx (trx S) @ outs @ held_ft (tft S) @ hs) = set [100]
    \<and> set (fin @ held_fr (tfr S) @ fout @ held_tx (ttx S) @ lost) = set [200]
    \<and> length lost = (unat (pkt_drop_count (tfr S)) + 12) div 13)"
proof -
  obtain S where S: "reachable system_1 S" "rx_pc (trx S) = RxGet" using system_1_step by blast
  show ?thesis
    by (rule exI [of _ S], rule conjI, rule S(1), rule conjI, rule S(2), rule buffers_have_one_owner [OF system_1_inv S(1)])
qed

lemma sender_fault_iff:
  assumes inv: "sys_inv A B S"
  shows "sender_fault S \<longleftrightarrow> fr_pc (tfr S) = FrReply \<and> \<not> sockTx (sv S)"
proof -
  have "r_udp_round clock (sv S) \<noteq> Some (Inl e)" for clock e
    using step_r_udp [OF inv, of clock] by auto
  then show ?thesis
    using step_fr_reply(1) [OF inv] step_rx_get(1) [OF inv] step_ft_get(1) [OF inv] step_fr_get(1) [OF inv]
    unfolding sender_fault_def by blast
qed

text \<open>
  C8: In every reachable state the threads that receive from the device, send
  to Fusion, receive from Fusion or free the history run into undefined behaviour in one case
  only: a request for a fragment is answered before \<open>r_udp_routine\<close> has set the socket for it.
  \<open>iot_transmit_routine\<close> is the only other data thread that can fail.
\<close>

theorem only_early_reply_faults:
  assumes "sys_inv A B S0" "reachable S0 S"
  shows "sender_fault S \<longleftrightarrow> fr_pc (tfr S) = FrReply \<and> \<not> sockTx (sv S)"
  by (rule sender_fault_iff [OF reachable_inv [OF assms(2,1)]])

theorem only_early_reply_faults_witness:
  "\<exists>S. reachable system_1 S \<and> rx_pc (trx S) = RxGet \<and> (sender_fault S \<longleftrightarrow> fr_pc (tfr S) = FrReply \<and> \<not> sockTx (sv S))"
  using system_1_step only_early_reply_faults [OF system_1_inv] by blast

text \<open>
  C9: In every reachable state a thread that has a buffer can queue it at once, and
  a round of the history walk ends: the only calls that block are those that wait for a
  datagram or for a buffer.
\<close>

theorem puts_never_block:
  assumes "sys_inv A B S0" "reachable S0 S"
  shows "(rx_pc (trx S) = RxPut \<longrightarrow> iot_rx_put (trx S) (sv S) \<noteq> None)
    \<and> (tx_pc (ttx S) = TxPut \<longrightarrow> iot_tx_put (ttx S) (sv S) \<noteq> None)
    \<and> (fr_pc (tfr S) = FrPut \<longrightarrow> fusion_rx_put (tfr S) (sv S) \<noteq> None)
    \<and> r_udp_round clock (sv S) \<noteq> None"
proof -
  note inv = reachable_inv [OF assms(2,1)]
  show ?thesis
    using step_rx_put [OF inv] step_tx_put [OF inv] step_fr_put [OF inv] step_r_udp [OF inv, of clock] by auto
qed

theorem puts_never_block_witness:
  "\<exists>S. reachable system_1 S \<and> rx_pc (trx S) = RxGet \<and> r_udp_round (\<lambda>_. \<lparr> tv_sec = 5, tv_usec = 0 \<rparr>) (sv S) \<noteq> None"
  using system_1_step puts_never_block [OF system_1_inv, where clock = "\<lambda>_. \<lparr> tv_sec = 5, tv_usec = 0 \<rparr>"] by blast

text \<open>
  C7: The buffer of every dropped message is lost, and one message in thirteen is
  dropped: with a receiving pool of \<open>n\<close> buffers at most \<open>13 n - 12\<close> messages from Fusion are ever
  accepted, and once that many were, \<open>fusion_receive_routine\<close> waits for a buffer forever.
\<close>

theorem forwarding_stops:
  assumes "sys_inv A B S0" "reachable S0 S"
  shows "unat (pkt_drop_count (tfr S)) \<le> 13 * length B - 12
    \<and> (B \<noteq> [] \<and> unat (pkt_drop_count (tfr S)) = 13 * length B - 12 \<longrightarrow> fusion_rx_get (tfr S) (sv S) = None)"
proof -
  from reachable_inv [OF assms(2,1)] obtain ins outs fin fout hs lost where i: "pools A B"
    "queues (sv S) ins outs fin fout hs" "owned A B S ins outs fin fout hs lost" by (auto simp: sys_inv_iff)
  have le: "unat (pkt_drop_count (tfr S)) \<le> 13 * length B - 12" using i(3) by (simp add: owned_def)
  have "fusion_rx_get (tfr S) (sv S) = None"
    if "B \<noteq> []" "unat (pkt_drop_count (tfr S)) = 13 * length B - 12"
  proof -
    have "length lost = length B" using i(3) that by (cases B) (simp_all add: owned_def)
    then have "fin = []"
      using i(3) mset_eq_length [of B "fin @ held_fr (tfr S) @ fout @ held_tx (ttx S) @ lost"]
      by (simp add: owned_def)
    with i(2) have "fifo_repr 8192 (fusionThrInFifo (cluster (sv S))) []" by (simp add: queues_def)
    from Fifo_get_empty [OF this] show ?thesis by (simp add: fusion_rx_get_def)
  qed
  with le show ?thesis by blast
qed

theorem forwarding_stops_witness:
  "\<exists>S. reachable system_1 S \<and> unat (pkt_drop_count (tfr S)) = 13 * length [200 :: ptr] - 12
    \<and> fusion_rx_get (tfr S) (sv S) = None"
proof -
  obtain S where "reachable system_1 S" "unat (pkt_drop_count (tfr S)) = 1" using system_1_drop by blast
  with forwarding_stops [OF system_1_inv, of S] show ?thesis by auto
qed

end
