(* ===== verification/Terminals.thy ===== *)
theory Terminals
  imports Prelude
begin

text \<open>
  \<open>src/Terminals_Handler.c\<close>: the pool of registered terminals.  \<open>hubpp\<close> is the build flag that
  decides the size of the pool; the pool is a heap object, \<open>None\<close> while the pointer is NULL.
\<close>

definition MAX_TERMINALS_COUNT :: "bool \<Rightarrow> nat" where
  "MAX_TERMINALS_COUNT hubpp = (if hubpp then 4096 else 1)"

record TerminalInfo =
  t_used :: bool
  terminalID :: u16
  t_port :: u16
  t_ip :: u32
  t_hiSkyId :: "byte list"

record TerminalCluster =
  TerminalPool :: "TerminalInfo list"
  ActiveTerminals :: u16

definition zero_terminal :: TerminalInfo where
  "zero_terminal = \<lparr> t_used = False, terminalID = 0, t_port = 0, t_ip = 0, t_hiSkyId = replicate 6 0 \<rparr>"

section \<open>Operations\<close>

text \<open>The result of \<open>malloc\<close> is not tested, only the address of the variable that holds it.\<close>

definition init_terminal_cluster :: "bool \<Rightarrow> bool \<Rightarrow> c_error + (TerminalCluster option \<times> int)" where
  "init_terminal_cluster hubpp malloc_ok =
     (if malloc_ok
      then Inr (Some \<lparr> TerminalPool = replicate (MAX_TERMINALS_COUNT hubpp) zero_terminal, ActiveTerminals = 0 \<rparr>, 0)
      else Inl NullDeref)"

definition add_TerminalData :: "bool \<Rightarrow> TerminalCluster option \<Rightarrow> u16 \<Rightarrow> u16 \<Rightarrow> u32 \<Rightarrow> byte list
    \<Rightarrow> c_error + (TerminalCluster option \<times> int)" where
  "add_TerminalData hubpp cl terminalId port ip hiSkyId =
     (let terminalIndex = int (unat terminalId) - 1 in
      case cl of
        None \<Rightarrow> Inr (cl, -1)
      | Some c \<Rightarrow>
          if MAX_TERMINALS_COUNT hubpp < unat terminalId then Inr (cl, -1)
          else if terminalIndex < 0 then Inl OutOfBounds
          else (let i = nat terminalIndex; e = TerminalPool c ! i;
                    c1 = (if \<not> t_used e then c\<lparr>ActiveTerminals := ActiveTerminals c + 1\<rparr> else c)
                in case memcpy (t_hiSkyId e) 0 hiSkyId 6 of
                     Inl err \<Rightarrow> Inl err
                   | Inr h \<Rightarrow> Inr (Some (c1\<lparr>TerminalPool := (TerminalPool c1)[i := e\<lparr>t_used := True, t_ip := ip,
                         t_port := port, terminalID := terminalId, t_hiSkyId := h\<rparr>]\<rparr>), 0)))"

definition remove_terminal :: "bool \<Rightarrow> TerminalCluster option \<Rightarrow> u16 \<Rightarrow> TerminalCluster option \<times> int" where
  "remove_terminal hubpp cl terminalId =
     (if MAX_TERMINALS_COUNT hubpp < unat terminalId \<or> terminalId = 0 then (cl, -1)
      else case cl of
        None \<Rightarrow> (cl, -1)
      | Some c \<Rightarrow>
          (let i = unat (terminalId - 1) in
           if t_used (TerminalPool c ! i)
           then (Some (c\<lparr>TerminalPool := (TerminalPool c)[i := zero_terminal],
                         ActiveTerminals := ActiveTerminals c - 1\<rparr>), 0)
           else (cl, -1)))"

definition get_terminal :: "bool \<Rightarrow> TerminalCluster option \<Rightarrow> u16 \<Rightarrow> TerminalInfo option" where
  "get_terminal hubpp cl terminalId =
     (if MAX_TERMINALS_COUNT hubpp < unat terminalId \<or> terminalId = 0 then None
      else case cl of
        None \<Rightarrow> None
      | Some c \<Rightarrow>
          (let i = unat (terminalId - 1) in
           if \<not> t_used (TerminalPool c ! i) then None else Some (TerminalPool c ! i)))"

section \<open>The contract of a registry\<close>

text \<open>
  A registry answers lookups like a finite map and counts its entries; an invalid key changes
  nothing.  The laws give the behaviour of every sequence of registrations and removals.
\<close>

datatype ('k, 'v) reg_op = Register 'k 'v | Unregister 'k

fun run_ops :: "('r \<Rightarrow> 'k \<Rightarrow> 'v \<Rightarrow> 'r) \<Rightarrow> ('r \<Rightarrow> 'k \<Rightarrow> 'r) \<Rightarrow> ('k, 'v) reg_op list \<Rightarrow> 'r \<Rightarrow> 'r" where
  "run_ops reg unreg [] r = r"
| "run_ops reg unreg (Register k v # ops) r = run_ops reg unreg ops (reg r k v)"
| "run_ops reg unreg (Unregister k # ops) r = run_ops reg unreg ops (unreg r k)"

fun map_ops :: "('k, 'v) reg_op list \<Rightarrow> ('k \<Rightarrow> 'v option) \<Rightarrow> ('k \<Rightarrow> 'v option)" where
  "map_ops [] m = m"
| "map_ops (Register k v # ops) m = map_ops ops (m(k \<mapsto> v))"
| "map_ops (Unregister k # ops) m = map_ops ops (m(k := None))"

locale registry =
  fixes ok :: "'r \<Rightarrow> bool"
    and valid :: "'k \<Rightarrow> 'v \<Rightarrow> bool"
    and look :: "'r \<Rightarrow> 'k \<Rightarrow> 'v option"
    and reg :: "'r \<Rightarrow> 'k \<Rightarrow> 'v \<Rightarrow> 'r"
    and unreg :: "'r \<Rightarrow> 'k \<Rightarrow> 'r"
    and entries :: "'r \<Rightarrow> nat"
  assumes ok_reg: "ok r \<Longrightarrow> valid k v \<Longrightarrow> ok (reg r k v)"
    and ok_unreg: "ok r \<Longrightarrow> ok (unreg r k)"
    and look_reg: "ok r \<Longrightarrow> valid k v \<Longrightarrow> look (reg r k v) = (look r)(k \<mapsto> v)"
    and look_unreg: "ok r \<Longrightarrow> look (unreg r k) = (look r)(k := None)"
    and entries_card: "ok r \<Longrightarrow> entries r = card (dom (look r))"
begin

lemma run_ops_map:
  assumes "ok r" "\<forall>x \<in> set ops. case x of Register k v \<Rightarrow> valid k v | Unregister k \<Rightarrow> True"
  shows "ok (run_ops reg unreg ops r) \<and> look (run_ops reg unreg ops r) = map_ops ops (look r)
    \<and> entries (run_ops reg unreg ops r) = card (dom (map_ops ops (look r)))"
  using assms
proof (induction ops arbitrary: r)
  case Nil
  then show ?case by (simp add: entries_card)
next
  case (Cons x ops)
  then show ?case
    by (cases x) (simp_all add: ok_reg ok_unreg look_reg look_unreg)
qed

end


section \<open>The pool is a registry\<close>

text \<open>
  What a registration stores; the count of used entries; registrations of the calls that
  succeed, with the pool taken out of the pointer.
\<close>

type_synonym registration = "u16 \<times> u32 \<times> byte list"

definition wf_cluster :: "bool \<Rightarrow> TerminalCluster \<Rightarrow> bool" where
  "wf_cluster hubpp c \<longleftrightarrow> length (TerminalPool c) = MAX_TERMINALS_COUNT hubpp
     \<and> (\<forall>e \<in> set (TerminalPool c). length (t_hiSkyId e) = 6)
     \<and> unat (ActiveTerminals c) = card {i. i < MAX_TERMINALS_COUNT hubpp \<and> t_used (TerminalPool c ! i)}"

definition terminal_look :: "bool \<Rightarrow> TerminalCluster \<Rightarrow> u16 \<Rightarrow> registration option" where
  "terminal_look hubpp c tid = map_option (\<lambda>e. (t_port e, t_ip e, t_hiSkyId e)) (get_terminal hubpp (Some c) tid)"

definition terminal_reg :: "bool \<Rightarrow> TerminalCluster \<Rightarrow> u16 \<Rightarrow> registration \<Rightarrow> TerminalCluster" where
  "terminal_reg hubpp c tid v = (case v of (port, ip, h) \<Rightarrow>
     (case add_TerminalData hubpp (Some c) tid port ip h of Inr (Some c', r) \<Rightarrow> c' | _ \<Rightarrow> c))"

definition terminal_unreg :: "bool \<Rightarrow> TerminalCluster \<Rightarrow> u16 \<Rightarrow> TerminalCluster" where
  "terminal_unreg hubpp c tid = (case remove_terminal hubpp (Some c) tid of (Some c', r) \<Rightarrow> c' | _ \<Rightarrow> c)"

definition valid_id :: "bool \<Rightarrow> u16 \<Rightarrow> bool" where
  "valid_id hubpp tid \<longleftrightarrow> 0 < unat tid \<and> unat tid \<le> MAX_TERMINALS_COUNT hubpp"

lemma unat_minus_1: "0 < unat (x :: u16) \<Longrightarrow> unat (x - 1) = unat x - 1"
  by (simp add: unat_sub_if')

lemma get_terminal_eq:
  "get_terminal hubpp (Some c) tid =
     (if valid_id hubpp tid \<and> t_used (TerminalPool c ! (unat tid - 1)) then Some (TerminalPool c ! (unat tid - 1)) else None)"
  by (auto simp: get_terminal_def valid_id_def Let_def unat_minus_1 unat_eq_0 unat_gt_0)

lemma card_upd:
  fixes P :: "nat \<Rightarrow> bool"
  assumes "i < n"
  shows "card {j. j < n \<and> (j = i \<or> P j)} = (if P i then card {j. j < n \<and> P j} else Suc (card {j. j < n \<and> P j}))"
    and "P i \<Longrightarrow> Suc (card {j. j < n \<and> j \<noteq> i \<and> P j}) = card {j. j < n \<and> P j}"
proof -
  have e: "{j. j < n \<and> (j = i \<or> P j)} = insert i {j. j < n \<and> P j}" using assms by auto
  show "card {j. j < n \<and> (j = i \<or> P j)} = (if P i then card {j. j < n \<and> P j} else Suc (card {j. j < n \<and> P j}))"
    unfolding e using assms by (simp add: card_insert_if)
  assume "P i"
  then have "{j. j < n \<and> P j} = insert i {j. j < n \<and> j \<noteq> i \<and> P j}" using assms by auto
  then show "Suc (card {j. j < n \<and> j \<noteq> i \<and> P j}) = card {j. j < n \<and> P j}" by simp
qed

lemma card_used_le: "card {i. i < n \<and> P i} \<le> n"
  using card_mono [of "{..<n}" "{i. i < n \<and> P i}"] by auto

lemma index_of_id: "0 < n \<Longrightarrow> nat (int n - 1) = n - 1" "0 < n \<Longrightarrow> \<not> int n - 1 < 0" for n :: nat
  by simp_all

lemma used_upd:
  assumes "length P = n" "i < n"
  shows "{j. j < n \<and> t_used (P[i := e] ! j)} =
    (if t_used e then {j. j < n \<and> (j = i \<or> t_used (P ! j))} else {j. j < n \<and> j \<noteq> i \<and> t_used (P ! j)})"
  using assms by (auto simp: nth_list_update split: if_splits)

text \<open>A registration with a valid id succeeds.\<close>

lemma add_TerminalData_valid:
  assumes wf: "wf_cluster hubpp c" and v: "valid_id hubpp tid" and h: "length h = 6"
  shows "\<exists>c'. add_TerminalData hubpp (Some c) tid port ip h = Inr (Some c', 0) \<and> wf_cluster hubpp c'
    \<and> TerminalPool c' = (TerminalPool c)[unat tid - 1 := \<lparr> t_used = True, terminalID = tid, t_port = port, t_ip = ip, t_hiSkyId = h \<rparr>]"
proof -
  let ?i = "unat tid - 1" and ?n = "MAX_TERMINALS_COUNT hubpp"
  let ?e = "\<lparr> t_used = True, terminalID = tid, t_port = port, t_ip = ip, t_hiSkyId = h \<rparr>"
  have v': "0 < unat tid" "unat tid \<le> ?n" using v by (simp_all add: valid_id_def)
  then have "?i < ?n" "\<not> ?n < unat tid" by linarith+
  note i = this(1) index_of_id(1) [OF v'(1)] index_of_id(2) [OF v'(1)] this(2)
  have w: "length (TerminalPool c) = ?n" "length (t_hiSkyId (TerminalPool c ! ?i)) = 6"
    "unat (ActiveTerminals c) = card {i. i < ?n \<and> t_used (TerminalPool c ! i)}"
    using wf i(1) by (simp_all add: wf_cluster_def)
  have cp: "memcpy (t_hiSkyId (TerminalPool c ! ?i)) 0 h 6 = Inr h" using w(2) h by (simp add: memcpy_def mem_write_def)
  let ?c = "(if \<not> t_used (TerminalPool c ! ?i) then c\<lparr>ActiveTerminals := ActiveTerminals c + 1\<rparr> else c)
      \<lparr>TerminalPool := (TerminalPool c)[?i := ?e]\<rparr>"
  have e: "(TerminalPool c ! ?i)\<lparr>t_used := True, t_ip := ip, t_port := port, terminalID := tid, t_hiSkyId := h\<rparr> = ?e"
    by (cases "TerminalPool c ! ?i") simp
  have add: "add_TerminalData hubpp (Some c) tid port ip h = Inr (Some ?c, 0)"
    by (simp only: add_TerminalData_def Let_def option.case i(2-4) cp if_False sum.case e)
      simp
  have n: "?n \<le> 4096" by (simp add: MAX_TERMINALS_COUNT_def)
  have "card {i. i < ?n \<and> t_used (TerminalPool c ! i)} \<le> ?n" by (rule card_used_le)
  then have act: "unat (ActiveTerminals c + 1) = Suc (unat (ActiveTerminals c))"
    using w(3) n by (simp add: unat_word_ariths)
  have used: "{j. j < ?n \<and> t_used ((TerminalPool c)[?i := ?e] ! j)} = {j. j < ?n \<and> (j = ?i \<or> t_used (TerminalPool c ! j))}"
    unfolding used_upd [OF w(1) i(1)] by simp
  have "unat (ActiveTerminals ?c) = card {j. j < ?n \<and> t_used ((TerminalPool c)[?i := ?e] ! j)}"
    unfolding used card_upd(1) [OF i(1)] using w(3) act by simp
  moreover have "\<forall>e \<in> set ((TerminalPool c)[?i := ?e]). length (t_hiSkyId e) = 6"
    using wf h by (auto simp: wf_cluster_def dest!: set_update_subset_insert [THEN subsetD])
  ultimately have "wf_cluster hubpp ?c" using w(1) by (simp add: wf_cluster_def)
  with add show ?thesis by auto
qed


lemma remove_terminal_used:
  assumes wf: "wf_cluster hubpp c" and v: "valid_id hubpp tid" and used: "t_used (TerminalPool c ! (unat tid - 1))"
  shows "\<exists>c'. remove_terminal hubpp (Some c) tid = (Some c', 0) \<and> wf_cluster hubpp c'
    \<and> TerminalPool c' = (TerminalPool c)[unat tid - 1 := zero_terminal]"
proof -
  let ?i = "unat tid - 1" and ?n = "MAX_TERMINALS_COUNT hubpp"
  have v': "0 < unat tid" "unat tid \<le> ?n" using v by (simp_all add: valid_id_def)
  have i: "?i < ?n" "unat (tid - 1) = ?i" "tid \<noteq> 0" using v' unat_minus_1 [of tid] by auto
  have w: "length (TerminalPool c) = ?n" "unat (ActiveTerminals c) = card {i. i < ?n \<and> t_used (TerminalPool c ! i)}"
    using wf by (simp_all add: wf_cluster_def)
  let ?c = "c\<lparr>TerminalPool := (TerminalPool c)[?i := zero_terminal], ActiveTerminals := ActiveTerminals c - 1\<rparr>"
  have "\<not> (?n < unat tid \<or> tid = 0)" using v' i(3) by simp
  then have rm: "remove_terminal hubpp (Some c) tid = (Some ?c, 0)"
    using used by (simp only: remove_terminal_def Let_def option.case i(2) if_True if_False)
  have ne: "\<not> t_used zero_terminal" by (simp add: zero_terminal_def)
  have set: "{j. j < ?n \<and> t_used ((TerminalPool c)[?i := zero_terminal] ! j)}
      = {j. j < ?n \<and> j \<noteq> ?i \<and> t_used (TerminalPool c ! j)}"
    unfolding used_upd [OF w(1) i(1)] using ne by simp
  have cnt: "Suc (card {j. j < ?n \<and> t_used ((TerminalPool c)[?i := zero_terminal] ! j)}) = unat (ActiveTerminals c)"
    unfolding set w(2) by (rule card_upd(2) [OF i(1), of "\<lambda>j. t_used (TerminalPool c ! j)", OF used])
  then have "unat (ActiveTerminals c - 1) = unat (ActiveTerminals c) - 1" by (intro unat_minus_1) simp
  then have "unat (ActiveTerminals ?c) = card {j. j < ?n \<and> t_used ((TerminalPool c)[?i := zero_terminal] ! j)}"
    using cnt by simp
  moreover have "\<forall>e \<in> set ((TerminalPool c)[?i := zero_terminal]). length (t_hiSkyId e) = 6"
    using wf by (auto simp: wf_cluster_def zero_terminal_def dest!: set_update_subset_insert [THEN subsetD])
  ultimately have "wf_cluster hubpp ?c" using w(1) by (simp add: wf_cluster_def)
  with rm show ?thesis by auto
qed

lemma remove_terminal_unused:
  "\<not> (valid_id hubpp tid \<and> t_used (TerminalPool c ! (unat tid - 1))) \<Longrightarrow> remove_terminal hubpp (Some c) tid = (Some c, -1)"
  by (auto simp: remove_terminal_def valid_id_def Let_def unat_minus_1 unat_eq_0 unat_gt_0)

text \<open>Valid ids name different entries of the pool.\<close>

lemma valid_id_inj: "valid_id hubpp a \<Longrightarrow> valid_id hubpp b \<Longrightarrow> unat a - 1 = unat b - 1 \<longleftrightarrow> a = b"
  by (auto simp: valid_id_def word_unat_eq_iff)

lemma nth_pool_upd:
  assumes "wf_cluster hubpp c" "valid_id hubpp a" "valid_id hubpp b"
  shows "(TerminalPool c)[unat a - 1 := e] ! (unat b - 1) = (if a = b then e else TerminalPool c ! (unat b - 1))"
proof -
  have "unat a - 1 < length (TerminalPool c)"
    using assms(1,2) by (simp add: wf_cluster_def valid_id_def) linarith
  then show ?thesis using valid_id_inj [OF assms(2,3)] by (simp only: nth_list_update)
qed

lemma card_dom_look:
  "card (dom (terminal_look hubpp c)) = card {i. i < MAX_TERMINALS_COUNT hubpp \<and> t_used (TerminalPool c ! i)}"
proof -
  let ?D = "dom (terminal_look hubpp c)"
  have d: "tid \<in> ?D \<longleftrightarrow> valid_id hubpp tid \<and> t_used (TerminalPool c ! (unat tid - 1))" for tid
    by (auto simp: terminal_look_def get_terminal_eq split: if_splits)
  have n: "MAX_TERMINALS_COUNT hubpp \<le> 4096" by (simp add: MAX_TERMINALS_COUNT_def)
  have u: "unat (of_nat (Suc i) :: u16) = Suc i" if "i < MAX_TERMINALS_COUNT hubpp" for i
    by (rule unat_of_nat_small) (use that n in simp)
  have img: "(\<lambda>tid. unat tid - 1) ` ?D = {i. i < MAX_TERMINALS_COUNT hubpp \<and> t_used (TerminalPool c ! i)}"
  proof (intro equalityI subsetI)
    fix i assume "i \<in> {i. i < MAX_TERMINALS_COUNT hubpp \<and> t_used (TerminalPool c ! i)}"
    then have "of_nat (Suc i) \<in> ?D" "i = unat (of_nat (Suc i) :: u16) - 1"
      unfolding d valid_id_def using u by simp_all
    then show "i \<in> (\<lambda>tid. unat tid - 1) ` ?D" by blast
  next
    fix i assume "i \<in> (\<lambda>tid. unat tid - 1) ` ?D"
    then obtain tid where t: "tid \<in> ?D" "i = unat tid - 1" by blast
    then have v: "valid_id hubpp tid" "t_used (TerminalPool c ! (unat tid - 1))" using d [of tid] by blast+
    from v(1) have "unat tid - 1 < MAX_TERMINALS_COUNT hubpp" unfolding valid_id_def by linarith
    with v(2) show "i \<in> {i. i < MAX_TERMINALS_COUNT hubpp \<and> t_used (TerminalPool c ! i)}" by (simp add: t(2))
  qed
  have inj: "inj_on (\<lambda>tid. unat tid - 1) ?D"
  proof (rule inj_onI)
    fix a b assume ab: "a \<in> ?D" "b \<in> ?D" "unat a - 1 = unat b - 1"
    note v = conjunct1 [OF iffD1 [OF d ab(1)]] conjunct1 [OF iffD1 [OF d ab(2)]]
    from iffD1 [OF valid_id_inj [OF v] ab(3)] show "a = b" .
  qed
  show ?thesis using card_image [OF inj] by (simp only: img)
qed

lemma terminal_look_reg:
  assumes "wf_cluster hubpp c" "valid_id hubpp tid" "length h = 6"
  shows "wf_cluster hubpp (terminal_reg hubpp c tid (port, ip, h))"
    and "terminal_look hubpp (terminal_reg hubpp c tid (port, ip, h)) = (terminal_look hubpp c)(tid \<mapsto> (port, ip, h))"
proof -
  from add_TerminalData_valid [OF assms, of port ip] obtain c' where
    c: "add_TerminalData hubpp (Some c) tid port ip h = Inr (Some c', 0)" "wf_cluster hubpp c'"
    "TerminalPool c' = (TerminalPool c)[unat tid - 1 := \<lparr> t_used = True, terminalID = tid, t_port = port, t_ip = ip, t_hiSkyId = h \<rparr>]"
    by blast
  then show "wf_cluster hubpp (terminal_reg hubpp c tid (port, ip, h))" by (simp add: terminal_reg_def)
  have "terminal_look hubpp c' x = ((terminal_look hubpp c)(tid \<mapsto> (port, ip, h))) x" for x
    using nth_pool_upd [OF assms(1,2), of x] assms(2)
    by (cases "valid_id hubpp x") (auto simp: terminal_look_def get_terminal_eq c(3))
  with c(1) show "terminal_look hubpp (terminal_reg hubpp c tid (port, ip, h)) = (terminal_look hubpp c)(tid \<mapsto> (port, ip, h))"
    by (auto simp: terminal_reg_def)
qed

lemma terminal_look_unreg:
  assumes "wf_cluster hubpp c"
  shows "wf_cluster hubpp (terminal_unreg hubpp c tid)"
    and "terminal_look hubpp (terminal_unreg hubpp c tid) = (terminal_look hubpp c)(tid := None)"
proof -
  have "wf_cluster hubpp (terminal_unreg hubpp c tid)
    \<and> terminal_look hubpp (terminal_unreg hubpp c tid) = (terminal_look hubpp c)(tid := None)"
  proof (cases "valid_id hubpp tid \<and> t_used (TerminalPool c ! (unat tid - 1))")
    case True
    with remove_terminal_used [OF assms, of tid] obtain c' where
      c: "remove_terminal hubpp (Some c) tid = (Some c', 0)" "wf_cluster hubpp c'"
      "TerminalPool c' = (TerminalPool c)[unat tid - 1 := zero_terminal]" by blast
    have "terminal_look hubpp c' x = ((terminal_look hubpp c)(tid := None)) x" for x
      using nth_pool_upd [OF assms, of tid x] True
      by (cases "valid_id hubpp x") (auto simp: terminal_look_def get_terminal_eq c(3) zero_terminal_def)
    with c(1,2) show ?thesis by (auto simp: terminal_unreg_def)
  next
    case False
    with remove_terminal_unused [OF False] assms show ?thesis
      by (auto simp: terminal_unreg_def terminal_look_def get_terminal_eq)
  qed
  then show "wf_cluster hubpp (terminal_unreg hubpp c tid)"
    "terminal_look hubpp (terminal_unreg hubpp c tid) = (terminal_look hubpp c)(tid := None)" by simp_all
qed

text \<open>The registry's keys carry the length of the six-byte identifier as part of the value.\<close>

interpretation terminals: registry "wf_cluster hubpp"
  "\<lambda>x v. valid_id hubpp x \<and> length (snd (snd v)) = 6"
  "terminal_look hubpp" "terminal_reg hubpp" "terminal_unreg hubpp" "\<lambda>c. unat (ActiveTerminals c)" for hubpp
proof unfold_locales
  fix c assume "wf_cluster hubpp c"
  then show "unat (ActiveTerminals c) = card (dom (terminal_look hubpp c))"
    by (simp add: card_dom_look wf_cluster_def)
qed (auto simp: terminal_look_reg terminal_look_unreg)

text \<open>
  C19: Any sequence of registrations with valid ids and removals makes the pool
  answer lookups like the finite map that went through the same updates, and
  \<open>ActiveTerminals\<close> is exactly the number of registered terminals.
\<close>

theorem terminals_refine_map:
  assumes "wf_cluster hubpp c"
    and "\<forall>x \<in> set ops. case x of Register k v \<Rightarrow> valid_id hubpp k \<and> length (snd (snd v)) = 6 | Unregister k \<Rightarrow> True"
  shows "wf_cluster hubpp (run_ops (terminal_reg hubpp) (terminal_unreg hubpp) ops c)
    \<and> terminal_look hubpp (run_ops (terminal_reg hubpp) (terminal_unreg hubpp) ops c) = map_ops ops (terminal_look hubpp c)
    \<and> unat (ActiveTerminals (run_ops (terminal_reg hubpp) (terminal_unreg hubpp) ops c))
        = card (dom (map_ops ops (terminal_look hubpp c)))"
  by (rule terminals.run_ops_map [OF assms])

lemma init_terminal_cluster_wf:
  "init_terminal_cluster hubpp True = Inr (Some c, r) \<Longrightarrow> wf_cluster hubpp c \<and> terminal_look hubpp c = (\<lambda>_. None)"
  by (auto simp: init_terminal_cluster_def wf_cluster_def zero_terminal_def terminal_look_def get_terminal_eq
      valid_id_def fun_eq_iff)

theorem terminals_refine_map_witness:
  "wf_cluster True (run_ops (terminal_reg True) (terminal_unreg True) [Register 7 (80, 1, replicate 6 9), Unregister 7]
        \<lparr> TerminalPool = replicate 4096 zero_terminal, ActiveTerminals = 0 \<rparr>)
    \<and> terminal_look True (run_ops (terminal_reg True) (terminal_unreg True) [Register 7 (80, 1, replicate 6 9), Unregister 7]
        \<lparr> TerminalPool = replicate 4096 zero_terminal, ActiveTerminals = 0 \<rparr>)
      = map_ops [Register 7 (80, 1, replicate 6 9), Unregister 7]
          (terminal_look True \<lparr> TerminalPool = replicate 4096 zero_terminal, ActiveTerminals = 0 \<rparr>)
    \<and> unat (ActiveTerminals (run_ops (terminal_reg True) (terminal_unreg True)
          [Register 7 (80, 1, replicate 6 9), Unregister 7] \<lparr> TerminalPool = replicate 4096 zero_terminal, ActiveTerminals = 0 \<rparr>))
      = card (dom (map_ops [Register 7 (80, 1, replicate 6 9), Unregister 7]
          (terminal_look True \<lparr> TerminalPool = replicate 4096 zero_terminal, ActiveTerminals = 0 \<rparr>)))"
proof (rule terminals_refine_map)
  show "wf_cluster True \<lparr> TerminalPool = replicate 4096 zero_terminal, ActiveTerminals = 0 \<rparr>"
    using init_terminal_cluster_wf [of True] by (simp add: init_terminal_cluster_def MAX_TERMINALS_COUNT_def)
qed (simp add: valid_id_def MAX_TERMINALS_COUNT_def)

text \<open>
  A registration with id 0 passes the check of the id and writes in
  front of the pool, while removals and lookups of id 0 are refused.
\<close>

theorem add_terminal_zero_fails:
  "add_TerminalData hubpp (Some c) 0 port ip h = Inl OutOfBounds
   \<and> remove_terminal hubpp (Some c) 0 = (Some c, -1) \<and> get_terminal hubpp (Some c) 0 = None"
  by (simp add: add_TerminalData_def remove_terminal_def get_terminal_def)

end
