(* ===== verification/Recovery.thy ===== *)
theory Recovery
  imports System Rudp_Behaviour
begin

text \<open>
  Recovery of lost fragments across the two sides of the protocol: requests of
  \<open>src/rudp_req.c\<close>, replies of \<open>src/r_udp.c\<close>, and the race between a reply and the expiry of
  the history.
\<close>

section \<open>A request is answered\<close>

definition reply_of :: "Msg_Buf \<Rightarrow> Msg_Buf" where
  "reply_of m = m\<lparr>msgHeader := (msgHeader m)\<lparr>h_msgCode := MSG_CODE_REPLY_FRAG\<rparr>\<rparr>"

lemma reply_of_simps [simp]:
  "wf_Msg_Buf (reply_of m) = wf_Msg_Buf m" "m_msgLen (reply_of m) = m_msgLen m" "chunk_of (reply_of m) = chunk_of m"
  "msgHeader (reply_of m) = (msgHeader m)\<lparr>h_msgCode := MSG_CODE_REPLY_FRAG\<rparr>"
  by (simp_all add: reply_of_def wf_Msg_Buf_def chunk_of_def)

lemma wire_reply_linger:
  assumes "wf_Msg_Buf m" "unat (m_msgLen m) \<le> 60"
  shows "wire (reply_of (m\<lparr>m_time := t\<rparr>)) = wire (reply_of m)"
proof -
  have "wf_Msg_Buf (reply_of (m\<lparr>m_time := t\<rparr>))" "chunk_of (m\<lparr>m_time := t\<rparr>) = chunk_of m"
    using assms(1) by (simp_all add: wf_Msg_Buf_def chunk_of_def reply_of_def)
  then show ?thesis using assms wire_eq [of "reply_of m"] wire_eq [of "reply_of (m\<lparr>m_time := t\<rparr>)"] by simp
qed

lemma send_reply_wire:
  assumes "wf_Msg_Buf (store s p)" "unat (m_msgLen (store s p)) \<le> 60"
  shows "send_reply True p s = Inr (wire (reply_of (store s p)), store_upd p reply_of s)"
  using send_reply_Inr [OF assms] by (simp add: reply_of_def [abs_def])

lemma request_bytes:
  "length (request_for pad s j) = 3"
  by (simp add: request_for_def rUdpFragmntReq_bytes_def)

text \<open>
  C22: The datagram with which the receiving side asks for a fragment, taken by
  \<open>fusion_receive_routine\<close> on the sending side while the fragment is in the history, makes it
  send the header of that fragment, marked as a reply, and its data.  Finding the fragment adds one
  second to its time and sending it leaves the message code of a reply in its header; every
  other buffer, the list, the queues and the rest of the service are as before.
\<close>

theorem request_is_answered:
  assumes "hist_repr r xs" "List.find (\<lambda>x. is_frag (of_nat j) (of_nat s) (store r x)) xs = Some p"
    and "wf_Msg_Buf (store r p)" "unat (m_msgLen (store r p)) \<le> 60" "sockTx r" "wf_Msg_Buf (rxMsgPayload u)"
  shows "\<exists>u1 u2. fusion_rx_recv (Some (request_for pad s j)) u r = Some (u1,
        r\<lparr>store := (store r)(p := (store r p)\<lparr>m_time := (m_time (store r p))\<lparr>tv_sec := tv_sec (m_time (store r p)) + 1\<rparr>\<rparr>)\<rparr>)
    \<and> fr_pc u1 = FrReply
    \<and> fusion_rx_reply u1
        (r\<lparr>store := (store r)(p := (store r p)\<lparr>m_time := (m_time (store r p))\<lparr>tv_sec := tv_sec (m_time (store r p)) + 1\<rparr>\<rparr>)\<rparr>)
      = Inr (u2,
          r\<lparr>store := (store r)(p := (store r p)
            \<lparr>msgHeader := (msgHeader (store r p))\<lparr>h_msgCode := MSG_CODE_REPLY_FRAG\<rparr>,
             m_time := (m_time (store r p))\<lparr>tv_sec := tv_sec (m_time (store r p)) + 1\<rparr>\<rparr>)\<rparr>,
          [ToFusion (Msg_Header_bytes ((msgHeader (store r p))\<lparr>h_msgCode := MSG_CODE_REPLY_FRAG\<rparr>) @ chunk_of (store r p))])
    \<and> fr_pc u2 = FrRecv
    \<and> hist_repr (r\<lparr>store := (store r)(p := (store r p)
            \<lparr>msgHeader := (msgHeader (store r p))\<lparr>h_msgCode := MSG_CODE_REPLY_FRAG\<rparr>,
             m_time := (m_time (store r p))\<lparr>tv_sec := tv_sec (m_time (store r p)) + 1\<rparr>\<rparr>)\<rparr>) xs"
proof -
  let ?req = "\<lparr> q_msgCode = MSG_CODE_REQUEST_FRAG, q_pad = pad, q_fragmntLost = of_nat j, q_seqNum = of_nat s \<rparr>"
  let ?raw = "mem_write (Msg_Buf_bytes (rxMsgPayload u)) 0 (take sizeof_Msg_Buf (request_for pad s j))"
  have raw: "?raw = rUdpFragmntReq_bytes ?req @ drop 3 (Msg_Buf_bytes (rxMsgPayload u))"
    using request_bytes [of pad s j] by (simp add: mem_write_def sizeofs request_for_def)
  have req: "rUdpFragmntReq_of_bytes ?raw = ?req" unfolding raw by (rule rUdpFragmntReq_roundtrip)
  have "h_msgCode (msgHeader (Msg_Buf_of_bytes ?raw)) = h_msgCode (Msg_Header_of_bytes ?raw)"
    by (simp add: Msg_Buf_of_bytes_def Msg_Header_of_bytes_take)
  also have "\<dots> = MSG_CODE_REQUEST_FRAG" unfolding msgCode_same_bits req by simp
  finally have code: "h_msgCode (msgHeader (Msg_Buf_of_bytes ?raw)) = MSG_CODE_REQUEST_FRAG" .
  have "hist_search (store r) (ListHead r) (of_nat j) (of_nat s) = Some p"
    using hist_search_path [of "store r" "ListHead r" xs "of_nat j" "of_nat s"] assms(1,2) by (simp add: hist_repr_def)
  moreover have "p \<noteq> NULL" using find_Some_mem [OF assms(2)] assms(1) path_notNULL by (auto simp: hist_repr_def)
  ultimately have rv: "fusion_rx_recv (Some (request_for pad s j)) u r =
      Some (u\<lparr>rxMsgPayload := Msg_Buf_of_bytes ?raw, fr_pkt := p, fr_pc := FrReply\<rparr>, hist_linger p r)"
    using request_bytes [of pad s j] code
    by (auto simp: fusion_rx_recv_def Let_def req hist_find_frag_def)
  let ?m = "store (hist_linger p r) p"
  have m: "?m = (store r p)\<lparr>m_time := (m_time (store r p))\<lparr>tv_sec := tv_sec (m_time (store r p)) + 1\<rparr>\<rparr>"
    by (simp add: store_hist_linger)
  have "wf_Msg_Buf ?m" "unat (m_msgLen ?m) \<le> 60" using assms(3,4) by (simp_all add: hist_linger_contents)
  note sr = send_reply_wire [OF this]
  have "sockTx (hist_linger p r)" using assms(5) by (simp add: hist_linger_def store_upd_def)
  then have rp: "fusion_rx_reply (u\<lparr>rxMsgPayload := Msg_Buf_of_bytes ?raw, fr_pkt := p, fr_pc := FrReply\<rparr>) (hist_linger p r)
      = Inr (u\<lparr>rxMsgPayload := Msg_Buf_of_bytes ?raw, fr_pkt := p, fr_pc := FrRecv\<rparr>,
          store_upd p reply_of (hist_linger p r), [ToFusion (wire (reply_of (store r p)))])"
    using sr wire_reply_linger [OF assms(3,4)] by (simp add: fusion_rx_reply_def m)
  have h: "hist_repr (store_upd p reply_of (hist_linger p r)) xs"
    using assms(1) by (subst hist_repr_store_upd) (simp_all add: hist_linger_repr reply_of_def)
  have l: "hist_linger p r = r\<lparr>store := (store r)(p := (store r p)\<lparr>m_time := (m_time (store r p))\<lparr>tv_sec := tv_sec (m_time (store r p)) + 1\<rparr>\<rparr>)\<rparr>"
    by (simp add: hist_linger_def store_upd_def)
  have r2: "store_upd p reply_of (hist_linger p r) = r\<lparr>store := (store r)(p := (store r p)
            \<lparr>msgHeader := (msgHeader (store r p))\<lparr>h_msgCode := MSG_CODE_REPLY_FRAG\<rparr>,
             m_time := (m_time (store r p))\<lparr>tv_sec := tv_sec (m_time (store r p)) + 1\<rparr>\<rparr>)\<rparr>"
    by (cases "store r p") (simp add: l store_upd_def reply_of_def)
  have w: "wire (reply_of (store r p)) = Msg_Header_bytes ((msgHeader (store r p))\<lparr>h_msgCode := MSG_CODE_REPLY_FRAG\<rparr>) @ chunk_of (store r p)"
    using wire_eq [of "reply_of (store r p)"] assms(3,4) by simp
  show ?thesis using rv [unfolded l] rp [unfolded r2 w, unfolded l] h [unfolded r2]
    by (intro exI conjI) (assumption | simp)+
qed

text \<open>The first buffer of a history of three.\<close>

theorem request_is_answered_witness:
  "let r = service_3\<lparr>store := store hist_example, ListHead := 100, ListTail := 300\<rparr>; m = store hist_example 100;
       r1 = r\<lparr>store := (store r)(100 := m\<lparr>m_time := (m_time m)\<lparr>tv_sec := tv_sec (m_time m) + 1\<rparr>\<rparr>)\<rparr>;
       r2 = r\<lparr>store := (store r)(100 := m\<lparr>msgHeader := (msgHeader m)\<lparr>h_msgCode := MSG_CODE_REPLY_FRAG\<rparr>,
         m_time := (m_time m)\<lparr>tv_sec := tv_sec (m_time m) + 1\<rparr>\<rparr>)\<rparr>
   in \<exists>u1 u2. fusion_rx_recv (Some (request_for 0 0 0)) (tfr system_1) r = Some (u1, r1)
     \<and> fr_pc u1 = FrReply
     \<and> fusion_rx_reply u1 r1 = Inr (u2, r2, [ToFusion (Msg_Header_bytes ((msgHeader m)\<lparr>h_msgCode := MSG_CODE_REPLY_FRAG\<rparr>) @ chunk_of m)])
     \<and> fr_pc u2 = FrRecv \<and> hist_repr r2 [100, 200, 300]"
proof -
  let ?r = "service_3\<lparr>store := store hist_example, ListHead := 100, ListTail := 300\<rparr>"
  have "hist_repr ?r [100, 200, 300]" "List.find (\<lambda>x. is_frag (of_nat 0) (of_nat 0) (store ?r x)) [100, 200, 300] = Some 100"
    "wf_Msg_Buf (store ?r 100)" "unat (m_msgLen (store ?r 100)) \<le> 60" "sockTx ?r" "wf_Msg_Buf (rxMsgPayload (tfr system_1))"
    by (simp_all add: hist_repr_def hist_example_def is_frag_def wf_Msg_Buf_def zero_Msg_Buf_def MAX_MSG_SIZE_def
      service_3_def system_1_def)
  from request_is_answered [OF this, of 0] show ?thesis by (simp add: Let_def)
qed

section \<open>The missing fragments complete the packet\<close>

text \<open>
  C23: A packet with a sequence number of 0 to 3 modulo 16, of which only the
  fragments in \<open>I\<close> arrived, at least one of them: when the
  replies for all the others arrive, in any order, the device gets the whole datagram, once,
  and the packet's slot is free again.
\<close>

theorem lost_fragments_recovered:
  assumes "data \<noteq> []" "length data \<le> 1500" "unat tx mod 16 < 4"
    and "rudp_rel st A" "A (unat tx mod 16) = partial_slot (chunks data) I" "I \<noteq> {}"
    and "distinct is" "is \<noteq> []" "I \<union> set is = {0..<fragment_count (length data)}" "I \<inter> set is = {}"
    and "\<forall>i. wf_Msg_Buf (buffer i)" "\<forall>i. wf_Msg_Buf (payload i)"
  shows "\<exists>st'. iot_deliver_all
      (map (\<lambda>i. (env i, received (payload i) (wire (sent_fragment True tx data i (buffer i))))) is) st
      = Inr (st', [data]) \<and> rudp_rel st' (A(unat tx mod 16 := []))"
proof -
  let ?r = "\<lambda>i. received (payload i) (wire (sent_fragment True tx data i (buffer i)))"
  let ?ms = "map (\<lambda>i. (env i, ?r i)) is" and ?s = "unat tx mod 16"
  have r: "carries ?s (chunks data) (?r i) \<and> msg_idx (?r i) = i" if i: "i \<in> set is" for i
  proof -
    have "i < fragment_count (length data)" using i assms(9) by (metis UnCI atLeastLessThan_iff)
    then show ?thesis using received_sent_fragment [where i = i and data = data and m = "buffer i" and payload = "payload i"
        and tx = tx and again = True] assms(2,11,12) by blast
  qed
  have idx: "map msg_idx (map snd ?ms) = is" by (rule nth_equalityI) (simp_all add: r)
  have idxs: "msg_idx ` set (map snd ?ms) = set is" by (simp only: set_map [symmetric] idx)
  have "stream_ok (map snd ?ms) A \<and> reasm_all (map snd ?ms) A = (A(?s := []), [concat (chunks data)])"
  proof (rule reasm_packet [OF packet_ok_chunks [OF assms(1,2)] assms(3)])
    show "\<forall>m \<in> set (map snd ?ms). carries ?s (chunks data) m" using r by auto
    show "distinct (map msg_idx (map snd ?ms))" using idx assms(7) by simp
    show "I \<inter> msg_idx ` set (map snd ?ms) = {}" unfolding idxs by (rule assms(10))
    show "I \<union> msg_idx ` set (map snd ?ms) = {0..<length (chunks data)}" unfolding idxs using assms(9) by simp
  qed (use assms(5,6,8) in simp_all)
  with iot_deliver_all_rel [OF assms(4), of ?ms] show ?thesis by (simp add: concat_chunks)
qed


theorem lost_fragments_recovered_witness:
  "\<exists>st'. iot_deliver_all
      (map (\<lambda>i. (env_example, received zero_Msg_Buf (wire (sent_fragment True 1 (replicate 150 7) i zero_Msg_Buf)))) [2, 0])
      half_state = Inr (st', [replicate 150 7]) \<and> rudp_rel st' (half_reasm(unat (1 :: u8) mod 16 := []))"
proof (rule lost_fragments_recovered [OF _ _ _ half_rel, where I = "{1}"])
  have "fragment_count 150 = 3" by (simp add: fragment_count_def MAX_MSG_SIZE_def)
  then show "half_reasm (unat (1 :: u8) mod 16) = partial_slot (chunks (replicate 150 7)) {1}"
    by (intro nth_equalityI) (auto simp: half_reasm_def less_Suc_eq numeral_3_eq_3 chunks_nth)
  show "{1} \<union> set [2, 0] = {0..<fragment_count (length (replicate 150 (7 :: byte)))}"
    using \<open>fragment_count 150 = 3\<close> by auto
qed auto

section \<open>A reply that comes too late\<close>

text \<open>A buffer that is filled with the first fragment of a datagram, and the reply made from it.\<close>

lemma refilled_buffer:
  assumes "wf_Msg_Buf m" "data \<noteq> []"
  shows "wf_Msg_Buf (fragment_of sq data 0 m)" "unat (m_msgLen (fragment_of sq data 0 m)) \<le> 60"
    and "wire (reply_of (fragment_of sq data 0 m)) = Msg_Header_bytes ((msgHeader m)\<lparr>h_frgmnts := of_nat (fragment_count (length data)),
          h_frgmntIdx := 0, h_msgCode := MSG_CODE_REPLY_FRAG\<rparr>) @ take 60 data"
proof -
  have n: "0 < fragment_count (length data)" using assms(2) fragment_count_simps(3) [of "length data"] by simp
  have l: "length (chunks data ! 0) \<le> 60" "chunks data ! 0 = take 60 data" using n by (simp_all add: chunks_nth)
  have u: "unat (of_nat (length (chunks data ! 0)) :: u16) = length (chunks data ! 0)"
    by (rule unat_of_nat_small) (use l in simp)
  show w: "wf_Msg_Buf (fragment_of sq data 0 m)" "unat (m_msgLen (fragment_of sq data 0 m)) \<le> 60"
    using assms(1) l u by (simp_all add: fragment_of_def wf_Msg_Buf_def MAX_MSG_SIZE_def bytes_simps)
  have "chunk_of (fragment_of sq data 0 m) = take 60 data"
    using assms(1) l u by (simp add: fragment_of_def chunk_of_def)
      (use take_mem_write_0 [of "take 60 data" "replicate 60 0"] in simp)
  with w show "wire (reply_of (fragment_of sq data 0 m)) = Msg_Header_bytes ((msgHeader m)\<lparr>h_frgmnts := of_nat (fragment_count (length data)),
          h_frgmntIdx := 0, h_msgCode := MSG_CODE_REPLY_FRAG\<rparr>) @ take 60 data"
    using wire_eq [of "reply_of (fragment_of sq data 0 m)"] by (simp add: fragment_of_def)
qed

text \<open>
  C24: Between the lookup of a requested fragment and its reply nothing
  protects the buffer: if it expires, is freed and refilled with the first fragment of a new
  datagram, the reply carries the new data under the old sequence number, so the other side
  completes the old packet with bytes of another one.
\<close>

theorem late_reply_sends_other_data:
  assumes inv: "sys_inv A B S" and pc: "fr_pc (tfr S) = FrReply" "fr_pkt (tfr S) = p" "rx_pc (trx S) = RxWait"
    and q: "fifo_repr 8192 (IotThrInFifo (cluster (sv S))) []" "hist_repr (sv S) (p # hs)" "expired tm (store (sv S) p)"
    and d: "data \<noteq> []" "length data \<le> 1500" "\<not> service_disabled (ctl (sv S))" "sockTx (sv S)"
  shows "\<exists>S1 S2 S3 S4 d. sys_step S [] S1 \<and> sys_step S1 [] S2 \<and> sys_step S2 [] S3 \<and> sys_step S3 [ToFusion d] S4
    \<and> d = Msg_Header_bytes ((msgHeader (store (sv S) p))\<lparr>h_frgmnts := of_nat (fragment_count (length data)),
          h_frgmntIdx := 0, h_msgCode := MSG_CODE_REPLY_FRAG\<rparr>) @ take 60 data"
proof -
  let ?m = "store (sv S) p" and ?L = "length data"
  have p: "p \<noteq> NULL" using q(2) by (simp add: hist_repr_def)
  from inv obtain ins outs fin fout hs' lost where i: "pools A B" "queues (sv S) ins outs fin fout hs'"
    "owned A B S ins outs fin fout hs' lost" "contents A S outs hs'" by (auto simp: sys_inv_iff)
  have "hs' = p # hs" using i(2) q(2) path_unique by (auto simp: queues_def hist_repr_def)
  then have len: "length [] + length (p # hs) \<le> 8192" using owned_A(3) [OF i(1,3)] by simp
  have c: "wf_Msg_Buf ?m" "length (rxPayLoad (trx S)) = 1500" "sockTx (sv S)" using i(4) d(4) by (simp_all add: contents_def)
  \<comment> \<open>the buffer expires\<close>
  from free_history_service [OF q(2,1) len, of "\<lambda>_. tm" 0] q(3) obtain f s' where
    f: "free_history (\<lambda>_. tm) 0 (cluster (sv S)) (sv S) = Some (Inr ((cluster (sv S))\<lparr>IotThrInFifo := f\<rparr>, s'))"
      "fifo_repr 8192 f (p # released (\<lambda>_. tm) 1 (store (sv S)) hs)" "store s' = store (sv S)"
      "sockTx s' = sockTx (sv S)" "ctl s' = ctl (sv S)" by auto
  let ?s1 = "s'\<lparr>cluster := (cluster (sv S))\<lparr>IotThrInFifo := f\<rparr>\<rparr>"
  let ?S1 = "S\<lparr>sv := ?s1\<rparr>"
  have 1: "sys_step S [] ?S1" by (rule sys_step.any [OF thread_step.r_udp [where clock = "\<lambda>_. tm"]]) (simp add: r_udp_round_def f(1))
  \<comment> \<open>a new datagram arrives\<close>
  have en: "\<not> service_disabled (ctl ?s1)" using f(5) d(3) by simp
  let ?s2 = "?s1\<lparr>IOTSocket := (IOTSocket ?s1)\<lparr>sk_addr := zero_addr\<rparr>\<rparr>"
  from iot_rx_recv_data [OF d(1,2) c(2) en, of zero_addr False] obtain t1 where
    t1: "iot_rx_recv (Some (zero_addr, data)) False (trx S) ?s1 = (t1, ?s2)" "rx_at t1 data 0" "rx_pc t1 = RxGet" by blast
  let ?S2 = "?S1\<lparr>trx := t1, sv := ?s2\<rparr>"
  have 2: "sys_step ?S1 [] ?S2"
    by (rule sys_step.any [OF thread_step.rx_recv [where d = "Some (zero_addr, data)" and eagain = False]]) (use pc(3) t1(1) in simp_all)
  \<comment> \<open>its first fragment goes into the buffer\<close>
  have n: "0 < fragment_count ?L" using d(1) fragment_count_simps(3) [of ?L] by simp
  have "fifo_repr 8192 (IotThrInFifo (cluster ?s2)) (p # released (\<lambda>_. tm) 1 (store (sv S)) hs)" using f(2) by simp
  from iot_rx_get_eq [OF t1(2) n this p] obtain t2 g where
    t2: "iot_rx_get t1 ?s2 = Some (Inr (t2, store_upd p (\<lambda>_. fragment_of (rx_txSeqNum t1) data 0 (store ?s2 p))
        (?s2\<lparr>cluster := (cluster ?s2)\<lparr>IotThrInFifo := g\<rparr>\<rparr>)))" by blast
  define s3 where "s3 = store_upd p (\<lambda>_. fragment_of (rx_txSeqNum t1) data 0 (store ?s2 p))
        (?s2\<lparr>cluster := (cluster ?s2)\<lparr>IotThrInFifo := g\<rparr>\<rparr>)"
  let ?S3 = "?S2\<lparr>trx := t2, sv := s3\<rparr>"
  have 3: "sys_step ?S2 [] ?S3" by (rule sys_step.any [OF thread_step.rx_get]) (use t1(3) t2 in \<open>simp_all add: s3_def\<close>)
  \<comment> \<open>the reply\<close>
  let ?m3 = "fragment_of (rx_txSeqNum t1) data 0 ?m"
  have m3: "store s3 p = ?m3" "sockTx s3" using f(3,4) c(3) by (simp_all add: s3_def store_upd_def)
  note w = refilled_buffer [OF c(1) d(1), of "rx_txSeqNum t1"]
  have "send_reply True p s3 = Inr (wire (reply_of ?m3), store_upd p reply_of s3)"
    using send_reply_wire [of s3 p] w(1,2) by (simp add: m3(1))
  then have rp: "fusion_rx_reply (tfr S) s3 = Inr ((tfr S)\<lparr>fr_pc := FrRecv\<rparr>, store_upd p reply_of s3, [ToFusion (wire (reply_of ?m3))])"
    by (simp add: fusion_rx_reply_def pc(2) m3(2))
  have 4: "sys_step ?S3 [ToFusion (wire (reply_of ?m3))] (?S3\<lparr>tfr := (tfr S)\<lparr>fr_pc := FrRecv\<rparr>, sv := store_upd p reply_of s3\<rparr>)"
    by (rule sys_step.any [OF thread_step.fr_reply]) (simp_all add: pc(1) rp)
  from w(3) 1 2 3 4 show ?thesis by blast
qed


text \<open>The sending buffer is in the history and a reply to it is pending.\<close>

definition system_pending :: system where
  "system_pending = system_1\<lparr>sv := (sv system_1)\<lparr>cluster := cluster_example\<lparr>fusionThrInFifo := one_pointer 200\<rparr>,
       ListHead := 100, ListTail := 100\<rparr>,
     tfr := (tfr system_1)\<lparr>fr_pc := FrReply, fr_pkt := 100\<rparr>\<rparr>"

lemma system_pending_simps:
  "fr_pc (tfr system_pending) = FrReply" "fr_pkt (tfr system_pending) = 100" "rx_pc (trx system_pending) = RxWait"
  "fifo_repr 8192 (IotThrInFifo (cluster (sv system_pending))) []" "hist_repr (sv system_pending) [100]"
  "store (sv system_pending) p = zero_Msg_Buf" "\<not> service_disabled (ctl (sv system_pending))"
  by (simp_all add: system_pending_def system_1_def service_3_def iot_rx_0_def fifo_repr_def cluster_example_def Let_def
      hist_repr_def zero_Msg_Buf_def)

lemma system_pending_inv: "sys_inv [100] [200] system_pending"
proof -
  have q: "queues (sv system_pending) [] [] [200] [] [100]"
    by (simp add: queues_def system_pending_def system_1_def fifo_repr_def one_pointer_def service_3_def
        cluster_example_def hist_repr_def Let_def zero_Msg_Buf_def)
  have o: "owned [100] [200] system_pending [] [] [200] [] [100] []"
    by (simp add: owned_def system_pending_def system_1_def iot_rx_0_def)
  have c: "contents [100] system_pending [] [100]"
    by (simp add: contents_def system_pending_def system_1_def iot_rx_0_def service_3_def)
      (simp add: zero_Msg_Buf_def)
  show ?thesis by (rule sys_invI [OF _ refl q o c]) (simp add: pools_def)
qed

theorem late_reply_sends_other_data_witness:
  "\<exists>S1 S2 S3 S4 d. sys_step system_pending [] S1 \<and> sys_step S1 [] S2 \<and> sys_step S2 [] S3 \<and> sys_step S3 [ToFusion d] S4
    \<and> d = Msg_Header_bytes ((msgHeader (store (sv system_pending) 100))\<lparr>h_frgmnts := of_nat (fragment_count (length [1, 2, 3 :: byte])),
          h_frgmntIdx := 0, h_msgCode := MSG_CODE_REPLY_FRAG\<rparr>) @ take 60 [1, 2, 3]"
  by (rule late_reply_sends_other_data [OF system_pending_inv system_pending_simps(1-5),
        where tm = "\<lparr> tv_sec = 0, tv_usec = 0 \<rparr>"])
    (simp_all add: system_pending_simps, simp_all add: expired_def zero_Msg_Buf_def system_pending_def system_1_def service_3_def)

end
