(* ===== verification/Duplicates.thy ===== *)
theory Duplicates
  imports Rudp_Behaviour
begin

text \<open>
  One fragment that arrives again and again: \<open>defragment\<close> of \<open>src/rudp_req.c\<close> adds every arrival
  to the count and to the size of the slot.  A header may announce 31 fragments while a slot has
  the bytes of 25, so the size can pass the slot before the count completes the packet.
\<close>

text \<open>The packet's slot, as the next lookup finds it, after \<open>k\<close> arrivals of the message.\<close>

definition counted :: "Msg_Buf \<Rightarrow> nat \<Rightarrow> rudp_state \<Rightarrow> bool" where
  "counted msg k st \<longleftrightarrow> table_ready st
     \<and> (let F = slots (lookup_table (fragmentsTable st) (msg_seq msg)) ! msg_seq msg
        in f_terminalId F = TERMINAL_ID \<and> length (f_data F) = 1500
           \<and> f_accumulatedFrgmnts F = of_nat k \<and> f_size F = of_nat (k * unat (m_msgLen msg)))"

lemma countedD:
  assumes "counted msg k st"
  defines "F \<equiv> slots (lookup_table (fragmentsTable st) (msg_seq msg)) ! msg_seq msg"
  shows "table_ready st" "wf_table (fragmentsTable st)" "f_terminalId F = TERMINAL_ID" "length (f_data F) = 1500"
    "f_accumulatedFrgmnts F = of_nat k" "f_size F = of_nat (k * unat (m_msgLen msg))"
  using assms by (simp_all add: counted_def Let_def table_ready_def)

lemma defrag_store_keeps:
  "defrag_store env msg F = Inr F' \<Longrightarrow> f_terminalId F' = f_terminalId F \<and> unat (f_frgmnts F') \<le> 31"
  using unsigned_less [where ?'a = nat, of "h_frgmnts (msgHeader msg)"]
  by (auto simp: defrag_store_def Let_def unat_idx_u8 split: sum.splits)

text \<open>The fields of a message that is repeated: its position fits the slot, its packet is in the table.\<close>

definition repeated_ok :: "Msg_Buf \<Rightarrow> bool" where
  "repeated_ok msg \<longleftrightarrow> wf_Msg_Buf msg \<and> msg_seq msg < 4 \<and> msg_idx msg < 25 \<and> msg_idx msg < msg_cnt msg \<and> unat (m_msgLen msg) \<le> 60"

lemma counted_start:
  assumes "rudp_rel st A" "A (msg_seq msg) = []" "msg_seq msg < 4"
  shows "counted msg 0 st"
proof -
  note r = rudp_relD [OF assms(1)]
  have "\<not> f_used (slots (fragmentsTable st) ! msg_seq msg)" using slot_rel_used(1) [OF r(3) [OF assms(3)]] assms(2) by simp
  then show ?thesis using r(1) assms(3) rudp_rel_ready [OF assms(1)]
    by (simp add: counted_def Let_def lookup_table_simps fresh_fragment_def length_f_data)
qed

text \<open>What every arrival does to the slot.\<close>

lemma counted_store:
  assumes c: "counted msg k st" and ok: "repeated_ok msg"
  shows "\<exists>F. defrag_store env msg ((slots (lookup_table (fragmentsTable st) (msg_seq msg)) ! msg_seq msg)
        \<lparr>f_pktSeqNum := ucast (h_seqNum (msgHeader msg))\<rparr>) = Inr F
    \<and> f_used F \<and> f_terminalId F = TERMINAL_ID \<and> unat (f_frgmnts F) \<le> 31 \<and> length (f_data F) = 1500
    \<and> f_accumulatedFrgmnts F = of_nat (Suc k) \<and> f_size F = of_nat (Suc k * unat (m_msgLen msg))"
proof -
  let ?F = "(slots (lookup_table (fragmentsTable st) (msg_seq msg)) ! msg_seq msg)\<lparr>f_pktSeqNum := ucast (h_seqNum (msgHeader msg))\<rparr>"
  note d = countedD [OF c]
  have u: "f_used ?F" using lookup_table_simps(2) [OF d(2), of "msg_seq msg"] ok by (simp add: repeated_ok_def fresh_fragment_def)
  have l: "length (f_data ?F) = 1500" using d(4) by simp
  from defrag_store_Inr [OF _ _ _ l, of msg env] ok obtain F where
    F: "defrag_store env msg ?F = Inr F" "f_used F = f_used ?F" "length (f_data F) = 1500"
      "f_accumulatedFrgmnts F = f_accumulatedFrgmnts ?F + 1" "f_size F = f_size ?F + m_msgLen msg"
    by (auto simp: repeated_ok_def)
  from defrag_store_keeps [OF F(1)] F u d show ?thesis by (auto simp: algebra_simps)
qed

lemma counted_step:
  assumes c: "counted msg k st" and ok: "repeated_ok msg" and k: "Suc k < msg_cnt msg"
  shows "\<exists>st' ds. iot_deliver env st msg = Inr (st', None, ds) \<and> counted msg (Suc k) st'"
proof -
  note d = countedD [OF c]
  have m: "msg_seq msg < 4" "msg_idx msg < msg_cnt msg" using ok by (simp_all add: repeated_ok_def)
  have n: "msg_cnt msg < 32" using unsigned_less [where ?'a = nat, of "h_frgmnts (msgHeader msg)"] by simp
  from counted_store [OF c ok, of env] obtain F where
    F: "defrag_store env msg ((slots (lookup_table (fragmentsTable st) (msg_seq msg)) ! msg_seq msg)
        \<lparr>f_pktSeqNum := ucast (h_seqNum (msgHeader msg))\<rparr>) = Inr F"
      "f_used F" "f_terminalId F = TERMINAL_ID" "unat (f_frgmnts F) \<le> 31" "length (f_data F) = 1500"
      "f_accumulatedFrgmnts F = of_nat (Suc k)" "f_size F = of_nat (Suc k * unat (m_msgLen msg))" by blast
  have a: "unat (f_accumulatedFrgmnts F) = Suc k" unfolding F(6) by (rule unat_of_nat_small) (use k n in simp)
  from iot_deliver_partial [OF d(1) has_slot_less [OF m(1)] m(2) F(1) _ F(5)] a k obtain st' ds where
    s: "iot_deliver env st msg = Inr (st', None, ds)" "wf_table (fragmentsTable st')" "fusionSock st'"
      "slots (fragmentsTable st') ! msg_seq msg = F\<lparr>f_frgmntIdx := ucast (h_frgmntIdx (msgHeader msg))\<rparr>"
      "\<forall>j<5. j \<noteq> msg_seq msg \<longrightarrow> slots (fragmentsTable st') ! j = slots (fragmentsTable st) ! j" by auto
  have "f_used (slots (fragmentsTable st') ! j) \<longrightarrow> f_terminalId (slots (fragmentsTable st') ! j) = TERMINAL_ID
      \<and> unat (f_frgmnts (slots (fragmentsTable st') ! j)) \<le> 32" if "j < 4" for j
    using that d(1) s(4,5) F(3,4) by (cases "j = msg_seq msg") (simp_all add: table_ready_def)
  then have "table_ready st'" using s(2,3) by (simp add: table_ready_def)
  moreover have "slots (lookup_table (fragmentsTable st') (msg_seq msg)) ! msg_seq msg = F\<lparr>f_frgmntIdx := ucast (h_frgmntIdx (msgHeader msg))\<rparr>"
    using s(2,4) F(2) m(1) by (simp add: lookup_table_simps)
  ultimately have "counted msg (Suc k) st'" using F(3,5-7) by (simp add: counted_def Let_def)
  with s(1) show ?thesis by blast
qed

lemma counted_run:
  assumes "counted msg k st" "repeated_ok msg" "k + length es < msg_cnt msg"
  shows "\<exists>st'. iot_deliver_all (map (\<lambda>e. (e, msg)) es) st = Inr (st', []) \<and> counted msg (k + length es) st'"
  using assms(1,3)
proof (induction es arbitrary: k st)
  case (Cons e es)
  from counted_step [OF Cons.prems(1) assms(2), of e] Cons.prems(2) obtain st1 ds where
    1: "iot_deliver e st msg = Inr (st1, None, ds)" "counted msg (Suc k) st1" by auto
  from Cons.IH [OF 1(2)] Cons.prems(2) 1(1) show ?case by auto
qed simp

text \<open>The arrival that completes the count when the bytes counted no longer fit.\<close>

lemma counted_overrun:
  assumes c: "counted msg k st" and ok: "repeated_ok msg" and k: "Suc k = msg_cnt msg"
    and big: "1500 < msg_cnt msg * unat (m_msgLen msg)"
  shows "\<exists>st' ds. defragment env st msg = Inr (st', 0, Some (0, msg_seq msg), ds)
    \<and> unat (f_size (frag_at (fragmentsTable st') (0, msg_seq msg))) = msg_cnt msg * unat (m_msgLen msg)
    \<and> length (f_data (frag_at (fragmentsTable st') (0, msg_seq msg))) = 1500
    \<and> iot_deliver env st msg = Inl OutOfBounds"
proof -
  note d = countedD [OF c]
  have m: "msg_seq msg < 4" "msg_idx msg < msg_cnt msg" "unat (m_msgLen msg) \<le> 60" using ok by (simp_all add: repeated_ok_def)
  have n: "msg_cnt msg < 32" using unsigned_less [where ?'a = nat, of "h_frgmnts (msgHeader msg)"] by simp
  from counted_store [OF c ok, of env] obtain F where
    F: "defrag_store env msg ((slots (lookup_table (fragmentsTable st) (msg_seq msg)) ! msg_seq msg)
        \<lparr>f_pktSeqNum := ucast (h_seqNum (msgHeader msg))\<rparr>) = Inr F" "length (f_data F) = 1500"
      "f_accumulatedFrgmnts F = of_nat (Suc k)" "f_size F = of_nat (Suc k * unat (m_msgLen msg))" by blast
  have a: "unat (f_accumulatedFrgmnts F) = msg_cnt msg" unfolding F(3) k by (rule unat_of_nat_small) (use n in simp)
  have "msg_cnt msg * unat (m_msgLen msg) \<le> 31 * 60" by (rule mult_le_mono) (use n m(3) in simp_all)
  then have s: "unat (f_size F) = msg_cnt msg * unat (m_msgLen msg)" unfolding F(4) k by (intro unat_of_nat_small) simp
  from defragment_eq(2) [OF d(1) has_slot_less [OF m(1)] m(2) F(1)] a obtain st' ds where
    r: "defragment env st msg = Inr (st', 0, Some (0, msg_seq msg), ds)"
      "fragmentsTable st' = frag_upd (lookup_table (fragmentsTable st) (msg_seq msg)) (0, msg_seq msg)
          (F\<lparr>f_frgmntIdx := ucast (h_frgmntIdx (msgHeader msg))\<rparr>)" by auto
  have f: "slots (fragmentsTable st') ! msg_seq msg = F\<lparr>f_frgmntIdx := ucast (h_frgmntIdx (msgHeader msg))\<rparr>"
    using lookup_table_simps(1) [OF d(2), of "msg_seq msg"] m(1) by (simp add: r(2) tab.get_put)
  show ?thesis using r(1) f F(2) s big by (simp add: iot_deliver_def sendto_def)
qed

text \<open>
  C25: A fragment of a new packet (sequence number 0 to 3, index below 25)
  whose header announces so many fragments that as many copies of it have more than 1500 bytes:
  fewer copies than announced give nothing to the device, and the last one makes \<open>defragment\<close>
  report the packet complete with the size of all copies, so that the send of
  \<open>iot_transmit_routine\<close> reads that many bytes from a slot of 1500.
\<close>

theorem duplicates_overrun_slot:
  assumes "rudp_rel st A" "A (msg_seq msg) = []" "repeated_ok msg" "1500 < msg_cnt msg * unat (m_msgLen msg)" "length es < msg_cnt msg"
  shows "\<exists>st'. iot_deliver_all (map (\<lambda>e. (e, msg)) es) st = Inr (st', [])
    \<and> (Suc (length es) = msg_cnt msg \<longrightarrow> (\<exists>st'' ds. defragment e st' msg = Inr (st'', 0, Some (0, msg_seq msg), ds)
        \<and> unat (f_size (frag_at (fragmentsTable st'') (0, msg_seq msg))) = msg_cnt msg * unat (m_msgLen msg)
        \<and> length (f_data (frag_at (fragmentsTable st'') (0, msg_seq msg))) = 1500
        \<and> iot_deliver e st' msg = Inl OutOfBounds))"
proof -
  have "counted msg 0 st" using counted_start [OF assms(1,2)] assms(3) by (simp add: repeated_ok_def)
  from counted_run [OF this assms(3), of es] assms(5) obtain st' where
    "iot_deliver_all (map (\<lambda>e. (e, msg)) es) st = Inr (st', [])" "counted msg (length es) st'" by auto
  with counted_overrun [OF _ assms(3) _ assms(4), of "length es" st' e] show ?thesis by blast
qed

text \<open>31 copies of a first fragment of 60 bytes: 1860 bytes.\<close>

theorem duplicates_overrun_slot_witness:
  "\<exists>st' st'' ds. iot_deliver_all (map (\<lambda>e. (e, mk_fragment 1 0 31 (replicate 60 7))) (replicate 30 env_example)) idle_state = Inr (st', [])
    \<and> defragment env_example st' (mk_fragment 1 0 31 (replicate 60 7)) = Inr (st'', 0, Some (0, 1), ds)
    \<and> unat (f_size (frag_at (fragmentsTable st'') (0, 1))) = 1860
    \<and> iot_deliver env_example st' (mk_fragment 1 0 31 (replicate 60 7)) = Inl OutOfBounds"
proof -
  have "repeated_ok (mk_fragment 1 0 31 (replicate 60 7))" by (simp add: repeated_ok_def mk_fragment_simps)
  from duplicates_overrun_slot [OF idle_rel _ this, of "replicate 30 env_example" env_example]
  show ?thesis by (simp add: mk_fragment_simps) blast
qed

end
