(* ===== verification/Network.thy ===== *)
theory Network
  imports System
begin

text \<open>
  Two services joined by a network: runs of the threads of one service, with the datagrams that
  \<open>fusion_receive_routine\<close> takes in and those all threads send out, and a datagram that crosses
  from the device of one service to that of the other.
\<close>

section \<open>Runs with their datagrams\<close>

text \<open>A step takes in a datagram from Fusion exactly when it is one of \<open>fusion_receive_routine\<close> waiting for it.\<close>

inductive sys_event :: "system \<Rightarrow> byte list option \<Rightarrow> sent list \<Rightarrow> system \<Rightarrow> bool" where
  quiet: "sys_step S out S' \<Longrightarrow> fr_pc (tfr S) \<noteq> FrRecv \<or> tfr S' = tfr S \<Longrightarrow> sys_event S None out S'"
| takes: "fr_pc (tfr S) = FrRecv \<Longrightarrow> fusion_rx_recv (Some bs) (tfr S) (sv S) = Some (w, s)
    \<Longrightarrow> sys_event S (Some bs) [] (S\<lparr>tfr := w, sv := s\<rparr>)"

inductive sys_run :: "system \<Rightarrow> byte list list \<Rightarrow> sent list \<Rightarrow> system \<Rightarrow> bool" where
  stop: "sys_run S [] [] S"
| event: "sys_event S d out S' \<Longrightarrow> sys_run S' ds outs S''
    \<Longrightarrow> sys_run S ((case d of None \<Rightarrow> [] | Some bs \<Rightarrow> [bs]) @ ds) (out @ outs) S''"

lemma run_quiet:
  "sys_step S out S' \<Longrightarrow> fr_pc (tfr S) \<noteq> FrRecv \<or> tfr S' = tfr S \<Longrightarrow> sys_run S' ds outs S''
   \<Longrightarrow> sys_run S ds (out @ outs) S''"
  using sys_run.event [OF sys_event.quiet, of S out S' ds outs S''] by simp

lemma run_silent:
  "sys_step S [] S' \<Longrightarrow> fr_pc (tfr S) \<noteq> FrRecv \<or> tfr S' = tfr S \<Longrightarrow> sys_run S' ds outs S'' \<Longrightarrow> sys_run S ds outs S''"
  using run_quiet [of S "[]"] by simp

lemma run_takes:
  "fr_pc (tfr S) = FrRecv \<Longrightarrow> fusion_rx_recv (Some bs) (tfr S) (sv S) = Some (w, s)
   \<Longrightarrow> sys_run (S\<lparr>tfr := w, sv := s\<rparr>) ds outs S'' \<Longrightarrow> sys_run S (bs # ds) outs S''"
  using sys_run.event [OF sys_event.takes, of S bs w s ds outs S''] by simp

lemma run_append: "sys_run S ds outs S' \<Longrightarrow> sys_run S' ds' outs' S'' \<Longrightarrow> sys_run S (ds @ ds') (outs @ outs') S''"
proof (induction rule: sys_run.induct)
  case (event S d out S1 ds outs S2)
  from sys_run.event [OF event.hyps(1) event.IH [OF event.prems]] show ?case by simp
qed simp

text \<open>
  Runs in which no packet times out: a step that leaves \<open>iot_transmit_routine\<close> alone frees no slot
  of the table that is in use.
\<close>

definition frees_none :: "rudp_state \<Rightarrow> rudp_state \<Rightarrow> bool" where
  "frees_none st st' \<longleftrightarrow> (\<forall>s<4. f_used (slots (fragmentsTable st) ! s) \<longrightarrow> f_used (slots (fragmentsTable st') ! s))"

definition sparing :: "system \<Rightarrow> system \<Rightarrow> bool" where
  "sparing S S' \<longleftrightarrow> (ttx S' = ttx S \<longrightarrow> frees_none (rudp (sv S)) (rudp (sv S')))"

inductive spared_run :: "system \<Rightarrow> byte list list \<Rightarrow> sent list \<Rightarrow> system \<Rightarrow> bool" where
  stop: "spared_run S [] [] S"
| event: "sys_event S d out S' \<Longrightarrow> sparing S S' \<Longrightarrow> spared_run S' ds outs S''
    \<Longrightarrow> spared_run S ((case d of None \<Rightarrow> [] | Some bs \<Rightarrow> [bs]) @ ds) (out @ outs) S''"

lemma spared_run: "spared_run S ds outs S' \<Longrightarrow> sys_run S ds outs S'"
  by (induction rule: spared_run.induct) (auto intro: sys_run.intros)

lemma sparingI: "rudp (sv S') = rudp (sv S) \<or> tx_pc (ttx S') \<noteq> tx_pc (ttx S) \<Longrightarrow> sparing S S'"
  by (auto simp: sparing_def frees_none_def)

lemma spared_quiet:
  "sys_step S out S' \<Longrightarrow> fr_pc (tfr S) \<noteq> FrRecv \<or> tfr S' = tfr S \<Longrightarrow> rudp (sv S') = rudp (sv S) \<or> tx_pc (ttx S') \<noteq> tx_pc (ttx S)
   \<Longrightarrow> spared_run S' ds outs S'' \<Longrightarrow> spared_run S ds (out @ outs) S''"
  using spared_run.event [OF sys_event.quiet sparingI, of S out S' ds outs S''] by simp

lemma spared_silent:
  "sys_step S [] S' \<Longrightarrow> fr_pc (tfr S) \<noteq> FrRecv \<or> tfr S' = tfr S \<Longrightarrow> rudp (sv S') = rudp (sv S) \<or> tx_pc (ttx S') \<noteq> tx_pc (ttx S)
   \<Longrightarrow> spared_run S' ds outs S'' \<Longrightarrow> spared_run S ds outs S''"
  using spared_quiet [of S "[]"] by simp

lemma spared_takes:
  "fr_pc (tfr S) = FrRecv \<Longrightarrow> fusion_rx_recv (Some bs) (tfr S) (sv S) = Some (w, s) \<Longrightarrow> rudp s = rudp (sv S)
   \<Longrightarrow> spared_run (S\<lparr>tfr := w, sv := s\<rparr>) ds outs S'' \<Longrightarrow> spared_run S (bs # ds) outs S''"
  using spared_run.event [OF sys_event.takes sparingI, of S bs w s ds outs S''] by simp

lemma spared_append: "spared_run S ds outs S' \<Longrightarrow> spared_run S' ds' outs' S'' \<Longrightarrow> spared_run S (ds @ ds') (outs @ outs') S''"
proof (induction rule: spared_run.induct)
  case (event S d out S1 ds outs S2)
  from spared_run.event [OF event.hyps(1,2) event.IH [OF event.prems]] show ?case by simp
qed simp

text \<open>A run is a sequence of steps of the system, so it keeps what every step keeps.\<close>

lemma sys_event_step: "sys_event S d out S' \<Longrightarrow> sys_step S out S'"
  by (cases rule: sys_event.cases) (auto intro: sys_step.any thread_step.fr_recv)

lemma run_inv: "sys_run S ds outs S' \<Longrightarrow> sys_inv A B S \<Longrightarrow> sys_inv A B S'"
  by (induction rule: sys_run.induct) (auto dest: sys_event_step sys_step_inv)

text \<open>The queues of a state are determined by it.\<close>

lemma queues_unique:
  assumes "queues s ins outs fin fout hs" "queues s ins' outs' fin' fout' hs'"
  shows "ins' = ins \<and> outs' = outs \<and> fin' = fin \<and> fout' = fout \<and> hs' = hs"
  using assms by (auto simp: queues_def hist_repr_def dest: fifo_repr_unique path_unique)

lemma sys_inv_queues:
  assumes "sys_inv A B S" "queues (sv S) ins outs fin fout hs"
  shows "pools A B \<and> (\<exists>lost. owned A B S ins outs fin fout hs lost) \<and> contents A S outs hs"
  using assms by (auto simp: sys_inv_iff dest!: queues_unique [OF assms(2)])

section \<open>The sending service\<close>

text \<open>\<open>iot_rx_run\<close> is a run of the system that leaves the other threads and the history alone.\<close>

lemma iot_rx_run_steps:
  assumes "iot_rx_run t s = Some r"
  shows "\<forall>t' s'. r = Inr (t', s') \<longrightarrow> (\<forall>S. trx S = t \<longrightarrow> sv S = s \<longrightarrow> sys_run S [] [] (S\<lparr>trx := t', sv := s'\<rparr>))"
proof (rule iot_rx_run.raw_induct [where P = "\<lambda>t s r. \<forall>t' s'. r = Inr (t', s') \<longrightarrow>
      (\<forall>S. trx S = t \<longrightarrow> sv S = s \<longrightarrow> sys_run S [] [] (S\<lparr>trx := t', sv := s'\<rparr>))", OF _ assms], goal_cases)
  case (1 run t s r)
  have "sys_run S [] [] (S\<lparr>trx := t', sv := s'\<rparr>)" if r: "r = Inr (t', s')" "trx S = t" "sv S = s" for t' s' S
  proof (cases "rx_pc t")
    case RxWait
    with 1(2) r have "S\<lparr>trx := t', sv := s'\<rparr> = S" by auto
    then show ?thesis by (simp add: sys_run.stop)
  next
    case RxGet
    with 1(2) r(1) obtain x where x: "iot_rx_get t s = Some (Inr x)" "run (fst x) (snd x) = Some (Inr (t', s'))"
      by (auto split: option.splits sum.splits)
    let ?S = "S\<lparr>trx := fst x, sv := snd x\<rparr>"
    have "sys_step S [] ?S" by (rule sys_step.any [OF thread_step.rx_get]) (use RxGet x(1) r(2,3) in simp_all)
    moreover have "sys_run ?S [] [] (?S\<lparr>trx := t', sv := s'\<rparr>)" using 1(1) [OF x(2), rule_format, OF refl, of ?S] by simp
    ultimately show ?thesis by (auto intro: run_silent)
  next
    case RxPut
    with 1(2) r(1) obtain x where x: "iot_rx_put t s = Some x" "run (fst x) (snd x) = Some (Inr (t', s'))"
      by (auto split: option.splits)
    let ?S = "S\<lparr>trx := fst x, sv := snd x\<rparr>"
    have "sys_step S [] ?S" by (rule sys_step.any [OF thread_step.rx_put]) (use RxPut x(1) r(2,3) in simp_all)
    moreover have "sys_run ?S [] [] (?S\<lparr>trx := t', sv := s'\<rparr>)" using 1(1) [OF x(2), rule_format, OF refl, of ?S] by simp
    ultimately show ?thesis by (auto intro: run_silent)
  qed
  then show ?case by blast
qed

text \<open>What \<open>iot_receive_routine\<close> does not touch of the service.\<close>

definition rx_frame :: "service \<Rightarrow> ptr \<times> ptr \<times> fifo_descriptor \<times> fifo_descriptor" where
  "rx_frame s = (ListHead s, ListTail s, fusionThrInFifo (cluster s), fusionThrOutFifo (cluster s))"

lemma iot_rx_run_frame:
  assumes "iot_rx_run t s = Some r"
  shows "\<forall>t' s'. r = Inr (t', s') \<longrightarrow> rx_frame s' = rx_frame s"
proof (rule iot_rx_run.raw_induct [where P = "\<lambda>t s r. \<forall>t' s'. r = Inr (t', s') \<longrightarrow> rx_frame s' = rx_frame s", OF _ assms],
    goal_cases)
  case (1 run t s r)
  have g: "rx_frame (snd x) = rx_frame s" if "iot_rx_get t s = Some (Inr x)" for x
    using that by (auto simp: iot_rx_get_def rx_frame_def store_upd_def split: option.splits if_splits sum.splits)
  have p: "rx_frame (snd x) = rx_frame s" if "iot_rx_put t s = Some x" for x
    using that by (auto simp: iot_rx_put_def rx_frame_def Let_def split: option.splits if_splits)
  show ?case
    using 1 by (auto split: rx_pc.splits option.splits sum.splits dest: g p)
qed

definition ft_frame :: "service \<Rightarrow> fifo_descriptor \<times> fifo_descriptor \<times> fifo_descriptor" where
  "ft_frame s = (IotThrInFifo (cluster s), fusionThrInFifo (cluster s), fusionThrOutFifo (cluster s))"

text \<open>\<open>fusion_transmit_routine\<close> sends what is queued and moves it to the history.\<close>

text \<open>One buffer: its header completed, sent, and appended to the history.\<close>

lemma fusion_sends_one:
  assumes "ft_pc (tft S) = FtGet" "fifo_repr cap (IotThrOutFifo (cluster (sv S))) (p # ps)" "hist_repr (sv S) hs"
    and "distinct (hs @ p # ps)" "p \<noteq> NULL" "wf_Msg_Buf (store (sv S) p)" "unat (m_msgLen (store (sv S) p)) \<le> 60"
  shows "\<exists>S' f. (\<forall>out S''. sys_run S' [] out S'' \<longrightarrow> sys_run S [] (ToFusion (wire (fusion_header (store (sv S) p))) # out) S'')
    \<and> ft_pc (tft S') = FtGet \<and> cluster (sv S') = (cluster (sv S))\<lparr>IotThrOutFifo := f\<rparr> \<and> fifo_repr cap f ps
    \<and> hist_repr (sv S') (hs @ [p]) \<and> (\<forall>q \<in> set ps. store (sv S') q = store (sv S) q)
    \<and> ft_frame (sv S') = ft_frame (sv S) \<and> trx S' = trx S"
proof -
  have p: "p \<notin> set hs" "p \<notin> set ps" using assms(4) by auto
  from fusion_tx_get_eq [OF assms(2,5,6,7), of "tft S"] obtain f where
    f: "fusion_tx_get (tft S) (sv S) = Some (Inr ((tft S)\<lparr>ft_rxMsgBufPtr := p, ft_pc := FtPush\<rparr>,
        store_upd p fusion_header ((sv S)\<lparr>cluster := (cluster (sv S))\<lparr>IotThrOutFifo := f\<rparr>\<rparr>),
        [ToFusion (wire (fusion_header (store (sv S) p)))]))" "fifo_repr cap f ps" by blast
  let ?s1 = "store_upd p fusion_header ((sv S)\<lparr>cluster := (cluster (sv S))\<lparr>IotThrOutFifo := f\<rparr>\<rparr>)"
  let ?S1 = "S\<lparr>tft := (tft S)\<lparr>ft_rxMsgBufPtr := p, ft_pc := FtPush\<rparr>, sv := ?s1\<rparr>"
  obtain tm where "tm = (\<lparr> tv_sec = 0, tv_usec = 0 \<rparr> :: timeval)" by blast
  let ?s2 = "hist_push_frag tm p ?s1"
  let ?S2 = "?S1\<lparr>tft := (tft ?S1)\<lparr>ft_pc := FtGet\<rparr>, sv := ?s2\<rparr>"
  have h1: "hist_repr ?s1 hs"
    using assms(3) by (subst hist_repr_other [OF p(1)]) (simp add: hist_repr_def)
  have h2: "hist_repr ?s2 (hs @ [p])" by (rule hist_push_repr [OF h1 assms(5) p(1)])
  have "last hs \<notin> set ps" if "hs \<noteq> []" using assms(4) last_in_set [OF that] by auto
  then have tail: "ListTail ?s1 \<notin> set ps" if "ListHead ?s1 \<noteq> NULL"
    using h1 that by (cases "hs = []") (auto simp: hist_repr_def)
  have st: "store ?s2 q = store (sv S) q" if "q \<in> set ps" for q
    using that p(2) tail by (auto simp: hist_push_frag_def store_upd_def Let_def)
  have cl: "cluster ?s2 = (cluster (sv S))\<lparr>IotThrOutFifo := f\<rparr>"
    by (simp add: hist_push_frag_def store_upd_def Let_def)
  have 1: "sys_step S [ToFusion (wire (fusion_header (store (sv S) p)))] ?S1"
    by (rule sys_step.any [OF thread_step.ft_get [OF assms(1) f(1)]])
  have 2: "sys_step ?S1 [] ?S2"
    using sys_step.any [OF thread_step.ft_push [of ?S1 tm "(tft ?S1)\<lparr>ft_pc := FtGet\<rparr>" ?s2]] by (simp add: fusion_tx_push_def)
  have "sys_run S [] (ToFusion (wire (fusion_header (store (sv S) p))) # out) S''" if "sys_run ?S2 [] out S''" for out S''
    using run_quiet [OF 1 _ run_silent [OF 2 _ that]] by simp
  moreover have "ft_frame ?s2 = ft_frame (sv S)" using cl by (simp add: ft_frame_def)
  ultimately show ?thesis using f(2) h2 st cl by (intro exI [of _ ?S2] exI [of _ f]) simp
qed

lemma fusion_sends_queue:
  assumes "ft_pc (tft S) = FtGet" "fifo_repr cap (IotThrOutFifo (cluster (sv S))) ps" "hist_repr (sv S) hs"
    and "distinct (hs @ ps)" "NULL \<notin> set ps" "\<forall>p \<in> set ps. wf_Msg_Buf (store (sv S) p) \<and> unat (m_msgLen (store (sv S) p)) \<le> 60"
  shows "\<exists>S'. sys_run S [] (map (\<lambda>p. ToFusion (wire (fusion_header (store (sv S) p)))) ps) S'
    \<and> ft_pc (tft S') = FtGet \<and> fifo_repr cap (IotThrOutFifo (cluster (sv S'))) [] \<and> hist_repr (sv S') (hs @ ps)
    \<and> ft_frame (sv S') = ft_frame (sv S) \<and> trx S' = trx S"
  using assms
proof (induction ps arbitrary: S hs)
  case Nil
  then show ?case by (auto intro: sys_run.stop)
next
  case (Cons p ps)
  have "p \<noteq> NULL" "wf_Msg_Buf (store (sv S) p)" "unat (m_msgLen (store (sv S) p)) \<le> 60" using Cons.prems(5,6) by auto
  from fusion_sends_one [OF Cons.prems(1-4) this] obtain S1 f where
    1: "\<And>out S''. sys_run S1 [] out S'' \<Longrightarrow> sys_run S [] (ToFusion (wire (fusion_header (store (sv S) p))) # out) S''"
      "ft_pc (tft S1) = FtGet" "cluster (sv S1) = (cluster (sv S))\<lparr>IotThrOutFifo := f\<rparr>" "fifo_repr cap f ps" "hist_repr (sv S1) (hs @ [p])"
      "\<And>q. q \<in> set ps \<Longrightarrow> store (sv S1) q = store (sv S) q" "ft_frame (sv S1) = ft_frame (sv S)" "trx S1 = trx S" by blast
  have "\<exists>S'. sys_run S1 [] (map (\<lambda>p. ToFusion (wire (fusion_header (store (sv S1) p)))) ps) S'
    \<and> ft_pc (tft S') = FtGet \<and> fifo_repr cap (IotThrOutFifo (cluster (sv S'))) [] \<and> hist_repr (sv S') ((hs @ [p]) @ ps)
    \<and> ft_frame (sv S') = ft_frame (sv S1) \<and> trx S' = trx S1"
    by (rule Cons.IH) (use Cons.prems(4-6) 1(2-6) in auto)
  then obtain S' where S': "sys_run S1 [] (map (\<lambda>p. ToFusion (wire (fusion_header (store (sv S) p)))) ps) S'"
    "ft_pc (tft S') = FtGet" "fifo_repr cap (IotThrOutFifo (cluster (sv S'))) []" "hist_repr (sv S') (hs @ p # ps)"
    "ft_frame (sv S') = ft_frame (sv S)" "trx S' = trx S"
    using 1(6-8) by (auto cong: map_cong)
  from 1(1) [OF S'(1)] S'(2-6) show ?case by auto
qed

section \<open>The receiving service\<close>

text \<open>The datagrams for the device among what is sent.\<close>

fun to_device :: "sent list \<Rightarrow> byte list list" where
  "to_device [] = []"
| "to_device (ToDevice a d # xs) = d # to_device xs"
| "to_device (ToFusion d # xs) = to_device xs"

lemma to_device_append [simp]: "to_device (xs @ ys) = to_device xs @ to_device ys"
  by (induction xs rule: to_device.induct) simp_all

lemma to_device_requests [simp]: "to_device (map ToFusion ds) = []"
  by (induction ds) simp_all

text \<open>The threads beside the two that receive leave the messages for the device alone, but for the sweep.\<close>

lemma bystander_frame:
  assumes "thread_step a S out S'" "a \<noteq> Thread FusionReceive" "a \<noteq> Thread IotTransmit"
  shows "fusionThrOutFifo (cluster (sv S')) = fusionThrOutFifo (cluster (sv S)) \<and> ttx S' = ttx S \<and> tfr S' = tfr S \<and> to_device out = []
    \<and> (rudp (sv S') = rudp (sv S) \<or> rudp (sv S') = (rudp (sv S))\<lparr>fusionSock := True\<rparr> \<or> (\<exists>t. rudp (sv S') = r_udp_req_sweep t (rudp (sv S))))"
  using assms
proof (induction rule: thread_step.induct)
  case (r_udp clock S s)
  then have "history_frame (sv S) s" by (blast dest: r_udp_round_frame)
  then have "cluster s = (cluster (sv S))\<lparr>IotThrInFifo := IotThrInFifo (cluster s)\<rparr>" "rudp s = rudp (sv S)" by (simp_all add: history_frame_def)
  then have "fusionThrOutFifo (cluster s) = fusionThrOutFifo (cluster (sv S))" by (metis Fifo_Cluster.select_convs(4) Fifo_Cluster.surjective Fifo_Cluster.update_convs(1))
  with \<open>rudp s = rudp (sv S)\<close> show ?case by simp
qed (auto simp: iot_rx_recv_def iot_rx_get_def iot_rx_put_def fusion_tx_get_def fusion_tx_push_def
    hist_push_frag_def r_udp_start_def r_udp_req_start_def r_udp_req_round_def control_round_def
    store_upd_def Let_def split: prod.splits if_splits option.splits sum.splits)

text \<open>The receiving threads are idle, with the free buffers \<open>bs\<close>, and the next \<open>n\<close> messages are not dropped.\<close>

definition receiving :: "system \<Rightarrow> ptr list \<Rightarrow> nat \<Rightarrow> bool" where
  "receiving R bs n \<longleftrightarrow> fr_pc (tfr R) = FrRecv \<and> tx_pc (ttx R) = TxGet \<and> wf_Msg_Buf (rxMsgPayload (tfr R))
     \<and> fifo_repr 8192 (fusionThrInFifo (cluster (sv R))) bs \<and> fifo_repr 8192 (fusionThrOutFifo (cluster (sv R))) []
     \<and> bs \<noteq> [] \<and> NULL \<notin> set bs \<and> length bs \<le> 8192
     \<and> unat (pkt_drop_count (tfr R)) + n \<le> 106496 \<and> (\<forall>k<n. (unat (pkt_drop_count (tfr R)) + k) mod 13 \<noteq> 0)"

text \<open>The steps that reassemble a message, without others in between.\<close>

lemma reassembly_run:
  assumes pc: "tx_pc (ttx S) = TxLookup"
    and d: "iot_deliver env (rudp (sv S)) (store (sv S) (tx_dataPayLoad (ttx S))) = Inr (st, d, reqs)"
    and a: "sk_addr (IOTSocket (sv S)) = a"
  shows "\<exists>u. tx_pc u = TxPut \<and> tx_dataPayLoad u = tx_dataPayLoad (ttx S)
    \<and> spared_run S [] (map ToFusion reqs @ (case d of None \<Rightarrow> [] | Some x \<Rightarrow> [ToDevice a x]))
        (S\<lparr>ttx := u, sv := tx_done st (sv S)\<rparr>)"
  using d
proof (cases rule: iot_deliver_steps)
  case (1 st1 h ds1 ds2)
  let ?S1 = "S\<lparr>ttx := (ttx S)\<lparr>tx_handle := h, tx_pc := TxStore\<rparr>, sv := (sv S)\<lparr>rudp := st1\<rparr>\<rparr>"
  let ?u = "(ttx S)\<lparr>tx_handle := h, tx_msgHandle := None, tx_pc := TxPut\<rparr>"
  have "sys_step ?S1 (map ToFusion ds2) (?S1\<lparr>ttx := ?u, sv := tx_done st (sv S)\<rparr>)"
    by (rule sys_step.any [OF thread_step.tx_store [where env = env]]) (use 1(4) in simp_all)
  from spared_quiet [OF this _ _ spared_run.stop] have "spared_run ?S1 [] (map ToFusion ds2) (S\<lparr>ttx := ?u, sv := tx_done st (sv S)\<rparr>)" by simp
  from spared_quiet [OF sys_step.any [OF thread_step.tx_lookup [OF pc 1(1)]] _ _ this] 1(2,3) pc show ?thesis by (intro exI [of _ ?u]) simp
next
  case (2 st1 h ds1 ds2 st2 bs g)
  let ?S1 = "S\<lparr>ttx := (ttx S)\<lparr>tx_handle := h, tx_pc := TxStore\<rparr>, sv := (sv S)\<lparr>rudp := st1\<rparr>\<rparr>"
  let ?S2 = "S\<lparr>ttx := (ttx S)\<lparr>tx_handle := h, tx_msgHandle := Some g, tx_pc := TxSend\<rparr>, sv := (sv S)\<lparr>rudp := st2\<rparr>\<rparr>"
  let ?u = "(ttx S)\<lparr>tx_handle := h, tx_msgHandle := Some g, tx_pc := TxPut\<rparr>"
  have "sys_step ?S2 [ToDevice a bs] (?S2\<lparr>ttx := ?u, sv := tx_done st (sv S)\<rparr>)"
    by (rule sys_step.any [OF thread_step.tx_send]) (use 2(5) a in simp_all)
  from spared_quiet [OF this _ _ spared_run.stop]
  have r: "spared_run ?S2 [] [ToDevice a bs] (S\<lparr>ttx := ?u, sv := tx_done st (sv S)\<rparr>)" by simp
  have "sys_step ?S1 (map ToFusion ds2) (?S1\<lparr>ttx := ttx ?S2, sv := sv ?S2\<rparr>)"
    by (rule sys_step.any [OF thread_step.tx_store [where env = env]]) (use 2(4) in simp_all)
  then have "sys_step ?S1 (map ToFusion ds2) ?S2" by simp
  from spared_quiet [OF this _ _ r] have "spared_run ?S1 [] (map ToFusion ds2 @ [ToDevice a bs])
    (S\<lparr>ttx := ?u, sv := tx_done st (sv S)\<rparr>)" by simp
  from spared_quiet [OF sys_step.any [OF thread_step.tx_lookup [OF pc 2(1)]] _ _ this] 2(2,3) pc show ?thesis by (intro exI [of _ ?u]) simp
qed

text \<open>A message that is not dropped: copied into the oldest free buffer \<open>b\<close>, which is queued.\<close>

lemma message_is_queued:
  assumes R: "receiving R (b # bs) (Suc n)"
    and m: "wf_Msg_Buf m" "unat (m_msgLen m) \<le> 60" "h_msgCode (msgHeader m) \<noteq> MSG_CODE_REQUEST_FRAG"
  shows "\<exists>R'. spared_run R [wire m] [] R' \<and> ttx R' = ttx R \<and> fr_pc (tfr R') = FrRecv
    \<and> rxMsgPayload (tfr R') = received (rxMsgPayload (tfr R)) (wire m) \<and> pkt_drop_count (tfr R') = pkt_drop_count (tfr R) + 1
    \<and> store (sv R') b = received (rxMsgPayload (tfr R)) (wire m) \<and> rudp (sv R') = rudp (sv R) \<and> IOTSocket (sv R') = IOTSocket (sv R)
    \<and> fifo_repr 8192 (fusionThrInFifo (cluster (sv R'))) bs \<and> fifo_repr 8192 (fusionThrOutFifo (cluster (sv R'))) [b]"
proof -
  let ?r = "received (rxMsgPayload (tfr R)) (wire m)" and ?c = "pkt_drop_count (tfr R)"
  have i: "fr_pc (tfr R) = FrRecv" "wf_Msg_Buf (rxMsgPayload (tfr R))" "b \<noteq> NULL"
    "fifo_repr 8192 (fusionThrInFifo (cluster (sv R))) (b # bs)" "fifo_repr 8192 (fusionThrOutFifo (cluster (sv R))) []"
    using R by (auto simp: receiving_def)
  have "wire m \<noteq> []" using wire_eq [OF m(1,2)] by (auto simp: Msg_Header_bytes_def)
  from fusion_rx_recv_data [OF this, of "tfr R" "sv R"] received_wire(2) [OF m(1,2) i(2)] m(3) obtain x where
    x: "fusion_rx_recv (Some (wire m)) (tfr R) (sv R)
        = Some ((tfr R)\<lparr>rxMsgPayload := x, fr_res := min sizeof_Msg_Buf (length (wire m)), fr_pc := FrGet\<rparr>, sv R)"
      "x\<lparr>m_msgLen := of_int (int (min sizeof_Msg_Buf (length (wire m))) - int sizeof_Msg_Header)\<rparr> = ?r" by auto
  let ?w1 = "(tfr R)\<lparr>rxMsgPayload := x, fr_res := min sizeof_Msg_Buf (length (wire m)), fr_pc := FrGet\<rparr>"
  have n: "(unat ?c + 12) div 13 \<le> 8192" "unat ?c mod 13 \<noteq> 0" using R by (auto simp: receiving_def)
  have c: "sint ?c mod 13 \<noteq> 0" by (rule drop_count_step(2) [OF n(1), THEN iffD2]) (rule n(2))
  from fusion_rx_get_eq [OF i(4,3), of ?w1] x(2) c obtain f1 where
    f1: "fusion_rx_get ?w1 (sv R) = Some (Inr (?w1\<lparr>rxMsgPayload := ?r, fr_rxMsgBufPtr := b, pkt_drop_count := ?c + 1, fr_pc := FrPut\<rparr>,
        store_upd b (\<lambda>_. ?r) ((sv R)\<lparr>cluster := (cluster (sv R))\<lparr>fusionThrInFifo := f1\<rparr>\<rparr>)))" "fifo_repr 8192 f1 bs" by auto
  let ?w2 = "?w1\<lparr>rxMsgPayload := ?r, fr_rxMsgBufPtr := b, pkt_drop_count := ?c + 1, fr_pc := FrPut\<rparr>"
    and ?s2 = "store_upd b (\<lambda>_. ?r) ((sv R)\<lparr>cluster := (cluster (sv R))\<lparr>fusionThrInFifo := f1\<rparr>\<rparr>)"
  from Fifo_put_repr [OF i(5), of b] obtain f2 where
    f2: "Fifo_put (fusionThrOutFifo (cluster (sv R))) b = Some (f2, 0)" "fifo_repr 8192 f2 [b]" by auto
  let ?s3 = "?s2\<lparr>cluster := (cluster ?s2)\<lparr>fusionThrOutFifo := f2\<rparr>\<rparr>"
  let ?R1 = "R\<lparr>tfr := ?w1, sv := sv R\<rparr>"
  let ?R2 = "?R1\<lparr>tfr := ?w2, sv := ?s2\<rparr>"
  let ?R3 = "?R2\<lparr>tfr := ?w2\<lparr>fr_pc := FrRecv\<rparr>, sv := ?s3\<rparr>"
  have "sys_step ?R2 [] ?R3" by (rule sys_step.any [OF thread_step.fr_put]) (simp_all add: fusion_rx_put_def f2(1) store_upd_def)
  then have r2: "spared_run ?R2 [] [] ?R3" by (rule spared_silent [OF _ _ _ spared_run.stop]) simp_all
  have "sys_step ?R1 [] ?R2" by (rule sys_step.any [OF thread_step.fr_get]) (simp_all add: f1(1))
  then have r1: "spared_run ?R1 [] [] ?R3" by (rule spared_silent [OF _ _ _ r2]) simp_all
  have "spared_run R [wire m] [] ?R3" by (rule spared_takes [OF i(1) x(1) refl r1])
  then show ?thesis using f1(2) f2(2) by (intro exI [of _ ?R3]) (simp add: store_upd_def)
qed

text \<open>A queued message: taken, worked off without a sweep in between, and its buffer put back.\<close>

lemma message_is_worked:
  assumes "tx_pc (ttx S) = TxGet" "b \<noteq> NULL" "fifo_repr 8192 (fusionThrOutFifo (cluster (sv S))) [b]"
    and "fifo_repr 8192 (fusionThrInFifo (cluster (sv S))) bs" "length bs < 8192"
    and d: "iot_deliver env (rudp (sv S)) (store (sv S) b) = Inr (st', d, reqs)"
  shows "\<exists>S'. spared_run S [] (map ToFusion reqs @ (case d of None \<Rightarrow> [] | Some x \<Rightarrow> [ToDevice (sk_addr (IOTSocket (sv S))) x])) S'
    \<and> tx_pc (ttx S') = TxGet \<and> tfr S' = tfr S \<and> rudp (sv S') = st'
    \<and> fifo_repr 8192 (fusionThrOutFifo (cluster (sv S'))) [] \<and> fifo_repr 8192 (fusionThrInFifo (cluster (sv S'))) (bs @ [b])"
proof -
  from Fifo_get_repr [OF assms(3), of "tx_dataPayLoad (ttx S)"] obtain f3 where
    f3: "Fifo_get (fusionThrOutFifo (cluster (sv S))) (tx_dataPayLoad (ttx S)) = Some (f3, 0, b)" "fifo_repr 8192 f3 []" by blast
  from Fifo_put_repr [OF assms(4,5), of b] obtain f5 where
    f5: "Fifo_put (fusionThrInFifo (cluster (sv S))) b = Some (f5, 0)" "fifo_repr 8192 f5 (bs @ [b])" by auto
  let ?out = "map ToFusion reqs @ (case d of None \<Rightarrow> [] | Some x \<Rightarrow> [ToDevice (sk_addr (IOTSocket (sv S))) x])"
  let ?s = "(sv S)\<lparr>cluster := (cluster (sv S))\<lparr>fusionThrOutFifo := f3\<rparr>\<rparr>"
  let ?S1 = "S\<lparr>ttx := (ttx S)\<lparr>tx_dataPayLoad := b, tx_msgHandle := None, tx_pc := TxLookup\<rparr>, sv := ?s\<rparr>"
  let ?s4 = "tx_done st' ?s"
  let ?s5 = "?s4\<lparr>cluster := (cluster ?s4)\<lparr>fusionThrInFifo := f5\<rparr>\<rparr>"
  have "\<exists>u. tx_pc u = TxPut \<and> tx_dataPayLoad u = tx_dataPayLoad (ttx ?S1) \<and> spared_run ?S1 [] ?out (?S1\<lparr>ttx := u, sv := tx_done st' (sv ?S1)\<rparr>)"
    by (rule reassembly_run [where env = env]) (use d in simp_all)
  then obtain u where u: "tx_pc u = TxPut" "tx_dataPayLoad u = b" "spared_run ?S1 [] ?out (?S1\<lparr>ttx := u, sv := ?s4\<rparr>)" by auto
  let ?S2 = "?S1\<lparr>ttx := u, sv := ?s4\<rparr>"
  let ?S3 = "?S2\<lparr>ttx := u\<lparr>tx_pc := TxGet\<rparr>, sv := ?s5\<rparr>"
  have "sys_step ?S2 [] ?S3" by (rule sys_step.any [OF thread_step.tx_put]) (simp_all add: iot_tx_put_def f5(1) u)
  then have "spared_run ?S2 [] [] ?S3" by (rule spared_silent [OF _ _ _ spared_run.stop]) simp_all
  then have r: "spared_run ?S1 [] ?out ?S3" using spared_append [OF u(3)] by fastforce
  have "sys_step S [] ?S1"
    by (rule sys_step.any [OF thread_step.tx_get]) (use assms(1,2) in \<open>simp_all add: iot_tx_get_def f3(1)\<close>)
  then have "spared_run S [] ?out ?S3" by (rule spared_silent [OF _ _ _ r]) simp_all
  then show ?thesis using f3(2) f5(2) by (intro exI [of _ ?S3]) simp
qed

lemma message_passes_through:
  assumes R: "receiving R bs (Suc n)" and m: "wf_Msg_Buf m" "unat (m_msgLen m) \<le> 60" "h_msgCode (msgHeader m) \<noteq> MSG_CODE_REQUEST_FRAG"
    and d: "iot_deliver env (rudp (sv R)) (received (rxMsgPayload (tfr R)) (wire m)) = Inr (st', d, reqs)"
  shows "\<exists>R' bs'. spared_run R [wire m] (map ToFusion reqs @ (case d of None \<Rightarrow> [] | Some x \<Rightarrow> [ToDevice (sk_addr (IOTSocket (sv R))) x])) R'
    \<and> receiving R' bs' n \<and> length bs' = length bs \<and> rudp (sv R') = st' \<and> rxMsgPayload (tfr R') = received (rxMsgPayload (tfr R)) (wire m)"
proof -
  let ?c = "pkt_drop_count (tfr R)"
  obtain b bs1 where bs: "bs = b # bs1" using R by (cases bs) (auto simp: receiving_def)
  have i: "tx_pc (ttx R) = TxGet" "wf_Msg_Buf (rxMsgPayload (tfr R))" "b \<noteq> NULL" "length bs1 < 8192" "(unat ?c + 12) div 13 \<le> 8192"
    using R by (auto simp: receiving_def bs)
  obtain R1 where q: "spared_run R [wire m] [] R1" "ttx R1 = ttx R" "fr_pc (tfr R1) = FrRecv"
    "rxMsgPayload (tfr R1) = received (rxMsgPayload (tfr R)) (wire m)" "pkt_drop_count (tfr R1) = ?c + 1"
    "store (sv R1) b = received (rxMsgPayload (tfr R)) (wire m)" "rudp (sv R1) = rudp (sv R)" "IOTSocket (sv R1) = IOTSocket (sv R)"
    "fifo_repr 8192 (fusionThrInFifo (cluster (sv R1))) bs1" "fifo_repr 8192 (fusionThrOutFifo (cluster (sv R1))) [b]"
    using message_is_queued [OF R [unfolded bs] m] by blast
  have "tx_pc (ttx R1) = TxGet" "iot_deliver env (rudp (sv R1)) (store (sv R1) b) = Inr (st', d, reqs)" using q(2,6,7) i(1) d by simp_all
  from message_is_worked [OF this(1) i(3) q(10,9) i(4) this(2)] obtain R2 where
    w: "spared_run R1 [] (map ToFusion reqs @ (case d of None \<Rightarrow> [] | Some x \<Rightarrow> [ToDevice (sk_addr (IOTSocket (sv R))) x])) R2"
      "tx_pc (ttx R2) = TxGet" "tfr R2 = tfr R1" "rudp (sv R2) = st'"
      "fifo_repr 8192 (fusionThrOutFifo (cluster (sv R2))) []" "fifo_repr 8192 (fusionThrInFifo (cluster (sv R2))) (bs1 @ [b])"
    unfolding q(8) by blast
  have "receiving R2 (bs1 @ [b]) n"
    using R w(2,3,5,6) q(3-5) received_wire(1) [OF m(1,2) i(2)] drop_count_step(1) [OF i(5)] by (auto simp: receiving_def bs)
  with spared_append [OF q(1) w(1)] w(3,4) q(4) bs show ?thesis by (intro exI [of _ R2] exI [of _ "bs1 @ [b]"]) simp
qed

text \<open>What the buffer on the stack of \<open>fusion_receive_routine\<close> makes of the datagrams one after the other.\<close>

fun stack_messages :: "Msg_Buf \<Rightarrow> Msg_Buf list \<Rightarrow> Msg_Buf list" where
  "stack_messages pl [] = []"
| "stack_messages pl (m # ms) = received pl (wire m) # stack_messages (received pl (wire m)) ms"

lemma messages_pass_through:
  assumes "receiving R bs (length ms)"
    and "\<forall>m \<in> set ms. wf_Msg_Buf m \<and> unat (m_msgLen m) \<le> 60 \<and> h_msgCode (msgHeader m) \<noteq> MSG_CODE_REQUEST_FRAG"
    and "iot_deliver_all (map (Pair env) (stack_messages (rxMsgPayload (tfr R)) ms)) (rudp (sv R)) = Inr (st', ds)"
  shows "\<exists>R' bs' out. spared_run R (map wire ms) out R' \<and> to_device out = ds \<and> receiving R' bs' 0 \<and> length bs' = length bs
    \<and> rudp (sv R') = st'"
  using assms
proof (induction ms arbitrary: R bs ds)
  case Nil
  then show ?case by (intro exI [of _ R] exI [of _ bs] exI [of _ "[]"]) (simp add: spared_run.stop)
next
  case (Cons m ms)
  let ?r = "received (rxMsgPayload (tfr R)) (wire m)"
  obtain st1 d reqs ds1 where
    d: "iot_deliver env (rudp (sv R)) ?r = Inr (st1, d, reqs)" "iot_deliver_all (map (Pair env) (stack_messages ?r ms)) st1 = Inr (st', ds1)"
      "ds = (case d of None \<Rightarrow> [] | Some x \<Rightarrow> [x]) @ ds1"
    using Cons.prems(3) by (auto split: sum.splits option.splits)
  from Cons.prems(1) have "receiving R bs (Suc (length ms))" by simp
  from message_passes_through [OF this _ _ _ d(1)] Cons.prems(2) obtain R1 bs1 where
    R1: "spared_run R [wire m] (map ToFusion reqs @ (case d of None \<Rightarrow> [] | Some x \<Rightarrow> [ToDevice (sk_addr (IOTSocket (sv R))) x])) R1"
      "receiving R1 bs1 (length ms)" "length bs1 = length bs" "rudp (sv R1) = st1" "rxMsgPayload (tfr R1) = ?r" by auto
  have "\<exists>R' bs' out. spared_run R1 (map wire ms) out R' \<and> to_device out = ds1 \<and> receiving R' bs' 0 \<and> length bs' = length bs1
    \<and> rudp (sv R') = st'"
    by (rule Cons.IH [OF R1(2)]) (use Cons.prems(2) d(2) R1(4,5) in simp_all)
  then obtain R' bs' out where R': "spared_run R1 (map wire ms) out R'" "to_device out = ds1" "receiving R' bs' 0"
    "length bs' = length bs1" "rudp (sv R') = st'" by blast
  have "to_device (case d of None \<Rightarrow> [] | Some x \<Rightarrow> [ToDevice (sk_addr (IOTSocket (sv R))) x]) = (case d of None \<Rightarrow> [] | Some x \<Rightarrow> [x])"
    by (cases d) simp_all
  with spared_append [OF R1(1) R'(1)] R' R1(3) d(3) show ?case
    by (intro exI [of _ R'] exI [of _ bs']) auto
qed

section \<open>From device to device\<close>

text \<open>A state in which the receiving threads of a service are idle.\<close>

lemma receiving_idle:
  assumes "sys_inv A B R" "queues (sv R) ins outs fin [] hs" "fin \<noteq> []" "fr_pc (tfr R) = FrRecv" "tx_pc (ttx R) = TxGet"
    and "\<forall>k<n. (unat (pkt_drop_count (tfr R)) + k) mod 13 \<noteq> 0"
  shows "receiving R fin n"
proof -
  obtain lost where i: "pools A B" "owned A B R ins outs fin [] hs lost" "contents A R outs hs"
    using sys_inv_queues [OF assms(1,2)] by blast
  let ?c = "unat (pkt_drop_count (tfr R))"
  have "mset B = mset (fin @ lost)" using i(2) assms(4,5) by (simp add: owned_def)
  from mset_eq_length [OF this] have "length lost < length B" using assms(3) by (cases fin) simp_all
  moreover have "length B \<le> 8192" using i(1) by (simp add: pools_def)
  ultimately have "(?c + 12) div 13 \<le> 8191" using i(2) by (simp add: owned_def)
  then have c: "?c < 106484" by simp
  have "n \<le> 12"
  proof (rule ccontr)
    assume "\<not> n \<le> 12"
    then have "(12 - (?c + 12) mod 13) < n" by simp
    with assms(6) have "(?c + (12 - (?c + 12) mod 13)) mod 13 \<noteq> 0" by blast
    then show False by presburger
  qed
  with c have "?c + n \<le> 106496" by simp
  moreover have "NULL \<notin> set fin" "length fin \<le> 8192" using owned_B [OF i(1,2)] by auto
  ultimately show ?thesis
    using assms i(3) by (simp add: receiving_def queues_def contents_def)
qed

text \<open>The whole way of a datagram through the sending service.\<close>

text \<open>The fragments of a datagram, from the device to the queue of what is to be sent.\<close>

lemma datagram_is_queued:
  assumes "sys_inv A B S" "queues (sv S) (ps @ fs) [] fin fout hs"
    and "rx_pc (trx S) = RxWait" "ft_pc (tft S) = FtGet" "\<not> service_disabled (ctl (sv S))"
    and "data \<noteq> []" "length data \<le> 1500" "length ps = fragment_count (length data)"
    and "iot_rx_recv (Some (from, data)) eagain (trx S) (sv S) = (t, s)"
  shows "\<exists>S1. sys_run (S\<lparr>trx := t, sv := s\<rparr>) [] [] S1 \<and> tft S1 = tft S \<and> rx_frame (sv S1) = rx_frame (sv S)
    \<and> fifo_repr 8192 (IotThrInFifo (cluster (sv S1))) fs \<and> fifo_repr 8192 (IotThrOutFifo (cluster (sv S1))) ps
    \<and> hist_repr (sv S1) hs \<and> distinct (hs @ ps) \<and> NULL \<notin> set ps
    \<and> (\<forall>k<length ps. store (sv S1) (ps ! k) = fragment_of (rx_txSeqNum (trx S) + 1) data k (store (sv S) (ps ! k)))
    \<and> (\<forall>p. wf_Msg_Buf (store (sv S) p))"
proof -
  obtain lost where i: "pools A B" "owned A B S (ps @ fs) [] fin fout hs lost" "contents A S [] hs"
    using sys_inv_queues [OF assms(1,2)] by blast
  note A = owned_A [OF i(1,2)]
  have d: "distinct ps" "NULL \<notin> set ps" "set ps \<inter> set hs = {}" "length ps \<le> 8192" "distinct (hs @ ps)"
    using A assms(3,4) by auto
  have q: "fifo_repr 8192 (IotThrInFifo (cluster (sv S))) (ps @ fs)" "fifo_repr 8192 (IotThrOutFifo (cluster (sv S))) []"
    "hist_repr (sv S) hs" using assms(2) by (simp_all add: queues_def)
  have wf: "length (rxPayLoad (trx S)) = 1500" "\<forall>p. wf_Msg_Buf (store (sv S) p)" using i(3) by (simp_all add: contents_def)
  from iot_receive_fragments_run [OF assms(6,7) wf(1) assms(3,5,8) q(1) d(2,1) q(2), of "from" eagain] d(4) assms(9) obtain t' s' where
    r: "iot_rx_run t s = Some (Inr (t', s'))" "fifo_repr 8192 (IotThrInFifo (cluster s')) fs" "fifo_repr 8192 (IotThrOutFifo (cluster s')) ps"
      "\<And>k. k < length ps \<Longrightarrow> store s' (ps ! k) = fragment_of (rx_txSeqNum (trx S) + 1) data k (store (sv S) (ps ! k))"
      "\<And>p. p \<notin> set ps \<Longrightarrow> store s' p = store (sv S) p" by auto
  have s: "rx_frame s = rx_frame (sv S)"
    using assms(9) by (auto simp: iot_rx_recv_def rx_frame_def Let_def split: prod.splits if_splits)
  have fr: "rx_frame s' = rx_frame (sv S)" using iot_rx_run_frame [OF r(1), rule_format, OF refl] s by simp
  have "path (store s') (ListHead (sv S)) hs = path (store (sv S)) (ListHead (sv S)) hs"
  proof (rule path_cong)
    fix x assume "x \<in> set hs"
    then have "x \<notin> set ps" using d(3) by blast
    from r(5) [OF this] show "m_next (store s' x) = m_next (store (sv S) x)" by (rule arg_cong)
  qed
  then have h: "hist_repr s' hs" using q(3) fr by (simp add: hist_repr_def rx_frame_def)
  have "sys_run (S\<lparr>trx := t, sv := s\<rparr>) [] [] (S\<lparr>trx := t', sv := s'\<rparr>)"
    using iot_rx_run_steps [OF r(1), rule_format, OF refl, of "S\<lparr>trx := t, sv := s\<rparr>"] by simp
  then show ?thesis using r(2-4) fr h d(2,5) wf(2) by (intro exI [of _ "S\<lparr>trx := t', sv := s'\<rparr>"]) simp
qed

lemma datagram_is_sent:
  assumes "sys_inv A B S" "queues (sv S) (ps @ fs) [] fin fout hs"
    and "rx_pc (trx S) = RxWait" "ft_pc (tft S) = FtGet" "\<not> service_disabled (ctl (sv S))"
    and "data \<noteq> []" "length data \<le> 1500" "length ps = fragment_count (length data)"
    and "iot_rx_recv (Some (from, data)) eagain (trx S) (sv S) = (t, s)"
  shows "\<exists>S'. sys_run (S\<lparr>trx := t, sv := s\<rparr>) []
      (map (\<lambda>k. ToFusion (wire (sent_fragment False (rx_txSeqNum (trx S) + 1) data k (store (sv S) (ps ! k))))) [0..<length ps]) S'
    \<and> queues (sv S') fs [] fin fout (hs @ ps)"
proof -
  let ?tx = "rx_txSeqNum (trx S) + 1"
  obtain S1 where r: "sys_run (S\<lparr>trx := t, sv := s\<rparr>) [] [] S1" "tft S1 = tft S" "rx_frame (sv S1) = rx_frame (sv S)"
    "fifo_repr 8192 (IotThrInFifo (cluster (sv S1))) fs" "fifo_repr 8192 (IotThrOutFifo (cluster (sv S1))) ps"
    "hist_repr (sv S1) hs" "distinct (hs @ ps)" "NULL \<notin> set ps"
    "\<And>k. k < length ps \<Longrightarrow> store (sv S1) (ps ! k) = fragment_of ?tx data k (store (sv S) (ps ! k))" "\<And>p. wf_Msg_Buf (store (sv S) p)"
    using datagram_is_queued [OF assms] by blast
  have m: "wf_Msg_Buf (store (sv S1) p) \<and> unat (m_msgLen (store (sv S1) p)) \<le> 60" if "p \<in> set ps" for p
  proof -
    from that obtain k where k: "k < length ps" "p = ps ! k" by (auto simp: in_set_conv_nth)
    have "carries (unat ?tx mod 16) (chunks data) (sent_fragment False ?tx data k (store (sv S) p))
      \<and> unat (m_msgLen (sent_fragment False ?tx data k (store (sv S) p))) \<le> 60"
      using sent_fragment_carries [of k data "store (sv S) p", where tx = ?tx and again = False] k(1) assms(7,8) r(10) by auto
    then show ?thesis using r(9) [OF k(1)] k(2) by (simp add: carries_def sent_fragment_def Let_def)
  qed
  have "ft_pc (tft S1) = FtGet" using assms(4) r(2) by simp
  from fusion_sends_queue [OF this r(5,6,7,8)] m obtain S' where
    S': "sys_run S1 [] (map (\<lambda>p. ToFusion (wire (fusion_header (store (sv S1) p)))) ps) S'"
    "fifo_repr 8192 (IotThrOutFifo (cluster (sv S'))) []" "hist_repr (sv S') (hs @ ps)" "ft_frame (sv S') = ft_frame (sv S1)" by blast
  have out: "map (\<lambda>p. ToFusion (wire (fusion_header (store (sv S1) p)))) ps
      = map (\<lambda>k. ToFusion (wire (sent_fragment False ?tx data k (store (sv S) (ps ! k))))) [0..<length ps]"
    by (rule nth_equalityI) (simp_all add: r(9) sent_fragment_def)
  have "queues (sv S') fs [] fin fout (hs @ ps)"
    using S'(2-4) r(3,4) assms(2) by (simp add: queues_def ft_frame_def rx_frame_def)
  with run_append [OF r(1) S'(1)] show ?thesis unfolding out by auto
qed

text \<open>The messages as they are received carry the datagram, whatever was in the buffer on the stack.\<close>

lemma stack_messages_carry:
  assumes "\<forall>k \<in> set is. k < fragment_count (length data)" "length data \<le> 1500" "\<forall>k. wf_Msg_Buf (b k)" "wf_Msg_Buf pl"
  shows "map msg_idx (stack_messages pl (map (\<lambda>k. sent_fragment False tx data k (b k)) is)) = is
    \<and> (\<forall>m \<in> set (stack_messages pl (map (\<lambda>k. sent_fragment False tx data k (b k)) is)). carries (unat tx mod 16) (chunks data) m)"
  using assms(1,4)
proof (induction "is" arbitrary: pl)
  case (Cons k ks)
  have k: "k < fragment_count (length data)" "wf_Msg_Buf (b k)" using Cons.prems assms(3) by auto
  let ?m = "sent_fragment False tx data k (b k)"
  note f = sent_fragment_carries [OF k(1) assms(2) k(2), where tx = tx and again = False]
  have wf: "wf_Msg_Buf ?m" using f(1) by (simp add: carries_def)
  from received_wire(1) [OF wf f(2) Cons.prems(2)] have "wf_Msg_Buf (received pl (wire ?m))" .
  from Cons.IH [OF _ this] Cons.prems(1) received_sent_fragment [OF k(1) assms(2) k(2) Cons.prems(2), where tx = tx and again = False]
  show ?case by simp
qed simp

text \<open>Fragments of one datagram, all of them once in any order, through the threads of a receiving service.\<close>

lemma fragments_pass_through:
  assumes recv: "receiving R bs (length is)" and data: "data \<noteq> []" "length data \<le> 1500" and wf: "\<forall>k. wf_Msg_Buf (b k)"
    and rel: "rudp_rel (rudp (sv R)) P" "unat tx mod 16 < 4" "P (unat tx mod 16) = []"
    and p: "distinct is" "set is = {0..<fragment_count (length data)}"
  shows "\<exists>R' out bs'. sys_run R (map (\<lambda>k. wire (sent_fragment False tx data k (b k))) is) out R' \<and> to_device out = [data]
    \<and> rudp_rel (rudp (sv R')) P \<and> receiving R' bs' 0 \<and> length bs' = length bs"
proof -
  let ?f = "\<lambda>k. sent_fragment False tx data k (b k)" and ?q = "unat tx mod 16"
  let ?ms = "map ?f is"
  have lt: "\<forall>k \<in> set is. k < fragment_count (length data)" using p(2) by auto
  have ok: "\<forall>m \<in> set ?ms. wf_Msg_Buf m \<and> unat (m_msgLen m) \<le> 60 \<and> h_msgCode (msgHeader m) \<noteq> MSG_CODE_REQUEST_FRAG"
  proof
    fix m assume "m \<in> set ?ms"
    then obtain k where k: "k \<in> set is" "m = ?f k" by auto
    have "k < fragment_count (length data)" "wf_Msg_Buf (b k)" using k(1) lt wf by blast+
    from sent_fragment_carries [OF this(1) data(2) this(2), where tx = tx and again = False]
    show "wf_Msg_Buf m \<and> unat (m_msgLen m) \<le> 60 \<and> h_msgCode (msgHeader m) \<noteq> MSG_CODE_REQUEST_FRAG"
      unfolding k(2) by (simp add: carries_def sent_fragment_def fusion_header_def pkt_consts)
  qed
  let ?xs = "stack_messages (rxMsgPayload (tfr R)) ?ms"
  have "wf_Msg_Buf (rxMsgPayload (tfr R))" using recv by (simp add: receiving_def)
  from stack_messages_carry [OF lt data(2) wf this, of tx]
  have xs: "map msg_idx ?xs = is" "\<forall>m \<in> set ?xs. carries ?q (chunks data) m" by simp_all
  have "set is = {0..<length (chunks data)}" using p(2) by simp
  then have "\<exists>st'. iot_deliver_all (map (Pair env_example) ?xs) (rudp (sv R)) = Inr (st', [concat (chunks data)]) \<and> rudp_rel st' P"
    by (intro iot_deliver_all_packet [OF rel(1) packet_ok_chunks [OF data] rel(2,3)])
      (use xs p(1) in \<open>auto simp: comp_def simp flip: set_map\<close>)
  then obtain st' where d: "iot_deliver_all (map (Pair env_example) ?xs) (rudp (sv R)) = Inr (st', [data])" "rudp_rel st' P"
    by (auto simp: concat_chunks)
  have "receiving R bs (length ?ms)" using recv by simp
  from messages_pass_through [OF this ok d(1)] d(2) show ?thesis by (auto simp: comp_def dest!: spared_run)
qed

text \<open>
  C1: A datagram of the device that \<open>iot_receive_routine\<close> of one service has
  taken in, while the threads of both services are idle, free buffers are at hand and no message
  is due to be dropped: the threads of the first service can run so that they send one datagram
  per fragment and move the buffers to the history; and when the packet's sequence number is 0 to 3
  modulo 16 and its slot at the other side is free, then in whatever order these datagrams
  arrive, the threads of the second service can run so that they take in exactly these, send
  its device exactly the original datagram and are idle again with as many free buffers.
\<close>

theorem datagram_crosses_services:
  assumes "sys_inv A B S" "queues (sv S) (ps @ fs) [] fin fout hs" "rx_pc (trx S) = RxWait" "ft_pc (tft S) = FtGet"
    and "\<not> service_disabled (ctl (sv S))" "data \<noteq> []" "length data \<le> 1500" "length ps = fragment_count (length data)"
    and "iot_rx_recv (Some (from, data)) eagain (trx S) (sv S) = (t, s)"
    and "sys_inv A' B' R" "queues (sv R) ins' outs' fin' [] hs'" "fin' \<noteq> []" "fr_pc (tfr R) = FrRecv" "tx_pc (ttx R) = TxGet"
    and "\<forall>k<length ps. (unat (pkt_drop_count (tfr R)) + k) mod 13 \<noteq> 0"
    and "rudp_rel (rudp (sv R)) P" "unat (rx_txSeqNum (trx S) + 1) mod 16 < 4" "P (unat (rx_txSeqNum (trx S) + 1) mod 16) = []"
  shows "\<exists>ds S'. length ds = length ps \<and> sys_run (S\<lparr>trx := t, sv := s\<rparr>) [] (map ToFusion ds) S'
    \<and> queues (sv S') fs [] fin fout (hs @ ps)
    \<and> (\<forall>is. distinct is \<and> set is = {0..<length ps} \<longrightarrow>
        (\<exists>R' out bs. sys_run R (map ((!) ds) is) out R' \<and> to_device out = [data] \<and> rudp_rel (rudp (sv R')) P
           \<and> receiving R' bs 0 \<and> length bs = length fin'))"
proof -
  let ?tx = "rx_txSeqNum (trx S) + 1"
  let ?b = "\<lambda>k. store (sv S) (ps ! k)"
  let ?f = "\<lambda>k. sent_fragment False ?tx data k (?b k)"
  let ?ds = "map (\<lambda>k. wire (?f k)) [0..<length ps]"
  obtain S' where S': "sys_run (S\<lparr>trx := t, sv := s\<rparr>) [] (map (\<lambda>k. ToFusion (wire (?f k))) [0..<length ps]) S'"
    "queues (sv S') fs [] fin fout (hs @ ps)" using datagram_is_sent [OF assms(1-9)] by blast
  have run: "sys_run (S\<lparr>trx := t, sv := s\<rparr>) [] (map ToFusion ?ds) S'" using S'(1) by (simp add: comp_def)
  have wf: "\<forall>k. wf_Msg_Buf (?b k)" using sys_inv_queues [OF assms(1,2)] by (simp add: contents_def)
  have recv: "receiving R fin' (length ps)" by (rule receiving_idle [OF assms(10-15)])
  have "\<exists>R' out bs. sys_run R (map ((!) ?ds) is) out R' \<and> to_device out = [data] \<and> rudp_rel (rudp (sv R')) P
      \<and> receiving R' bs 0 \<and> length bs = length fin'" if p: "distinct is" "set is = {0..<length ps}" for "is"
  proof -
    have "length is = length ps" using distinct_card [OF p(1)] p(2) by simp
    then have r: "receiving R fin' (length is)" using recv by simp
    have ds: "map ((!) ?ds) is = map (\<lambda>k. wire (?f k)) is" using p(2) by (intro map_cong) auto
    have "set is = {0..<fragment_count (length data)}" using p(2) assms(8) by simp
    from fragments_pass_through [OF r assms(6,7) wf assms(16-18) p(1) this] show ?thesis unfolding ds .
  qed
  with run S'(2) show ?thesis by (intro exI [of _ ?ds] exI [of _ S']) simp
qed

text \<open>A receiving service that has dropped its first message, with one free buffer.\<close>

definition system_2 :: system where
  "system_2 = system_1\<lparr>tfr := (tfr system_1)\<lparr>pkt_drop_count := 1\<rparr>\<rparr>"

lemma system_1_queues: "queues (sv system_1) ([100] @ []) [] [200] [] []"
  by (simp add: queues_def system_1_def fifo_repr_def one_pointer_def service_3_def cluster_example_def hist_repr_def Let_def)

lemma system_2_inv: "sys_inv [100] [200, 300] system_2" "queues (sv system_2) [100] [] [200] [] []"
proof -
  show q: "queues (sv system_2) [100] [] [200] [] []" using system_1_queues by (simp add: system_2_def)
  have o: "owned [100] [200, 300] system_2 [100] [] [200] [] [] [300]"
    by (simp add: owned_def system_2_def system_1_def iot_rx_0_def)
  have c: "contents [100] system_2 [] []"
    by (simp add: contents_def system_2_def system_1_def iot_rx_0_def service_3_def)
  show "sys_inv [100] [200, 300] system_2" by (rule sys_invI [OF _ refl q o c]) (simp add: pools_def)
qed

theorem datagram_crosses_services_witness:
  "\<exists>t s ds S'. iot_rx_recv (Some (zero_addr, [1, 2])) False (trx system_1) (sv system_1) = (t, s) \<and> length ds = 1
    \<and> sys_run (system_1\<lparr>trx := t, sv := s\<rparr>) [] (map ToFusion ds) S' \<and> queues (sv S') [] [] [200] [] [100]
    \<and> (\<exists>R' out. sys_run system_2 ds out R' \<and> to_device out = [[1, 2]])"
proof -
  obtain t s where ts: "iot_rx_recv (Some (zero_addr, [1, 2])) False (trx system_1) (sv system_1) = (t, s)" by fastforce
  have c: "length [100 :: ptr] = fragment_count (length [1 :: byte, 2])" by (simp add: fragment_count_def MAX_MSG_SIZE_def)
  have u: "rx_pc (trx system_1) = RxWait" "ft_pc (tft system_1) = FtGet" "\<not> service_disabled (ctl (sv system_1))"
    "rx_txSeqNum (trx system_1) = 0" "fr_pc (tfr system_2) = FrRecv" "tx_pc (ttx system_2) = TxGet"
    "pkt_drop_count (tfr system_2) = 1" "rudp (sv system_2) = idle_state"
    by (simp_all add: system_1_def system_2_def service_3_def iot_rx_0_def)
  have r: "rudp_rel (rudp (sv system_2)) (\<lambda>_. [])" unfolding u(8) by (rule idle_rel)
  obtain ds S' where d: "length ds = length [100 :: ptr]" "sys_run (system_1\<lparr>trx := t, sv := s\<rparr>) [] (map ToFusion ds) S'"
    "queues (sv S') [] [] [200] [] ([] @ [100])"
    "\<forall>is. distinct is \<and> set is = {0..<length [100 :: ptr]} \<longrightarrow> (\<exists>R' out bs. sys_run system_2 (map ((!) ds) is) out R' \<and> to_device out = [[1, 2]]
       \<and> rudp_rel (rudp (sv R')) (\<lambda>_. []) \<and> receiving R' bs 0 \<and> length bs = length [200 :: ptr])"
    using datagram_crosses_services [OF system_1_inv system_1_queues u(1-3) _ _ c ts system_2_inv _ u(5,6) _ r] u(4,7) by auto
  have "\<exists>R' out. sys_run system_2 (map ((!) ds) [0]) out R' \<and> to_device out = [[1, 2]]"
    using d(4) [rule_format, of "[0]"] by auto
  moreover have "map ((!) ds) [0] = ds" using d(1) by (cases ds) auto
  ultimately show ?thesis using ts d(1-3) by auto
qed

end
