(* ===== verification/Interleaving.thy ===== *)
theory Interleaving
  imports Network Rudp_Behaviour
begin

text \<open>
  Reassembly while other threads run.  \<open>defragment\<close> in \<open>iot_transmit_routine\<close> and the sweep of
  \<open>r_udp_req_routine\<close> work on the same table without a lock; here both are steps of the system.
\<close>

section \<open>A sweep before, after and within \<open>defragment\<close>\<close>

text \<open>A sweep is a step at any time, and hands nothing to the device.\<close>

lemma sweep_run:
  "sys_run (S\<lparr>sv := r_udp_req_round tm (sv S)\<rparr>) ds out S' \<Longrightarrow> sys_run S ds out S'"
  by (rule run_silent [OF sys_step.any [OF thread_step.r_udp_req]]) simp_all

abbreviation tx_message :: "system \<Rightarrow> Msg_Buf" where
  "tx_message S \<equiv> store (sv S) (tx_dataPayLoad (ttx S))"

lemma partial_run:
  assumes "tx_pc (ttx S) = TxLookup" "iot_deliver env (rudp (sv S)) (tx_message S) = Inr (st, None, reqs)"
  shows "\<exists>u. tx_pc u = TxPut \<and> sys_run S [] (map ToFusion reqs) (S\<lparr>ttx := u, sv := tx_done st (sv S)\<rparr>)"
  using reassembly_run [OF assms refl] by (auto dest: spared_run)

lemma sweep_between_run:
  assumes pc: "tx_pc (ttx S) = TxLookup" and rel: "rudp_rel (rudp (sv S)) P" and ok: "partial_ok P (tx_message S)"
    and t: "timed_out tm (slots (fragmentsTable (rudp (sv S))) ! msg_seq (tx_message S))"
  shows "\<exists>S' out P'. sys_run S [] out S' \<and> to_device out = [] \<and> tx_pc (ttx S') = TxPut
    \<and> rudp_rel (rudp (sv S')) P' \<and> P' (msg_seq (tx_message S)) = []"
proof -
  let ?m = "tx_message S"
  from sweep_between [OF rel ok t, of env_example] obtain st2 h ds st1 ds1 P' where
    l: "defrag_lookup env_example (rudp (sv S)) ?m = Inr (st2, h, ds)" and
    f: "defrag_finish env_example ?m (r_udp_req_sweep tm st2) h ds = Inr (st1, -1, None, ds1)"
      "rudp_rel st1 P'" "P' (msg_seq ?m) = []" by blast
  from f(1) obtain ds2 where f0: "defrag_finish env_example ?m (r_udp_req_sweep tm st2) h [] = Inr (st1, -1, None, ds2)"
    by (auto simp: defrag_finish_append [of _ _ _ _ ds] split: sum.splits)
  have "h_frgmntIdx (msgHeader ?m) < h_frgmnts (msgHeader ?m)"
    using partial_okD(3) [OF ok] by (simp add: word_less_nat_alt)
  then have 1: "iot_tx_lookup env_example (ttx S) (sv S)
      = Inr ((ttx S)\<lparr>tx_handle := h, tx_pc := TxStore\<rparr>, (sv S)\<lparr>rudp := st2\<rparr>, map ToFusion ds)"
    using l by (simp add: iot_tx_lookup_def)
  let ?S1 = "S\<lparr>ttx := (ttx S)\<lparr>tx_handle := h, tx_pc := TxStore\<rparr>, sv := (sv S)\<lparr>rudp := st2\<rparr>\<rparr>"
  let ?S2 = "?S1\<lparr>sv := r_udp_req_round tm (sv ?S1)\<rparr>"
  let ?S3 = "?S2\<lparr>ttx := (ttx ?S2)\<lparr>tx_msgHandle := None, tx_pc := TxPut\<rparr>, sv := tx_done st1 (sv ?S2)\<rparr>"
  have "sys_step ?S2 (map ToFusion ds2) ?S3"
    by (rule sys_step.any [OF thread_step.tx_store [where env = env_example]])
      (use f0 in \<open>simp_all add: iot_tx_store_def iot_tx_sent_def r_udp_req_round_def\<close>)
  from run_quiet [OF this _ sys_run.stop] have "sys_run ?S2 [] (map ToFusion ds2) ?S3" by simp
  from sweep_run [OF this] have "sys_run ?S1 [] (map ToFusion ds2) ?S3" .
  from run_quiet [OF sys_step.any [OF thread_step.tx_lookup [OF pc 1]] _ this]
  have "sys_run S [] (map ToFusion ds @ map ToFusion ds2) ?S3" by simp
  with f(2,3) show ?thesis by (intro exI [of _ ?S3] exI [of _ "map ToFusion ds @ map ToFusion ds2"]) auto
qed

text \<open>
  C15: \<open>iot_transmit_routine\<close> is about to run \<open>defragment\<close> on a fragment that
  does not complete its packet, and the packet has just timed out.  The threads can run so that
  the sweep comes first, and the packet starts again with this fragment; or last, and the packet
  is kept; or within \<open>defragment\<close>, which no lock prevents, and packet and fragment are both gone.
  In all three runs the fragment counts as handled and the device gets nothing.
\<close>

theorem sweep_races_defragment:
  assumes "tx_pc (ttx S) = TxLookup" "rudp_rel (rudp (sv S)) P" "partial_ok P (tx_message S)"
    and "timed_out tm (slots (fragmentsTable (rudp (sv S))) ! msg_seq (tx_message S))"
  shows "\<forall>xs \<in> {(replicate (msg_cnt (tx_message S)) None)[msg_idx (tx_message S) := Some (chunk_of (tx_message S))],
        (P (msg_seq (tx_message S)))[msg_idx (tx_message S) := Some (chunk_of (tx_message S))], []}.
      \<exists>S' out P'. sys_run S [] out S' \<and> to_device out = [] \<and> tx_pc (ttx S') = TxPut
        \<and> rudp_rel (rudp (sv S')) P' \<and> P' (msg_seq (tx_message S)) = xs"
proof -
  let ?m = "tx_message S" and ?s = "msg_seq (tx_message S)"
  let ?ok = "\<lambda>xs. \<exists>S' out P'. sys_run S [] out S' \<and> to_device out = [] \<and> tx_pc (ttx S') = TxPut
        \<and> rudp_rel (rudp (sv S')) P' \<and> P' ?s = xs"
  have first: "?ok ((replicate (msg_cnt ?m) None)[msg_idx ?m := Some (chunk_of ?m)])"
  proof -
    let ?S1 = "S\<lparr>sv := r_udp_req_round tm (sv S)\<rparr>"
    from sweep_then_fragment [OF assms(2-4), of env_example] obtain st1 ds P' where
      d: "iot_deliver env_example (r_udp_req_sweep tm (rudp (sv S))) ?m = Inr (st1, None, ds)" "rudp_rel st1 P'"
        "P' ?s = (replicate (msg_cnt ?m) None)[msg_idx ?m := Some (chunk_of ?m)]" by blast
    have "\<exists>u. tx_pc u = TxPut \<and> sys_run ?S1 [] (map ToFusion ds) (?S1\<lparr>ttx := u, sv := tx_done st1 (sv ?S1)\<rparr>)"
      by (rule partial_run [where env = env_example]) (use assms(1) d(1) in \<open>simp_all add: r_udp_req_round_def\<close>)
    then obtain u where u: "tx_pc u = TxPut" "sys_run ?S1 [] (map ToFusion ds) (?S1\<lparr>ttx := u, sv := tx_done st1 (sv ?S1)\<rparr>)" by blast
    from sweep_run [OF u(2)] u(1) d(2,3) show ?thesis
      by (intro exI [of _ "?S1\<lparr>ttx := u, sv := tx_done st1 (sv ?S1)\<rparr>"] exI [of _ "map ToFusion ds"] exI [of _ P']) simp
  qed
  have last: "?ok ((P ?s)[msg_idx ?m := Some (chunk_of ?m)])"
  proof -
    let ?env = "env_example\<lparr>now := tm\<rparr>"
    from fragment_then_sweep [OF assms(2,3), of tm ?env] obtain st1 ds P' where
      d: "iot_deliver ?env (rudp (sv S)) ?m = Inr (st1, None, ds)" "rudp_rel (r_udp_req_sweep tm st1) P'"
        "P' ?s = (P ?s)[msg_idx ?m := Some (chunk_of ?m)]" by auto
    obtain u where u: "tx_pc u = TxPut" "sys_run S [] (map ToFusion ds) (S\<lparr>ttx := u, sv := tx_done st1 (sv S)\<rparr>)"
      using partial_run [OF assms(1) d(1)] by blast
    let ?S2 = "S\<lparr>ttx := u, sv := tx_done st1 (sv S)\<rparr>"
    let ?S3 = "?S2\<lparr>sv := r_udp_req_round tm (sv ?S2)\<rparr>"
    from run_append [OF u(2) sweep_run [OF sys_run.stop, of ?S2 tm]] u(1) d(2,3) show ?thesis
      by (intro exI [of _ ?S3] exI [of _ "map ToFusion ds"] exI [of _ P']) (simp add: r_udp_req_round_def)
  qed
  show ?thesis using first last sweep_between_run [OF assms] by blast
qed

text \<open>The thread holds the first fragment of a packet whose second one arrived 41 seconds ago.\<close>

definition racing_system :: system where
  "racing_system = system_2\<lparr>sv := store_upd 300 (\<lambda>_. mk_fragment 1 0 3 (replicate 60 9)) ((sv system_2)\<lparr>rudp := half_state\<rparr>),
     ttx := (ttx system_2)\<lparr>tx_dataPayLoad := 300, tx_pc := TxLookup\<rparr>\<rparr>"

theorem sweep_races_defragment_witness:
  "\<exists>S' out P'. sys_run racing_system [] out S' \<and> to_device out = [] \<and> tx_pc (ttx S') = TxPut
     \<and> rudp_rel (rudp (sv S')) P' \<and> P' 1 = []"
proof -
  let ?m = "mk_fragment 1 0 3 (replicate 60 9)"
  have m: "tx_message racing_system = ?m" "rudp (sv racing_system) = half_state" "tx_pc (ttx racing_system) = TxLookup"
    by (simp_all add: racing_system_def store_upd_def)
  have s: "msg_seq ?m = 1" by (simp add: mk_fragment_simps)
  have "partial_ok half_reasm ?m"
    by (simp add: partial_ok_def fragment_ok_def reasm_slot_def half_reasm_def mk_fragment_simps)
  moreover have "timed_out \<lparr> tv_sec = 1031, tv_usec = 0 \<rparr> (slots (fragmentsTable half_state) ! msg_seq ?m)"
    unfolding s by (simp add: timed_out_def half_state_def slots_def)
  ultimately show ?thesis
    using sweep_races_defragment [of racing_system half_reasm "\<lparr> tv_sec = 1031, tv_usec = 0 \<rparr>", unfolded m, OF refl half_rel] s by simp
qed

end
