(* ===== verification/Lossy.thy ===== *)
theory Lossy
  imports Rudp_Behaviour Network
begin

text \<open>
  The abstract reassembler when packets can be forgotten at any time, and \<open>defragment\<close> of
  \<open>src/rudp_req.c\<close> in its phases, with the sweep of the timeout thread between them.
\<close>

section \<open>A reassembler that forgets\<close>

definition forget :: "nat set \<Rightarrow> reasm \<Rightarrow> reasm" where
  "forget D A = (\<lambda>s. if s \<in> D then [] else A s)"

text \<open>
  Runs on a list of fragments: packets are forgotten at any moment, a fragment is taken, or it is
  lost with the packet it belongs to.
\<close>

inductive lossy :: "Msg_Buf list \<Rightarrow> reasm \<Rightarrow> byte list list \<Rightarrow> reasm \<Rightarrow> bool" where
  stop: "lossy [] A [] A"
| forgets: "lossy ms (forget D A) ds A' \<Longrightarrow> lossy ms A ds A'"
| takes: "fragment_ok A m \<Longrightarrow> lossy ms (fst (reasm_step A m)) ds A'
    \<Longrightarrow> lossy (m # ms) A ((case snd (reasm_step A m) of None \<Rightarrow> [] | Some d \<Rightarrow> [d]) @ ds) A'"
| loses: "lossy ms (A(msg_seq m := [])) ds A' \<Longrightarrow> lossy (m # ms) A ds A'"

lemma lossy_append: "lossy ms A ds A' \<Longrightarrow> lossy ns A' es A'' \<Longrightarrow> lossy (ms @ ns) A (ds @ es) A''"
proof (induction rule: lossy.induct)
  case (takes A m ms ds A')
  from lossy.takes [OF takes.hyps(1) takes.IH [OF takes.prems]] show ?case by simp
qed (auto intro: lossy.intros)

lemma lossy_step: "fragment_ok A m \<Longrightarrow> reasm_step A m = (A', d) \<Longrightarrow> lossy [m] A (case d of None \<Rightarrow> [] | Some x \<Rightarrow> [x]) A'"
  using lossy.takes [of A m "[]" "[]" A'] by (simp add: lossy.stop)

lemma lossy_forget: "lossy [] A [] (forget D A)"
  by (rule lossy.forgets [OF lossy.stop])

lemma lossy_lose: "lossy [m] A [] (A(msg_seq m := []))"
  by (rule lossy.loses [OF lossy.stop])

lemma forget_forget: "forget D (forget E A) = forget (D \<union> E) A"
  by (auto simp: forget_def)

lemma forget_empty [simp]: "forget {} A = A"
  by (simp add: forget_def)

text \<open>Messages that fit whatever is forgotten before and between them.\<close>

fun fits :: "Msg_Buf list \<Rightarrow> reasm \<Rightarrow> bool" where
  "fits [] A = True"
| "fits (m # ms) A = (\<forall>D. fragment_ok (forget D A) m \<and> fits ms (fst (reasm_step (forget D A) m))
     \<and> fits ms ((forget D A)(msg_seq m := [])))"

lemma fits_forget: "fits ms A \<Longrightarrow> fits ms (forget D A)"
  by (cases ms) (simp_all add: forget_forget)

lemma fits_fragment: "fits (m # ms) A \<Longrightarrow> fragment_ok A m"
  using forget_empty [of A] by (metis fits.simps(2))

lemma fits_lossy: "lossy ms A ds A' \<Longrightarrow> fits (ms @ ns) A \<Longrightarrow> fits ns A'"
proof (induction rule: lossy.induct)
  case (takes A m ms ds A')
  then have "fits (ms @ ns) (fst (reasm_step (forget {} A) m))" by (simp only: append_Cons fits.simps)
  then show ?case using takes.IH by simp
next
  case (loses ms A m ds A')
  then have "fits (ms @ ns) ((forget {} A)(msg_seq m := []))" by (simp only: append_Cons fits.simps)
  from loses.IH [OF this [unfolded forget_empty]] show ?case .
qed (simp_all add: fits_forget)

subsection \<open>What comes out is whole\<close>

text \<open>\<open>d\<close> is the data of one packet of which every fragment is among the messages.\<close>

definition whole :: "Msg_Buf set \<Rightarrow> byte list \<Rightarrow> bool" where
  "whole M d \<longleftrightarrow> (\<exists>s ms. ms \<noteq> [] \<and> set ms \<subseteq> M \<and> d = concat (map chunk_of ms)
     \<and> (\<forall>i<length ms. msg_seq (ms ! i) = s \<and> msg_idx (ms ! i) = i \<and> msg_cnt (ms ! i) = length ms))"

definition made_of :: "Msg_Buf set \<Rightarrow> reasm \<Rightarrow> bool" where
  "made_of M A \<longleftrightarrow> (\<forall>s i c. i < length (A s) \<longrightarrow> A s ! i = Some c \<longrightarrow>
     (\<exists>m \<in> M. msg_seq m = s \<and> msg_idx m = i \<and> msg_cnt m = length (A s) \<and> chunk_of m = c))"

lemma made_of_slot:
  assumes "made_of M A" "fragment_ok A m" "m \<in> M" "i < msg_cnt m"
    "(reasm_slot A m)[msg_idx m := Some (chunk_of m)] ! i = Some c"
  shows "\<exists>k \<in> M. msg_seq k = msg_seq m \<and> msg_idx k = i \<and> msg_cnt k = msg_cnt m \<and> chunk_of k = c"
proof (cases "i = msg_idx m")
  case True
  with assms(2,4,5) have "c = chunk_of m" by (simp add: fragment_ok_def)
  with True assms(3) show ?thesis by blast
next
  case False
  have l: "length (reasm_slot A m) = msg_cnt m" using assms(2) by (simp add: fragment_ok_def)
  have n: "reasm_slot A m ! i = Some c" using assms(5) False by simp
  then have ne: "A (msg_seq m) \<noteq> []" using assms(4) by (auto simp: reasm_slot_def)
  with l n assms(4) have a: "i < length (A (msg_seq m))" "A (msg_seq m) ! i = Some c" "length (A (msg_seq m)) = msg_cnt m"
    by (simp_all add: reasm_slot_def)
  from assms(1) a(1,2) obtain k where "k \<in> M" "msg_seq k = msg_seq m" "msg_idx k = i" "msg_cnt k = length (A (msg_seq m))" "chunk_of k = c"
    unfolding made_of_def by blast
  with a(3) show ?thesis by auto
qed

lemma made_of_step:
  assumes "made_of M A" "fragment_ok A m" "m \<in> M"
  shows "made_of M (fst (reasm_step A m))" "snd (reasm_step A m) = Some d \<Longrightarrow> whole M d"
proof -
  let ?xs = "(reasm_slot A m)[msg_idx m := Some (chunk_of m)]"
  have l: "length ?xs = msg_cnt m" "msg_idx m < msg_cnt m" using assms(2) by (simp_all add: fragment_ok_def)
  show "made_of M (fst (reasm_step A m))"
    using assms(1) made_of_slot [OF assms] l(1) by (auto simp: reasm_step_def Let_def made_of_def)
  assume d: "snd (reasm_step A m) = Some d"
  then have full: "None \<notin> set ?xs" "d = concat (map the ?xs)" by (auto simp: reasm_step_def Let_def split: if_splits)
  have "\<exists>k. k \<in> M \<and> msg_seq k = msg_seq m \<and> msg_idx k = i \<and> msg_cnt k = msg_cnt m \<and> ?xs ! i = Some (chunk_of k)" if "i < msg_cnt m" for i
  proof -
    from that l(1) full(1) obtain c where "?xs ! i = Some c" by (metis not_None_eq nth_mem)
    with made_of_slot [OF assms that this] show ?thesis by auto
  qed
  then obtain f where f: "\<And>i. i < msg_cnt m \<Longrightarrow> f i \<in> M \<and> msg_seq (f i) = msg_seq m \<and> msg_idx (f i) = i
      \<and> msg_cnt (f i) = msg_cnt m \<and> ?xs ! i = Some (chunk_of (f i))" by metis
  let ?ms = "map f [0..<msg_cnt m]"
  have "map the ?xs = map chunk_of ?ms" using f l(1) by (intro nth_equalityI) simp_all
  then have "d = concat (map chunk_of ?ms)" using full(2) by simp
  moreover have "?ms \<noteq> []" using l(2) by simp
  moreover have "set ?ms \<subseteq> M" using f by auto
  ultimately show "whole M d" using f unfolding whole_def by (intro exI [of _ "msg_seq m"] exI [of _ ?ms]) simp
qed

lemma lossy_whole: "lossy ms A ds A' \<Longrightarrow> made_of M A \<Longrightarrow> set ms \<subseteq> M \<Longrightarrow> made_of M A' \<and> (\<forall>d \<in> set ds. whole M d)"
proof (induction rule: lossy.induct)
  case (forgets ms D A ds A')
  then show ?case by (auto simp: made_of_def forget_def)
next
  case (takes A m ms ds A')
  have m: "m \<in> M" using takes.prems(2) by simp
  note s = made_of_step [OF takes.prems(1) takes.hyps(1) m]
  from takes.IH [OF s(1)] takes.prems(2) s(2) show ?case by (auto split: option.splits)
next
  case (loses ms A m ds A')
  then show ?case by (auto simp: made_of_def)
qed simp

section \<open>\<open>defragment\<close> in phases\<close>

definition others_rel :: "rudp_state \<Rightarrow> reasm \<Rightarrow> nat \<Rightarrow> bool" where
  "others_rel st A s \<longleftrightarrow> wf_table (fragmentsTable st) \<and> fusionSock st
     \<and> (\<forall>j<4. j \<noteq> s \<longrightarrow> slot_rel (slots (fragmentsTable st) ! j) (A j))"

abbreviation slot_of :: "rudp_state \<Rightarrow> Msg_Buf \<Rightarrow> UDP_Fragment" where
  "slot_of st m \<equiv> slots (fragmentsTable st) ! msg_seq m"

abbreviation stored :: "reasm \<Rightarrow> Msg_Buf \<Rightarrow> byte list option list" where
  "stored A m \<equiv> (reasm_slot A m)[msg_idx m := Some (chunk_of m)]"

text \<open>
  The slot has been looked up: it holds what there is of the packet, but a sweep may have freed it
  since.  The fragment has been stored and the packet is complete: all its data is in the slot.
\<close>

definition looked_up :: "bool \<Rightarrow> rudp_state \<Rightarrow> reasm \<Rightarrow> Msg_Buf \<Rightarrow> bool" where
  "looked_up swept st A m \<longleftrightarrow> others_rel st A (msg_seq m) \<and> f_used (slot_of st m) = (\<not> swept)
     \<and> slot_holds ((slot_of st m)\<lparr>f_used := True\<rparr>) (reasm_slot A m)"

definition completed :: "rudp_state \<Rightarrow> reasm \<Rightarrow> Msg_Buf \<Rightarrow> bool" where
  "completed st A m \<longleftrightarrow> others_rel st A (msg_seq m) \<and> None \<notin> set (stored A m)
     \<and> unat (f_size (slot_of st m)) \<le> length (f_data (slot_of st m))
     \<and> take (unat (f_size (slot_of st m))) (f_data (slot_of st m)) = concat (map the (stored A m))"

lemma rudp_rel_others: "s < 4 \<Longrightarrow> rudp_rel st A \<longleftrightarrow> others_rel st A s \<and> slot_rel (slots (fragmentsTable st) ! s) (A s)"
  by (auto simp: rudp_rel_def others_rel_def)

lemma lookup_phase:
  assumes rel: "rudp_rel st A" and ok: "fragment_ok A m"
  shows "\<exists>st' ds. defrag_lookup env st m = Inr (st', (0, msg_seq m), ds) \<and> looked_up False st' A m"
proof -
  have s: "msg_seq m < 4" using ok by (simp add: fragment_ok_def)
  from defrag_lookup_eq [OF rudp_rel_ready [OF rel] has_slot_less [OF s], of env] obtain st' ds where
    l: "defrag_lookup env st m = Inr (st', (0, msg_seq m), ds)" "fragmentsTable st' = lookup_table (fragmentsTable st) (msg_seq m)"
      "fusionSock st'" by blast
  note wf = rudp_relD(1) [OF rel]
  have h: "slot_holds (slot_of st' m) (reasm_slot A m)" using lookup_holds [OF rel ok] by (simp add: l(2))
  then have u: "f_used (slot_of st' m)" by (simp add: slot_holds_def)
  with h have "slot_holds ((slot_of st' m)\<lparr>f_used := True\<rparr>) (reasm_slot A m)" by (cases "slot_of st' m") simp
  moreover have "others_rel st' A (msg_seq m)"
    using s l(2,3) wf rudp_relD(3) [OF rel] by (simp add: others_rel_def lookup_table_simps)
  ultimately show ?thesis using l(1) h u by (intro exI [of _ st'] exI [of _ ds]) (simp add: looked_up_def)
qed

text \<open>A fragment of the packet that does not change the slots of others keeps their relation.\<close>

lemma others_rel_upd:
  assumes "others_rel st A s" "s < 4" "length (f_data F) = 1500" "fusionSock st'"
    "fragmentsTable st' = frag_upd (fragmentsTable st) (0, s) F"
  shows "others_rel st' A s" "slots (fragmentsTable st') ! s = F"
  using assms by (auto simp: others_rel_def wf_frag_upd tab.get_put)

lemma slot_rel_stored:
  assumes "slot_holds G xs" "unat (f_frgmnts G) = length xs" "xs \<noteq> []"
  shows "slot_rel (G\<lparr>f_used := \<not> swept, f_frgmntIdx := i\<rparr>) (if swept then [] else xs)"
proof -
  from assms(1) have "f_used G" by (simp add: slot_holds_def)
  with assms(1) have "slot_holds (G\<lparr>f_used := True\<rparr>) xs" by (cases G) simp
  then have "slot_holds (G\<lparr>f_used := True, f_frgmntIdx := i\<rparr>) xs" by simp
  with assms(2,3) show ?thesis by (simp add: slot_rel_def)
qed

lemma store_phase:
  assumes l: "looked_up swept st A m" and ok: "fragment_ok A m"
  shows "\<exists>st' ds. if None \<in> set (stored A m)
    then defrag_finish env m st (0, msg_seq m) [] = Inr (st', -1, None, ds)
      \<and> rudp_rel st' (if swept then A(msg_seq m := []) else fst (reasm_step A m)) \<and> snd (reasm_step A m) = None
    else defrag_finish env m st (0, msg_seq m) [] = Inr (st', 0, Some (0, msg_seq m), ds) \<and> completed st' A m"
proof -
  let ?s = "msg_seq m" and ?q = "ucast (h_seqNum (msgHeader m)) :: u8" and ?F = "slot_of st m"
  have m: "wf_Msg_Buf m" "?s < 4" "msg_idx m < msg_cnt m" "unat (m_msgLen m) \<le> 60"
    "Suc (msg_idx m) < msg_cnt m \<longrightarrow> unat (m_msgLen m) = 60" "length (reasm_slot A m) = msg_cnt m" "reasm_slot A m ! msg_idx m = None"
    using ok by (simp_all add: fragment_ok_def)
  have o: "others_rel st A ?s" and h: "slot_holds (?F\<lparr>f_used := True\<rparr>) (reasm_slot A m)" and u: "f_used ?F = (\<not> swept)"
    using l by (simp_all add: looked_up_def)
  from h have "slot_holds (?F\<lparr>f_used := True, f_pktSeqNum := ?q\<rparr>) (reasm_slot A m)" by simp
  from defrag_store_holds [OF this m(1,3-7), of env] obtain G where
    G: "defrag_store env m (?F\<lparr>f_used := True, f_pktSeqNum := ?q\<rparr>) = Inr G" "slot_holds G (stored A m)" "unat (f_frgmnts G) = msg_cnt m"
    by blast
  have "?F\<lparr>f_pktSeqNum := ?q\<rparr> = (?F\<lparr>f_used := True, f_pktSeqNum := ?q\<rparr>)\<lparr>f_used := \<not> swept\<rparr>" using u by (cases ?F) simp
  then have st: "defrag_store env m (?F\<lparr>f_pktSeqNum := ?q\<rparr>) = Inr (G\<lparr>f_used := \<not> swept\<rparr>)"
    by (simp only: defrag_store_unused [OF G(1)])
  let ?G = "G\<lparr>f_used := \<not> swept, f_frgmntIdx := ucast (h_frgmntIdx (msgHeader m))\<rparr>"
  have lx: "length (stored A m) = msg_cnt m" using m(6) by simp
  note full = slot_holds_full [OF G(2), unfolded lx]
  have lt: "h_frgmntIdx (msgHeader m) < h_frgmnts (msgHeader m)" using m(3) by (simp add: word_less_nat_alt)
  have fs: "fusionSock st" using o by (simp add: others_rel_def)
  have fin: "\<exists>st' ds. defrag_finish env m st (0, ?s) [] = Inr (st', if msg_cnt m \<le> unat (f_accumulatedFrgmnts G) then 0 else -1,
      if msg_cnt m \<le> unat (f_accumulatedFrgmnts G) then Some (0, ?s) else None, ds)
    \<and> fragmentsTable st' = frag_upd (fragmentsTable st) (0, ?s) ?G \<and> fusionSock st'"
    using lt fs by (cases "retransmit_msg m"; cases "Suc (unat (f_frgmntIdx G)) < msg_idx m")
      (simp_all add: defrag_finish_def Let_def st rrudp_ask_retransmit_def hub_send_req_def term_set_cur_pkt_seq_def)
  then obtain st' ds where f: "defrag_finish env m st (0, ?s) [] = Inr (st', if None \<notin> set (stored A m) then 0 else -1,
      if None \<notin> set (stored A m) then Some (0, ?s) else None, ds)"
    "fragmentsTable st' = frag_upd (fragmentsTable st) (0, ?s) ?G" "fusionSock st'" unfolding full by blast
  have d: "length (f_data ?G) = 1500" using G(2) by (simp add: slot_holds_def)
  note o' = others_rel_upd [OF o m(2) d f(3,2)]
  show ?thesis
  proof (cases "None \<in> set (stored A m)")
    case True
    have "A(?s := stored A m) = fst (reasm_step A m)" "snd (reasm_step A m) = None" using True by (simp_all add: reasm_step_def)
    moreover have "slot_rel ?G (if swept then [] else stored A m)"
      using slot_rel_stored [OF G(2)] G(3) lx m(3) by fastforce
    then have "rudp_rel st' (A(?s := if swept then [] else stored A m))"
      unfolding rudp_rel_others [OF m(2)] using o' by (simp add: others_rel_def)
    ultimately show ?thesis using f(1) True by (intro exI [of _ st'] exI [of _ ds]) (auto split: if_splits)
  next
    case False
    have "completed st' A m" using o' False d slot_holds_complete [OF G(2) False] by (simp add: completed_def)
    then show ?thesis using f(1) False by (intro exI [of _ st'] exI [of _ ds]) simp
  qed
qed

lemma send_phase:
  assumes c: "completed st A m" and ok: "fragment_ok A m"
  shows "\<exists>d T. sendto (f_data (slot_of st m)) (unat (f_size (slot_of st m))) = Inr d
    \<and> release_fragment (fragmentsTable st) (Some (0, msg_seq m)) = Inr T \<and> snd (reasm_step A m) = Some d
    \<and> rudp_rel (st\<lparr>fragmentsTable := T\<rparr>) (fst (reasm_step A m))"
proof -
  have s: "msg_seq m < 4" using ok by (simp add: fragment_ok_def)
  have o: "others_rel st A (msg_seq m)" and f: "None \<notin> set (stored A m)" using c by (simp_all add: completed_def)
  let ?st = "st\<lparr>fragmentsTable := frag_upd (fragmentsTable st) (0, msg_seq m) zero_fragment\<rparr>"
  have z: "length (f_data zero_fragment) = 1500" by (simp add: zero_fragment_def NET_PACKET_SIZE_def)
  have "fusionSock ?st" using o by (simp add: others_rel_def)
  from others_rel_upd [OF o s z this] have o': "others_rel ?st A (msg_seq m)" "slot_of ?st m = zero_fragment" by simp_all
  have "slot_rel zero_fragment []" by (simp add: slot_rel_def zero_fragment_def)
  then have "rudp_rel ?st (A(msg_seq m := []))"
    unfolding rudp_rel_others [OF s] using o' by (simp add: others_rel_def)
  then show ?thesis using c f by (simp add: completed_def sendto_def release_fragment_def reasm_step_def)
qed

section \<open>The sweep between the phases\<close>

definition expired :: "timeval \<Rightarrow> rudp_state \<Rightarrow> nat set" where
  "expired t st = {s. s < 4 \<and> timed_out t (slots (fragmentsTable st) ! s)}"

lemma sweep_idle: "rudp_rel st A \<Longrightarrow> rudp_rel (r_udp_req_sweep t st) (forget (expired t st) A)"
  using sweep_rel [of st A t] by (simp add: forget_def expired_def)

lemma fusionSock_sweep [simp]: "fusionSock (r_udp_req_sweep t st) = fusionSock st"
  by (simp add: r_udp_req_sweep_def)

lemma slot_rel_age:
  "slot_rel F xs \<Longrightarrow> slot_rel (age t F) (if timed_out t F then [] else xs)"
  by (auto simp: slot_rel_def age_def slot_holds_def split: if_splits)

lemma sweep_others:
  assumes "others_rel st A s"
  shows "others_rel (r_udp_req_sweep t st) (forget (expired t st - {s}) A) s"
proof -
  have wf: "wf_table (fragmentsTable st)" using assms by (simp add: others_rel_def)
  show ?thesis
    using assms sweep_slots(1) [OF wf, of t] sweep_slots(2) [OF wf, of _ t] slot_rel_age [where t = t] by (auto simp: others_rel_def forget_def expired_def)
qed

lemma forget_other: "msg_seq m \<notin> D \<Longrightarrow> reasm_slot (forget D A) m = reasm_slot A m"
  by (simp add: reasm_slot_def forget_def)

lemma fragment_ok_forget: "msg_seq m \<notin> D \<Longrightarrow> fragment_ok (forget D A) m = fragment_ok A m"
  by (simp add: fragment_ok_def forget_other)

lemma sweep_looked_up:
  assumes "looked_up swept st A m" "msg_seq m < 4"
  shows "looked_up (swept \<or> msg_seq m \<in> expired t st) (r_udp_req_sweep t st) (forget (expired t st - {msg_seq m}) A) m"
proof -
  have o: "others_rel st A (msg_seq m)" using assms(1) by (simp add: looked_up_def)
  then have wf: "wf_table (fragmentsTable st)" by (simp add: others_rel_def)
  have "slot_of (r_udp_req_sweep t st) m = age t (slot_of st m)" using sweep_slots(2) [OF wf, of "msg_seq m" t] assms(2) by simp
  then show ?thesis
    using sweep_others [OF o, of t] assms by (simp add: looked_up_def forget_other) (auto simp: age_def expired_def)
qed

lemma sweep_completed:
  assumes "completed st A m" "msg_seq m < 4"
  shows "completed (r_udp_req_sweep t st) (forget (expired t st - {msg_seq m}) A) m"
proof -
  have o: "others_rel st A (msg_seq m)" using assms(1) by (simp add: completed_def)
  then have wf: "wf_table (fragmentsTable st)" by (simp add: others_rel_def)
  have "slot_of (r_udp_req_sweep t st) m = age t (slot_of st m)" using sweep_slots(2) [OF wf, of "msg_seq m" t] assms(2) by simp
  then show ?thesis
    using sweep_others [OF o, of t] assms(1) by (simp add: completed_def forget_other age_def)
qed

text \<open>A sweep that frees no slot in use forgets nothing.\<close>

lemma frees_none_expired:
  assumes "frees_none st (r_udp_req_sweep t st)" "wf_table (fragmentsTable st)" "s \<in> expired t st"
  shows "\<not> f_used (slots (fragmentsTable st) ! s)"
  using assms sweep_slots(2) [OF assms(2), of s t] by (auto simp: frees_none_def expired_def age_def)

lemma forget_none:
  assumes "frees_none st (r_udp_req_sweep t st)" "others_rel st A s"
  shows "forget (expired t st - {s}) A = A"
proof -
  have wf: "wf_table (fragmentsTable st)" using assms(2) by (simp add: others_rel_def)
  have "A j = []" if "j \<in> expired t st" "j \<noteq> s" for j
    using frees_none_expired [OF assms(1) wf that(1)] assms(2) that
    by (auto simp: others_rel_def expired_def slot_rel_def slot_holds_def split: if_splits)
  then show ?thesis by (auto simp: forget_def)
qed

lemma forget_none_idle:
  assumes "frees_none st (r_udp_req_sweep t st)" "rudp_rel st A"
  shows "forget (expired t st) A = A"
proof -
  have "others_rel st A 4" using assms(2) by (simp add: others_rel_def rudp_rel_def)
  from forget_none [OF assms(1) this] show ?thesis by (simp add: expired_def)
qed

end
