(* ===== verification/Delivery.thy ===== *)
theory Delivery
  imports Lossy
begin

text \<open>
  What the device gets in any run of the threads: the messages on their way from
  \<open>fusion_receive_routine\<close> to \<open>iot_transmit_routine\<close>, the abstract reassembler that follows the
  second one through the phases of \<open>defragment\<close>, and the datagrams it hands out.
\<close>

section \<open>What is to be expected\<close>

text \<open>
  The messages queued for the device when the datagrams \<open>ds\<close> arrive: \<open>pl\<close> is the buffer on the
  stack, \<open>c\<close> the number of messages so far, of which every thirteenth is dropped.  Requests for a
  fragment only leave their bytes behind.
\<close>

fun arrivals :: "Msg_Buf \<Rightarrow> nat \<Rightarrow> byte list list \<Rightarrow> Msg_Buf list" where
  "arrivals pl c [] = []"
| "arrivals pl c (bs # ds) =
     (if bs = [] then arrivals pl c ds
      else (let raw = Msg_Buf_of_bytes (mem_write (Msg_Buf_bytes pl) 0 (take sizeof_Msg_Buf bs)) in
        if h_msgCode (msgHeader raw) = MSG_CODE_REQUEST_FRAG then arrivals raw c ds
        else (if c mod 13 \<noteq> 0 then [received pl bs] else []) @ arrivals (received pl bs) (Suc c) ds))"

text \<open>The same for a thread that may be about to copy a message into a buffer.\<close>

definition to_come :: "fusion_rx \<Rightarrow> byte list list \<Rightarrow> Msg_Buf list" where
  "to_come t ds =
     (let c = unat (pkt_drop_count t) in
      if fr_pc t = FrGet
      then (let m = (rxMsgPayload t)\<lparr>m_msgLen := of_int (int (fr_res t) - int sizeof_Msg_Header)\<rparr>
            in (if c mod 13 \<noteq> 0 then [m] else []) @ arrivals m (Suc c) ds)
      else arrivals (rxMsgPayload t) c ds)"

section \<open>Messages on their way and the phase of the reassembly\<close>

definition in_work :: "iot_tx \<Rightarrow> ptr list" where
  "in_work t = (if tx_pc t \<in> {TxLookup, TxStore, TxSend} then [tx_dataPayLoad t] else [])"

definition waiting :: "system \<Rightarrow> Msg_Buf list \<Rightarrow> bool" where
  "waiting S ms \<longleftrightarrow> (\<exists>fout. fifo_repr 8192 (fusionThrOutFifo (cluster (sv S))) fout
     \<and> ms = map (store (sv S)) (in_work (ttx S) @ fout @ held_fr (tfr S)))"

definition phase_ok :: "bool \<Rightarrow> system \<Rightarrow> reasm \<Rightarrow> bool" where
  "phase_ok swept S P \<longleftrightarrow>
     (let m = store (sv S) (tx_dataPayLoad (ttx S)); st = rudp (sv S) in
      if tx_pc (ttx S) = TxStore
      then fragment_ok P m \<and> tx_handle (ttx S) = (0, msg_seq m) \<and> looked_up swept st P m
      else if tx_pc (ttx S) = TxSend
      then fragment_ok P m \<and> tx_msgHandle (ttx S) = Some (0, msg_seq m) \<and> completed st P m \<and> \<not> swept
      else rudp_rel st P \<and> \<not> swept)"

text \<open>\<open>swept\<close>: a sweep has freed the slot that \<open>iot_transmit_routine\<close> is working on.\<close>

definition tracks :: "bool \<Rightarrow> system \<Rightarrow> reasm \<Rightarrow> Msg_Buf list \<Rightarrow> bool" where
  "tracks swept S P ms \<longleftrightarrow> waiting S ms \<and> phase_ok swept S P"

text \<open>The next fragment fits when it is about to be looked up.\<close>

abbreviation next_fits :: "system \<Rightarrow> reasm \<Rightarrow> Msg_Buf list \<Rightarrow> bool" where
  "next_fits S P ms \<equiv> (tx_pc (ttx S) = TxLookup \<longrightarrow> fragment_ok P (hd ms))"

lemma waiting_pool:
  assumes "sys_inv A B S" "fifo_repr 8192 (fusionThrOutFifo (cluster (sv S))) fout"
  shows "set (in_work (ttx S) @ fout @ held_fr (tfr S)) \<subseteq> set B"
    "fifo_repr 8192 (fusionThrInFifo (cluster (sv S))) fin \<Longrightarrow> set fin \<inter> set (in_work (ttx S) @ fout @ held_fr (tfr S)) = {}"
    "set A \<inter> set B = {}" "NULL \<notin> set B"
proof -
  from assms(1) obtain ins outs fin1 fout1 hs lost where i: "pools A B" "queues (sv S) ins outs fin1 fout1 hs"
    "owned A B S ins outs fin1 fout1 hs lost" by (auto simp: sys_inv_iff)
  have f: "fout1 = fout" using i(2) assms(2) by (auto simp: queues_def dest: fifo_repr_unique)
  note B = owned_B [OF i(1,3), unfolded f]
  have w: "set (in_work (ttx S)) \<subseteq> set (held_tx (ttx S))" by (auto simp: in_work_def)
  show "set (in_work (ttx S) @ fout @ held_fr (tfr S)) \<subseteq> set B" using B(2) w by auto
  show "set A \<inter> set B = {}" "NULL \<notin> set B" using B by auto
  assume "fifo_repr 8192 (fusionThrInFifo (cluster (sv S))) fin"
  then have "fin1 = fin" using i(2) by (auto simp: queues_def dest: fifo_repr_unique)
  then show "set fin \<inter> set (in_work (ttx S) @ fout @ held_fr (tfr S)) = {}" using B(1) w by auto
qed

text \<open>Only \<open>fusion_receive_routine\<close> with a fresh buffer writes into the buffers of the receiving pool.\<close>

lemma hist_push_store: "q \<noteq> p \<Longrightarrow> (ListHead s \<noteq> NULL \<Longrightarrow> q \<noteq> ListTail s) \<Longrightarrow> store (hist_push_frag tm p s) q = store s q"
  by (auto simp: hist_push_frag_def store_upd_def Let_def)

lemma hist_repr_ends: "hist_repr s hs \<Longrightarrow> ListHead s \<noteq> NULL \<Longrightarrow> ListTail s \<in> set hs"
  by (auto simp: hist_repr_def)

lemma search_store:
  assumes "hist_find_frag fl sq s = Some (x, s')" "hist_repr s hs" "p \<notin> set hs"
  shows "store s' p = store s p"
proof -
  have "y \<noteq> NULL \<longrightarrow> y \<in> set hs" if "hist_search (store s) (ListHead s) fl sq = Some y" for y
    using that hist_search_path [of "store s" "ListHead s" hs fl sq] assms(2)
    by (auto simp: hist_repr_def split: option.splits dest!: find_Some_mem)
  with assms(1,3) show ?thesis by (auto simp: hist_find_frag_def hist_linger_def store_upd_def split: option.splits if_splits)
qed

text \<open>The two threads that write into a buffer they take write into no other.\<close>

lemma rx_get_store:
  assumes "iot_rx_get t s = Some (Inr (t', s'))" "fifo_repr 8192 (IotThrInFifo (cluster s)) ins" "p \<notin> set ins"
  shows "store s' p = store s p"
proof -
  obtain f r b where g: "Fifo_get (IotThrInFifo (cluster s)) (rx_dataPayLoad t) = Some (f, r, b)"
    using assms(1) by (auto simp: iot_rx_get_def split: option.splits)
  then show ?thesis using assms(1) Fifo_get_SomeD [OF assms(2) g] assms(3)
    by (auto simp: iot_rx_get_def store_upd_def split: if_splits sum.splits)
qed

lemma ft_get_store:
  assumes "fusion_tx_get t s = Some (Inr (t', s', out))" "fifo_repr 8192 (IotThrOutFifo (cluster s)) outs" "p \<notin> set outs"
  shows "store s' p = store s p"
proof -
  obtain f r b where g: "Fifo_get (IotThrOutFifo (cluster s)) (ft_rxMsgBufPtr t) = Some (f, r, b)"
    using assms(1) by (auto simp: fusion_tx_get_def split: option.splits)
  then show ?thesis using assms(1) Fifo_get_SomeD [OF assms(2) g] assms(3)
    by (auto simp: fusion_tx_get_def store_upd_def Let_def split: if_splits sum.splits)
qed

lemma store_kept:
  assumes "thread_step a S out S'" "sys_inv A B S" "p \<in> set B" "a \<noteq> Thread FusionReceive \<or> fr_pc (tfr S) \<noteq> FrGet"
  shows "store (sv S') p = store (sv S) p"
proof -
  from assms(2) obtain ins outs fin fout hs lost where i: "pools A B" "queues (sv S) ins outs fin fout hs"
    "owned A B S ins outs fin fout hs lost" "contents A S outs hs" by (auto simp: sys_inv_iff)
  have p: "p \<notin> set A" using owned_B(5) [OF i(1,3)] assms(3) by auto
  have q: "set ins \<subseteq> set A" "set outs \<subseteq> set A" "set hs \<subseteq> set A" "set (held_ft (tft S)) \<subseteq> set A"
    using owned_A(2) [OF i(1,3)] by auto
  have h: "hist_repr (sv S) hs" using i(2) by (simp add: queues_def)
  show ?thesis using assms(1)
  proof (cases rule: thread_step.cases)
    case (rx_recv d eagain t s)
    then show ?thesis by (auto simp: iot_rx_recv_def Let_def split: prod.splits if_splits)
  next
    case (rx_get t s)
    have "fifo_repr 8192 (IotThrInFifo (cluster (sv S))) ins" using i(2) by (simp add: queues_def)
    with rx_get q(1) p show ?thesis by (auto dest!: rx_get_store)
  next
    case (ft_get v s)
    have "fifo_repr 8192 (IotThrOutFifo (cluster (sv S))) outs" using i(2) by (simp add: queues_def)
    with ft_get q(2) p show ?thesis by (auto dest!: ft_get_store)
  next
    case (ft_push tm v s)
    have "p \<noteq> ft_rxMsgBufPtr (tft S)" using p q(4) ft_push(4) by auto
    moreover have "ListHead (sv S) \<noteq> NULL \<Longrightarrow> p \<noteq> ListTail (sv S)" using hist_repr_ends [OF h] p q(3) by auto
    ultimately show ?thesis using ft_push hist_push_store [of p "ft_rxMsgBufPtr (tft S)" "sv S" tm] by (auto simp: fusion_tx_push_def)
  next
    case (fr_recv bs w s)
    have "store s' p = store (sv S) p" if "hist_find_frag fl sq (sv S) = Some (x, s')" for fl sq x s'
      using search_store [OF that h] p q(3) by blast
    then show ?thesis using fr_recv by (auto simp: fusion_rx_recv_def Let_def split: option.splits if_splits)
  next
    case (fr_reply w s)
    then have "fr_pkt (tfr S) \<noteq> p" using i(4) p by (auto simp: contents_def)
    then show ?thesis using fr_reply by (auto simp: fusion_rx_reply_def send_reply_def store_upd_def Let_def split: sum.splits if_splits)
  next
    case (fr_get w s)
    then show ?thesis using assms(4) by auto
  next
    case (r_udp clock s)
    then show ?thesis by (auto dest!: r_udp_round_frame simp: history_frame_def)
  next
    case (tx_lookup env u s)
    then show ?thesis using tx_frame_steps(1) by (auto simp: tx_frame_def)
  next
    case (tx_store env u s)
    then show ?thesis using tx_frame_steps(2) by (auto simp: tx_frame_def)
  next
    case (tx_send u s)
    then show ?thesis using tx_frame_steps(3) by (auto simp: tx_frame_def)
  qed (auto simp: iot_rx_put_def iot_tx_get_def iot_tx_put_def fusion_rx_put_def r_udp_start_def r_udp_req_start_def
      r_udp_req_round_def control_round_def Let_def split: option.splits if_splits prod.splits)
qed


section \<open>The steps of \<open>iot_transmit_routine\<close>\<close>

lemma transmit_message:
  assumes "waiting S ms" "tx_pc (ttx S) \<in> {TxLookup, TxStore, TxSend}"
  obtains ns where "ms = store (sv S) (tx_dataPayLoad (ttx S)) # ns"
  using assms by (auto simp: waiting_def in_work_def)

text \<open>The phases do not touch the queue; the message is done when the thread gives the buffer back.\<close>

lemma waiting_frame:
  assumes "waiting S ms" "tx_pc (ttx S) \<in> {TxLookup, TxStore, TxSend}" "tx_frame (ttx S) (sv S) u s" "tx_pc u \<noteq> TxPut \<longrightarrow> tx_pc u \<in> {TxLookup, TxStore, TxSend}"
  shows "waiting (S\<lparr>ttx := u, sv := s\<rparr>) (if tx_pc u = TxPut then tl ms else ms)"
  using assms by (auto simp: waiting_def in_work_def tx_frame_def)

definition exactly :: "Msg_Buf list \<Rightarrow> reasm \<Rightarrow> byte list list \<Rightarrow> reasm \<Rightarrow> bool" where
  "exactly ms P ds P' \<longleftrightarrow> reasm_all ms P = (P', ds)"

lemma exactly_simps [simp]: "exactly [] P [] P"
  "exactly [m] P ds P' \<longleftrightarrow> fst (reasm_step P m) = P' \<and> (case snd (reasm_step P m) of None \<Rightarrow> [] | Some d \<Rightarrow> [d]) = ds"
  by (auto simp: exactly_def split_beta split: option.splits)

lemma reasm_all_append: "reasm_all (ms @ ns) P
    = (fst (reasm_all ns (fst (reasm_all ms P))), snd (reasm_all ms P) @ snd (reasm_all ns (fst (reasm_all ms P))))"
  by (induction ms arbitrary: P) (auto simp: split_beta Let_def split: option.splits)

lemma exactly_append: "exactly ms P ds P' \<Longrightarrow> exactly ns P' es P'' \<Longrightarrow> exactly (ms @ ns) P (ds @ es) P''"
  by (simp add: exactly_def reasm_all_append)

text \<open>What one step of the thread does: \<open>done\<close> are the messages it has finished.\<close>

definition follows :: "bool \<Rightarrow> system \<Rightarrow> reasm \<Rightarrow> Msg_Buf list \<Rightarrow> sent list \<Rightarrow> system \<Rightarrow> bool" where
  "follows swept S P ms out S' \<longleftrightarrow> (\<exists>done ms' P' swept'. ms = done @ ms' \<and> lossy done P (to_device out) P' \<and> tracks swept' S' P' ms'
    \<and> (\<not> swept \<longrightarrow> \<not> swept' \<and> exactly done P (to_device out) P'))"

lemma follows_silent: "tracks swept' S' P ms \<Longrightarrow> \<not> swept \<longrightarrow> \<not> swept' \<Longrightarrow> to_device out = [] \<Longrightarrow> follows swept S P ms out S'"
  unfolding follows_def by (intro exI [of _ "[]"] exI [of _ ms] exI [of _ P] exI [of _ swept']) (simp add: lossy.stop)

lemma follows_one:
  assumes "tracks False S' P' ns" "lossy [m] P (to_device out) P'" "\<not> swept \<Longrightarrow> exactly [m] P (to_device out) P'"
  shows "follows swept S P (m # ns) out S'"
  unfolding follows_def using assms by (intro exI [of _ "[m]"] exI [of _ ns] exI [of _ P'] exI [of _ False]) simp

lemma transmit_get:
  assumes "tracks swept S P ms" "tx_pc (ttx S) = TxGet" "iot_tx_get (ttx S) (sv S) = Some (Inr (u, s))"
  shows "tracks swept (S\<lparr>ttx := u, sv := s\<rparr>) P ms"
proof -
  from assms(3) obtain f r p where g: "Fifo_get (fusionThrOutFifo (cluster (sv S))) (tx_dataPayLoad (ttx S)) = Some (f, r, p)"
    by (auto simp: iot_tx_get_def split: option.splits)
  from assms(1,2) obtain fout where f: "fifo_repr 8192 (fusionThrOutFifo (cluster (sv S))) fout" "ms = map (store (sv S)) (fout @ held_fr (tfr S))"
    by (auto simp: tracks_def waiting_def in_work_def)
  obtain ps where p: "fout = p # ps" "fifo_repr 8192 f ps" using Fifo_get_SomeD [OF f(1) g] by blast
  have us: "u = (ttx S)\<lparr>tx_dataPayLoad := p, tx_msgHandle := None, tx_pc := TxLookup\<rparr>"
    "s = (sv S)\<lparr>cluster := (cluster (sv S))\<lparr>fusionThrOutFifo := f\<rparr>\<rparr>" using assms(3) g by (auto simp: iot_tx_get_def split: if_splits)
  have "waiting (S\<lparr>ttx := u, sv := s\<rparr>) ms" using p f(2) by (auto simp: waiting_def in_work_def us)
  then show ?thesis using assms(1,2) by (simp add: tracks_def phase_ok_def us)
qed

lemma transmit_lookup:
  assumes t: "tracks swept S P ms" and pc: "tx_pc (ttx S) = TxLookup" and ok: "fragment_ok P (hd ms)"
    and l: "iot_tx_lookup env (ttx S) (sv S) = Inr (u, s, out)"
  shows "tracks False (S\<lparr>ttx := u, sv := s\<rparr>) P ms \<and> to_device out = []"
proof -
  let ?m = "store (sv S) (tx_dataPayLoad (ttx S))"
  have w: "waiting S ms" and rel: "rudp_rel (rudp (sv S)) P" using t pc by (simp_all add: tracks_def phase_ok_def Let_def)
  obtain ns where "ms = ?m # ns" by (rule transmit_message [OF w]) (use pc in simp)
  with ok have ok: "fragment_ok P ?m" by simp
  from lookup_phase [OF rel ok, of env] obtain st ds where d: "defrag_lookup env (rudp (sv S)) ?m = Inr (st, (0, msg_seq ?m), ds)"
    "looked_up False st P ?m" by blast
  have "h_frgmntIdx (msgHeader ?m) < h_frgmnts (msgHeader ?m)" using ok by (simp add: fragment_ok_def word_less_nat_alt)
  then have us: "u = (ttx S)\<lparr>tx_handle := (0, msg_seq ?m), tx_pc := TxStore\<rparr>" "s = (sv S)\<lparr>rudp := st\<rparr>" "out = map ToFusion ds"
    using l d(1) by (simp_all add: iot_tx_lookup_def Let_def)
  have "waiting (S\<lparr>ttx := u, sv := s\<rparr>) ms" using waiting_frame [OF w _ tx_frame_steps(1) [OF l]] pc us(1) by simp
  then show ?thesis using d(2) ok us(3) by (simp add: tracks_def phase_ok_def us(1,2))
qed

lemma transmit_store:
  assumes t: "tracks swept S P ms" and pc: "tx_pc (ttx S) = TxStore" and st: "iot_tx_store env (ttx S) (sv S) = Inr (u, s, out)"
  shows "follows swept S P ms out (S\<lparr>ttx := u, sv := s\<rparr>)"
proof -
  let ?m = "store (sv S) (tx_dataPayLoad (ttx S))" and ?S = "S\<lparr>ttx := u, sv := s\<rparr>"
  have w: "waiting S ms" and i: "fragment_ok P ?m" "tx_handle (ttx S) = (0, msg_seq ?m)" "looked_up swept (rudp (sv S)) P ?m"
    using t pc by (simp_all add: tracks_def phase_ok_def Let_def)
  obtain ns where ms: "ms = ?m # ns" by (rule transmit_message [OF w]) (use pc in simp)
  note fr = waiting_frame [OF w _ tx_frame_steps(2) [OF st]]
  from store_phase [OF i(3,1), of env] obtain st' ds where d: "if None \<in> set (stored P ?m)
    then defrag_finish env ?m (rudp (sv S)) (0, msg_seq ?m) [] = Inr (st', -1, None, ds)
      \<and> rudp_rel st' (if swept then P(msg_seq ?m := []) else fst (reasm_step P ?m)) \<and> snd (reasm_step P ?m) = None
    else defrag_finish env ?m (rudp (sv S)) (0, msg_seq ?m) [] = Inr (st', 0, Some (0, msg_seq ?m), ds) \<and> completed st' P ?m" by blast
  show ?thesis
  proof (cases "None \<in> set (stored P ?m)")
    case True
    let ?P = "if swept then P(msg_seq ?m := []) else fst (reasm_step P ?m)"
    have d': "defrag_finish env ?m (rudp (sv S)) (0, msg_seq ?m) [] = Inr (st', -1, None, ds)" "rudp_rel st' ?P"
      "snd (reasm_step P ?m) = None" using d True by auto
    have us: "tx_pc u = TxPut" "rudp s = st'" "out = map ToFusion ds"
      using st d'(1) i(2) by (auto simp: iot_tx_store_def iot_tx_sent_def Let_def)
    have "tracks False ?S ?P ns" using fr pc us d'(2) ms by (simp add: tracks_def phase_ok_def)
    moreover have "lossy [?m] P [] ?P"
      using lossy_lose [of ?m P] lossy_step [OF i(1), of "fst (reasm_step P ?m)" None] d'(3) by (auto simp: prod_eq_iff)
    ultimately show ?thesis unfolding ms using us(3) d'(3) by (intro follows_one [where P' = ?P]) simp_all
  next
    case False
    then have d': "defrag_finish env ?m (rudp (sv S)) (0, msg_seq ?m) [] = Inr (st', 0, Some (0, msg_seq ?m), ds)" "completed st' P ?m"
      using d by simp_all
    have us: "u = (ttx S)\<lparr>tx_msgHandle := Some (0, msg_seq ?m), tx_pc := TxSend\<rparr>" "s = (sv S)\<lparr>rudp := st'\<rparr>" "out = map ToFusion ds"
      using st d'(1) i(2) by (simp_all add: iot_tx_store_def Let_def)
    have "waiting ?S ms" using fr pc us(1) by simp
    then have "tracks False ?S P ms" using i(1) d'(2) by (simp add: tracks_def phase_ok_def us)
    then show ?thesis by (rule follows_silent) (simp_all add: us(3))
  qed
qed

lemma transmit_send:
  assumes t: "tracks swept S P ms" and pc: "tx_pc (ttx S) = TxSend" and st: "iot_tx_send (ttx S) (sv S) = Inr (u, s, out)"
  shows "follows swept S P ms out (S\<lparr>ttx := u, sv := s\<rparr>)"
proof -
  let ?m = "store (sv S) (tx_dataPayLoad (ttx S))" and ?S = "S\<lparr>ttx := u, sv := s\<rparr>"
  have w: "waiting S ms" and i: "fragment_ok P ?m" "tx_msgHandle (ttx S) = Some (0, msg_seq ?m)" "completed (rudp (sv S)) P ?m"
    using t pc by (simp_all add: tracks_def phase_ok_def Let_def)
  obtain ns where ms: "ms = ?m # ns" by (rule transmit_message [OF w]) (use pc in simp)
  from send_phase [OF i(3,1)] obtain d T where d: "sendto (f_data (slot_of (rudp (sv S)) ?m)) (unat (f_size (slot_of (rudp (sv S)) ?m))) = Inr d"
    "release_fragment (fragmentsTable (rudp (sv S))) (Some (0, msg_seq ?m)) = Inr T" "snd (reasm_step P ?m) = Some d"
    "rudp_rel ((rudp (sv S))\<lparr>fragmentsTable := T\<rparr>) (fst (reasm_step P ?m))" by blast
  have us: "tx_pc u = TxPut" "rudp s = (rudp (sv S))\<lparr>fragmentsTable := T\<rparr>" "to_device out = [d]"
    using st d(1,2) i(2) by (auto simp: iot_tx_send_def iot_tx_sent_def udp_send_def Let_def split: sum.splits)
  have "tracks False ?S (fst (reasm_step P ?m)) ns"
    using waiting_frame [OF w _ tx_frame_steps(3) [OF st]] pc us d(4) ms by (simp add: tracks_def phase_ok_def)
  moreover have "lossy [?m] P [d] (fst (reasm_step P ?m))"
    using lossy_step [OF i(1), of "fst (reasm_step P ?m)" "Some d"] d(3) by (auto simp: prod_eq_iff)
  ultimately show ?thesis unfolding ms using us(3) d(3) by (intro follows_one [where P' = "fst (reasm_step P ?m)"]) simp_all
qed

lemma transmit_put:
  assumes "tracks swept S P ms" "tx_pc (ttx S) = TxPut" "iot_tx_put (ttx S) (sv S) = Some (u, s)"
  shows "tracks swept (S\<lparr>ttx := u, sv := s\<rparr>) P ms"
proof -
  have "tx_pc u = TxGet" "rudp s = rudp (sv S)" "store s = store (sv S)" "fusionThrOutFifo (cluster s) = fusionThrOutFifo (cluster (sv S))"
    using assms(3) by (auto simp: iot_tx_put_def split: option.splits)
  then show ?thesis using assms(1,2)
    by (cases "fr_pc (tfr S) = FrPut") (simp_all add: tracks_def waiting_def phase_ok_def in_work_def)
qed

lemma transmit_step:
  assumes "thread_step (Thread IotTransmit) S out S'" "tracks swept S P ms" "next_fits S P ms"
  shows "follows swept S P ms out S'"
  using assms(1)
proof (cases rule: thread_step.cases)
  case (tx_get u s)
  then show ?thesis using follows_silent [OF transmit_get [OF assms(2)]] by simp
next
  case (tx_lookup env u s)
  with assms(3) have "tracks False S' P ms \<and> to_device out = []" using transmit_lookup [OF assms(2) _ _ tx_lookup(3)] by simp
  then show ?thesis by (auto intro: follows_silent)
next
  case (tx_store env u s)
  then show ?thesis using transmit_store [OF assms(2)] by simp
next
  case (tx_send u s)
  then show ?thesis using transmit_send [OF assms(2)] by simp
next
  case (tx_put u s)
  then show ?thesis using follows_silent [OF transmit_put [OF assms(2)]] by simp
qed

section \<open>The steps of the other threads\<close>

lemma waiting_kept:
  assumes "waiting S ms" "sys_inv A B S" "fusionThrOutFifo (cluster (sv S')) = fusionThrOutFifo (cluster (sv S))"
    and "in_work (ttx S') = in_work (ttx S)" "held_fr (tfr S') = held_fr (tfr S)"
    and "\<And>p. p \<in> set B \<Longrightarrow> store (sv S') p = store (sv S) p"
  shows "waiting S' ms"
proof -
  from assms(1) obtain fout where f: "fifo_repr 8192 (fusionThrOutFifo (cluster (sv S))) fout"
    "ms = map (store (sv S)) (in_work (ttx S) @ fout @ held_fr (tfr S))" by (auto simp: waiting_def)
  have "map (store (sv S')) (in_work (ttx S') @ fout @ held_fr (tfr S')) = ms"
    unfolding f(2) assms(4,5) using waiting_pool(1) [OF assms(2) f(1)] assms(6) by (intro map_cong refl) auto
  then show ?thesis using f(1) assms(3) unfolding waiting_def by metis
qed

lemma phase_ok_kept:
  assumes "phase_ok swept S P" "ttx S' = ttx S" "rudp (sv S') = rudp (sv S)"
    and "tx_pc (ttx S) \<in> {TxStore, TxSend} \<Longrightarrow> store (sv S') (tx_dataPayLoad (ttx S)) = store (sv S) (tx_dataPayLoad (ttx S))"
  shows "phase_ok swept S' P"
  using assms by (auto simp: phase_ok_def Let_def)

lemma transmit_buffer:
  assumes "sys_inv A B S" "tx_pc (ttx S) \<in> {TxLookup, TxStore, TxSend}" shows "tx_dataPayLoad (ttx S) \<in> set B"
proof -
  from assms(1) obtain ins outs fin fout hs lost where "queues (sv S) ins outs fin fout hs" by (auto simp: sys_inv_iff)
  then have "fifo_repr 8192 (fusionThrOutFifo (cluster (sv S))) fout" by (simp add: queues_def)
  from waiting_pool(1) [OF assms(1) this] assms(2) show ?thesis by (auto simp: in_work_def)
qed

lemma tracks_kept:
  assumes "tracks swept S P ms" "sys_inv A B S" "fusionThrOutFifo (cluster (sv S')) = fusionThrOutFifo (cluster (sv S))"
    and "ttx S' = ttx S" "held_fr (tfr S') = held_fr (tfr S)" "rudp (sv S') = rudp (sv S)"
    and "\<And>p. p \<in> set B \<Longrightarrow> store (sv S') p = store (sv S) p"
  shows "tracks swept S' P ms"
proof -
  have "waiting S' ms" by (rule waiting_kept [OF _ assms(2,3)]) (use assms in \<open>auto simp: tracks_def\<close>)
  moreover have "phase_ok swept S' P"
  proof (rule phase_ok_kept)
    show "phase_ok swept S P" "ttx S' = ttx S" "rudp (sv S') = rudp (sv S)" using assms by (simp_all add: tracks_def)
    assume "tx_pc (ttx S) \<in> {TxStore, TxSend}"
    then show "store (sv S') (tx_dataPayLoad (ttx S)) = store (sv S) (tx_dataPayLoad (ttx S))"
      using transmit_buffer [OF assms(2)] assms(7) by auto
  qed
  ultimately show ?thesis by (simp add: tracks_def)
qed

text \<open>\<open>fusion_receive_routine\<close> adds the message it has copied, unless that is dropped.\<close>

lemma receive_put:
  assumes inv: "sys_inv A B S" and t: "tracks swept S P ms" and pc: "fr_pc (tfr S) = FrPut" and st: "fusion_rx_put (tfr S) (sv S) = Some (w, s)"
  shows "tracks swept (S\<lparr>tfr := w, sv := s\<rparr>) P ms"
proof -
  let ?p = "fr_rxMsgBufPtr (tfr S)" and ?S = "S\<lparr>tfr := w, sv := s\<rparr>"
  from t pc obtain fout where f: "fifo_repr 8192 (fusionThrOutFifo (cluster (sv S))) fout"
    "ms = map (store (sv S)) (in_work (ttx S) @ fout @ [?p])" by (auto simp: tracks_def waiting_def)
  from inv obtain ins outs fin fout1 hs lost where i: "pools A B" "queues (sv S) ins outs fin fout1 hs"
    "owned A B S ins outs fin fout1 hs lost" by (auto simp: sys_inv_iff)
  have "fout1 = fout" using i(2) f(1) by (auto simp: queues_def dest: fifo_repr_unique)
  then have "length fout < 8192" using owned_B(3) [OF i(1,3)] pc by simp
  from Fifo_put_repr [OF f(1) this, of ?p] obtain g where
    g: "Fifo_put (fusionThrOutFifo (cluster (sv S))) ?p = Some (g, 0)" "fifo_repr 8192 g (fout @ [?p])" by blast
  have ws: "w = (tfr S)\<lparr>fr_pc := FrRecv\<rparr>" "s = (sv S)\<lparr>cluster := (cluster (sv S))\<lparr>fusionThrOutFifo := g\<rparr>\<rparr>"
    using st g(1) by (simp_all add: fusion_rx_put_def)
  have "waiting ?S ms" using f(2) g(2) unfolding waiting_def by (intro exI [of _ "fout @ [?p]"]) (simp add: ws)
  moreover have "phase_ok swept ?S P" by (rule phase_ok_kept [of swept S]) (use t in \<open>simp_all add: tracks_def ws\<close>)
  ultimately show ?thesis by (simp add: tracks_def)
qed

lemma receive_get:
  assumes inv: "sys_inv A B S" and t: "tracks swept S P ms" and pc: "fr_pc (tfr S) = FrGet"
    and get: "fusion_rx_get (tfr S) (sv S) = Some (Inr (w, s))"
  shows "\<exists>new. tracks swept (S\<lparr>tfr := w, sv := s\<rparr>) P (ms @ new) \<and> (\<forall>ds. to_come (tfr S) ds = new @ to_come w ds)"
proof -
  let ?c = "pkt_drop_count (tfr S)" and ?S = "S\<lparr>tfr := w, sv := s\<rparr>"
  let ?m = "(rxMsgPayload (tfr S))\<lparr>m_msgLen := of_int (int (fr_res (tfr S)) - int sizeof_Msg_Header)\<rparr>"
  let ?new = "if unat ?c mod 13 \<noteq> 0 then [?m] else []"
  from inv obtain ins outs fin fout hs lost where i: "pools A B" "queues (sv S) ins outs fin fout hs"
    "owned A B S ins outs fin fout hs lost" by (auto simp: sys_inv_iff)
  have q: "fifo_repr 8192 (fusionThrInFifo (cluster (sv S))) fin" "fifo_repr 8192 (fusionThrOutFifo (cluster (sv S))) fout"
    using i(2) by (simp_all add: queues_def)
  from get obtain f r p where g: "Fifo_get (fusionThrInFifo (cluster (sv S))) (fr_rxMsgBufPtr (tfr S)) = Some (f, r, p)"
    by (auto simp: fusion_rx_get_def split: option.splits)
  from Fifo_get_SomeD [OF q(1) g] waiting_pool(2) [OF inv q(2,1)]
  have np: "p \<notin> set (in_work (ttx S) @ fout @ held_fr (tfr S))" by auto
  have ws: "w = (tfr S)\<lparr>rxMsgPayload := ?m, fr_rxMsgBufPtr := p, pkt_drop_count := ?c + 1,
      fr_pc := if sint ?c mod 13 \<noteq> 0 then FrPut else FrRecv\<rparr>"
    "s = store_upd p (\<lambda>_. ?m) ((sv S)\<lparr>cluster := (cluster (sv S))\<lparr>fusionThrInFifo := f\<rparr>\<rparr>)"
    using get g by (auto simp: fusion_rx_get_def Let_def split: if_splits)
  have "(unat ?c + 12) div 13 \<le> 8192" using owned_B(3) [OF i(1,3)] i(3) by (simp add: owned_def)
  note cnt = drop_count_step [OF this]
  have ms: "ms = map (store (sv S)) (in_work (ttx S) @ fout)"
    using t pc q(2) by (auto simp: tracks_def waiting_def dest: fifo_repr_unique)
  have "fifo_repr 8192 (fusionThrOutFifo (cluster (sv ?S))) fout" using q(2) by (simp add: ws(2) store_upd_def)
  moreover have "ms @ ?new = map (store (sv ?S)) (in_work (ttx ?S) @ fout @ held_fr (tfr ?S))"
    using np cnt(2) by (auto simp: ms ws store_upd_def)
  ultimately have "waiting ?S (ms @ ?new)" unfolding waiting_def by blast
  moreover have "phase_ok swept ?S P"
    by (rule phase_ok_kept [of swept S]) (use t np in \<open>auto simp: tracks_def ws(2) store_upd_def in_work_def\<close>)
  moreover have "to_come (tfr S) ds = ?new @ to_come w ds" for ds
    using pc cnt(1) by (simp add: to_come_def Let_def ws(1))
  ultimately show ?thesis unfolding tracks_def by blast
qed

lemma receive_step:
  assumes "thread_step (Thread FusionReceive) S out S'" "sys_inv A B S" "tracks swept S P ms"
  shows "\<exists>new. tracks swept S' P (ms @ new) \<and> to_device out = []
    \<and> (if fr_pc (tfr S) = FrGet then \<forall>ds. to_come (tfr S) ds = new @ to_come (tfr S') ds else new = [])"
  using assms(1)
proof (cases rule: thread_step.cases)
  case (fr_get w s)
  from receive_get [OF assms(2,3) fr_get(3,4)] fr_get(1-3) show ?thesis by auto
next
  case (fr_put w s)
  from receive_put [OF assms(2,3) fr_put(3,4)] fr_put(1-3) show ?thesis by (intro exI [of _ "[]"]) simp
next
  case (fr_recv bs w s)
  have st: "store (sv S') p = store (sv S) p" if "p \<in> set B" for p
    by (rule store_kept [OF assms(1,2) that]) (use fr_recv(3) in simp)
  have "cluster s = cluster (sv S) \<and> rudp s = rudp (sv S) \<and> fr_pc w \<noteq> FrPut"
    using fr_recv(3,4) by (auto simp: fusion_rx_recv_def hist_find_frag_def hist_linger_def store_upd_def Let_def split: option.splits if_splits)
  then have "tracks swept S' P ms" by (intro tracks_kept [OF assms(3,2)] st) (use fr_recv in simp_all)
  then show ?thesis using fr_recv(1,3) by (intro exI [of _ "[]"]) simp
next
  case (fr_reply w s)
  have st: "store (sv S') p = store (sv S) p" if "p \<in> set B" for p
    by (rule store_kept [OF assms(1,2) that]) (use fr_reply(2) in simp)
  have "cluster s = cluster (sv S) \<and> rudp s = rudp (sv S) \<and> fr_pc w \<noteq> FrPut \<and> to_device out = []"
    using fr_reply(3) by (auto simp: fusion_rx_reply_def send_reply_def store_upd_def Let_def split: sum.splits if_splits)
  then have "tracks swept S' P ms \<and> to_device out = []"
    by (auto intro!: tracks_kept [OF assms(3,2)] st) (use fr_reply in simp_all)
  then show ?thesis using fr_reply(2) by (intro exI [of _ "[]"]) simp
qed

text \<open>The rest touch the table only by a sweep, which forgets what has timed out.\<close>

lemma sweep_phase:
  assumes "phase_ok swept S P" "ttx S' = ttx S" "rudp (sv S') = r_udp_req_sweep t (rudp (sv S))"
    and "tx_pc (ttx S) \<in> {TxStore, TxSend} \<Longrightarrow> store (sv S') (tx_dataPayLoad (ttx S)) = store (sv S) (tx_dataPayLoad (ttx S))"
  shows "\<exists>D swept'. phase_ok swept' S' (forget D P)
    \<and> (\<not> swept \<and> frees_none (rudp (sv S)) (rudp (sv S')) \<longrightarrow> \<not> swept' \<and> forget D P = P)"
proof -
  let ?st = "rudp (sv S)" and ?m = "store (sv S) (tx_dataPayLoad (ttx S))"
  let ?D = "expired t ?st - {msg_seq ?m}"
  have 4: "msg_seq ?m < 4" if "fragment_ok P ?m" using that by (simp add: fragment_ok_def)
  consider "tx_pc (ttx S) = TxStore" | "tx_pc (ttx S) = TxSend" | "tx_pc (ttx S) \<notin> {TxStore, TxSend}" by auto
  then show ?thesis
  proof cases
    case 1
    then have i: "fragment_ok P ?m" "tx_handle (ttx S) = (0, msg_seq ?m)" "looked_up swept ?st P ?m"
      using assms(1) by (simp_all add: phase_ok_def Let_def)
    let ?sw = "swept \<or> msg_seq ?m \<in> expired t ?st"
    have "phase_ok ?sw S' (forget ?D P)"
      using sweep_looked_up [OF i(3) 4 [OF i(1)], of t] i(1,2) 1 assms(2-4) by (simp add: phase_ok_def fragment_ok_forget)
    moreover have "\<not> ?sw \<and> forget ?D P = P" if "\<not> swept" "frees_none ?st (rudp (sv S'))"
    proof -
      have o: "others_rel ?st P (msg_seq ?m)" and u: "f_used (slot_of ?st ?m)" using i(3) that(1) by (simp_all add: looked_up_def)
      then have wf: "wf_table (fragmentsTable ?st)" by (simp add: others_rel_def)
      note fn = that(2) [unfolded assms(3)]
      show ?thesis using forget_none [OF fn o] frees_none_expired [OF fn wf] u that(1) by blast
    qed
    ultimately show ?thesis by blast
  next
    case 2
    then have i: "fragment_ok P ?m" "tx_msgHandle (ttx S) = Some (0, msg_seq ?m)" "completed ?st P ?m" "\<not> swept"
      using assms(1) by (simp_all add: phase_ok_def Let_def)
    have "phase_ok False S' (forget ?D P)"
      using sweep_completed [OF i(3) 4 [OF i(1)], of t] i(1,2) 2 assms(2-4) by (simp add: phase_ok_def fragment_ok_forget)
    moreover have "forget ?D P = P" if "frees_none ?st (rudp (sv S'))"
      using forget_none [OF that [unfolded assms(3)], of P "msg_seq ?m"] i(3) by (simp add: completed_def)
    ultimately show ?thesis by blast
  next
    case 3
    then have i: "rudp_rel ?st P" "\<not> swept" using assms(1) by (simp_all add: phase_ok_def Let_def)
    have "phase_ok False S' (forget (expired t ?st) P)"
      using sweep_idle [OF i(1), of t] 3 assms(2,3) by (simp add: phase_ok_def)
    then show ?thesis using forget_none_idle [OF _ i(1), of t] assms(3) by auto
  qed
qed

lemma phase_fusionSock: "phase_ok swept S P \<Longrightarrow> fusionSock (rudp (sv S))"
  by (auto simp: phase_ok_def Let_def looked_up_def completed_def others_rel_def rudp_rel_def split: if_splits)

lemma bystander_step:
  assumes "thread_step a S out S'" "a \<noteq> Thread FusionReceive" "a \<noteq> Thread IotTransmit" "sys_inv A B S" "tracks swept S P ms"
  shows "\<exists>D swept'. tracks swept' S' (forget D P) ms \<and> to_device out = [] \<and> ttx S' = ttx S \<and> tfr S' = tfr S
    \<and> (\<not> swept \<and> frees_none (rudp (sv S)) (rudp (sv S')) \<longrightarrow> \<not> swept' \<and> forget D P = P)"
proof -
  note f = bystander_frame [OF assms(1-3)]
  have st: "store (sv S') p = store (sv S) p" if "p \<in> set B" for p
    by (rule store_kept [OF assms(1,4) that]) (use assms(2) in simp)
  have w: "waiting S' ms" by (rule waiting_kept [OF _ assms(4) _ _ _ st]) (use assms(5) f in \<open>auto simp: tracks_def\<close>)
  have ph: "phase_ok swept S P" using assms(5) by (simp add: tracks_def)
  have b: "store (sv S') (tx_dataPayLoad (ttx S)) = store (sv S) (tx_dataPayLoad (ttx S))" if "tx_pc (ttx S) \<in> {TxStore, TxSend}"
    using transmit_buffer [OF assms(4)] st that by auto
  have "\<exists>D swept'. phase_ok swept' S' (forget D P)
    \<and> (\<not> swept \<and> frees_none (rudp (sv S)) (rudp (sv S')) \<longrightarrow> \<not> swept' \<and> forget D P = P)"
  proof (cases "\<exists>t. rudp (sv S') = r_udp_req_sweep t (rudp (sv S))")
    case True
    then obtain t where "rudp (sv S') = r_udp_req_sweep t (rudp (sv S))" by blast
    from sweep_phase [OF ph _ this b] f show ?thesis by simp
  next
    case False
    then have "rudp (sv S') = rudp (sv S)" using f phase_fusionSock [OF ph] by auto
    from phase_ok_kept [OF ph _ this b] f show ?thesis by (intro exI [of _ "{}"] exI [of _ swept]) simp
  qed
  with w f show ?thesis by (auto simp: tracks_def)
qed

section \<open>Events and runs\<close>

lemma to_come_recv:
  assumes "fr_pc t = FrRecv" "fusion_rx_recv (Some bs) t s = Some (w, s')"
  shows "to_come t (bs # ds) = to_come w ds"
  using assms by (auto simp: to_come_def fusion_rx_recv_def received_def Let_def split: option.splits if_splits)

lemma event_step:
  assumes "sys_event S d out S'" "sys_inv A B S" "tracks swept S P ms" "next_fits S P ms"
  shows "\<exists>done ms' P' swept'. (\<forall>ds. ms @ to_come (tfr S) ((case d of None \<Rightarrow> [] | Some bs \<Rightarrow> [bs]) @ ds) = done @ ms' @ to_come (tfr S') ds)
    \<and> lossy done P (to_device out) P' \<and> tracks swept' S' P' ms'
    \<and> (\<not> swept \<and> sparing S S' \<longrightarrow> \<not> swept' \<and> exactly done P (to_device out) P')"
proof -
  obtain a where a: "thread_step a S out S'" using sys_event_step [OF assms(1)] by (auto simp: sys_step_iff)
  show ?thesis using assms(1)
  proof (cases rule: sys_event.cases)
    case (takes bs w s)
    have st: "thread_step (Thread FusionReceive) S [] S'" using thread_step.fr_recv [OF takes(4,5)] takes(3) by simp
    from receive_step [OF st assms(2,3)] takes(4) have "tracks swept S' P ms" by auto
    then show ?thesis using takes to_come_recv [OF takes(4,5)]
      by (intro exI [of _ "[]"] exI [of _ ms] exI [of _ P] exI [of _ swept]) (simp add: lossy.stop)
  next
    case quiet
    consider "a = Thread FusionReceive" | "a = Thread IotTransmit" | "a \<noteq> Thread FusionReceive" "a \<noteq> Thread IotTransmit" by blast
    then show ?thesis
    proof cases
      case 1
      from receive_step [OF a [unfolded 1] assms(2,3)] obtain new where n: "tracks swept S' P (ms @ new)" "to_device out = []"
        "if fr_pc (tfr S) = FrGet then \<forall>ds. to_come (tfr S) ds = new @ to_come (tfr S') ds else new = []" by blast
      have "to_come (tfr S) ds = new @ to_come (tfr S') ds" for ds
      proof (cases "fr_pc (tfr S) = FrGet")
        case False
        have "tfr S' = tfr S \<or> tfr S' = (tfr S)\<lparr>fr_pc := FrRecv\<rparr>" using a [unfolded 1] quiet(3) False
          by (cases rule: thread_step.cases) (auto simp: fusion_rx_reply_def fusion_rx_put_def split: sum.splits option.splits)
        with False n(3) show ?thesis by (auto simp: to_come_def Let_def)
      qed (use n(3) in simp)
      then show ?thesis using n(1,2) quiet(1)
        by (intro exI [of _ "[]"] exI [of _ "ms @ new"] exI [of _ P] exI [of _ swept]) (simp add: lossy.stop)
    next
      case 2
      have "tfr S' = tfr S" using a [unfolded 2] by (cases rule: thread_step.cases) simp_all
      with transmit_step [OF a [unfolded 2] assms(3,4)] quiet(1) show ?thesis by (auto simp: follows_def)
    next
      case 3
      from bystander_step [OF a 3 assms(2,3)] obtain D swept' where b: "tracks swept' S' (forget D P) ms" "to_device out = []"
        "ttx S' = ttx S" "tfr S' = tfr S" "\<not> swept \<and> frees_none (rudp (sv S)) (rudp (sv S')) \<longrightarrow> \<not> swept' \<and> forget D P = P" by blast
      then show ?thesis using quiet(1)
        by (intro exI [of _ "[]"] exI [of _ ms] exI [of _ "forget D P"] exI [of _ swept']) (auto simp: lossy_forget sparing_def)
    qed
  qed
qed

lemma tracks_next:
  assumes "tracks swept S P ms" "tx_pc (ttx S) = TxLookup" obtains m ns where "ms = m # ns"
  using assms by (auto simp: tracks_def waiting_def in_work_def)

lemma run_lossy:
  assumes "sys_run S ds outs S'" "sys_inv A B S" "tracks swept S P ms" "fits (ms @ to_come (tfr S) ds) P"
  shows "\<exists>done ms' P' swept'. ms @ to_come (tfr S) ds = done @ ms' @ to_come (tfr S') []
    \<and> lossy done P (to_device outs) P' \<and> tracks swept' S' P' ms' \<and> fits (ms' @ to_come (tfr S') []) P'"
  using assms
proof (induction arbitrary: P ms swept rule: sys_run.induct)
  case (stop S)
  then show ?case by (intro exI [of _ "[]"] exI [of _ ms] exI [of _ P] exI [of _ swept]) (simp add: lossy.stop)
next
  case (event S d out S1 ds outs S2)
  have "next_fits S P ms" using tracks_next [OF event.prems(2)] fits_fragment event.prems(3) by (metis append_Cons list.sel(1))
  from event_step [OF event.hyps(1) event.prems(1,2) this] obtain don ms1 P1 swept1 where e:
    "\<And>ds. ms @ to_come (tfr S) ((case d of None \<Rightarrow> [] | Some bs \<Rightarrow> [bs]) @ ds) = don @ ms1 @ to_come (tfr S1) ds"
    "lossy don P (to_device out) P1" "tracks swept1 S1 P1 ms1" by blast
  have inv: "sys_inv A B S1" using sys_step_inv [OF sys_event_step [OF event.hyps(1)] event.prems(1)] .
  have "fits (ms1 @ to_come (tfr S1) ds) P1" using fits_lossy [OF e(2)] event.prems(3) unfolding e(1) .
  from event.IH [OF inv e(3) this] obtain don2 ms2 P2 swept2 where f: "ms1 @ to_come (tfr S1) ds = don2 @ ms2 @ to_come (tfr S2) []"
    "lossy don2 P1 (to_device outs) P2" "tracks swept2 S2 P2 ms2" "fits (ms2 @ to_come (tfr S2) []) P2" by blast
  then show ?case using e(1) [of ds] lossy_append [OF e(2) f(2)]
    by (intro exI [of _ "don @ don2"] exI [of _ ms2] exI [of _ P2] exI [of _ swept2]) simp
qed

lemma stream_ok_append: "stream_ok (ms @ ns) P \<longleftrightarrow> stream_ok ms P \<and> stream_ok ns (fst (reasm_all ms P))"
  by (induction ms arbitrary: P) (auto simp: split_beta Let_def)

lemma run_exact:
  assumes "spared_run S ds outs S'" "sys_inv A B S" "tracks False S P ms" "stream_ok (ms @ to_come (tfr S) ds) P"
  shows "\<exists>done ms' P'. ms @ to_come (tfr S) ds = done @ ms' @ to_come (tfr S') []
    \<and> exactly done P (to_device outs) P' \<and> tracks False S' P' ms' \<and> stream_ok (ms' @ to_come (tfr S') []) P' \<and> sys_inv A B S'"
  using assms
proof (induction arbitrary: P ms rule: spared_run.induct)
  case (stop S)
  then show ?case by (intro exI [of _ "[]"] exI [of _ ms] exI [of _ P]) simp
next
  case (event S d out S1 ds outs S2)
  have "next_fits S P ms" using tracks_next [OF event.prems(2)] event.prems(3) by fastforce
  from event_step [OF event.hyps(1) event.prems(1,2) this] obtain don ms1 P1 swept1 where e1:
    "\<And>ds. ms @ to_come (tfr S) ((case d of None \<Rightarrow> [] | Some bs \<Rightarrow> [bs]) @ ds) = don @ ms1 @ to_come (tfr S1) ds"
    "tracks swept1 S1 P1 ms1" "\<not> False \<and> sparing S S1 \<longrightarrow> \<not> swept1 \<and> exactly don P (to_device out) P1" by blast
  have e: "exactly don P (to_device out) P1" "tracks False S1 P1 ms1" using e1(2,3) event.hyps(2) by simp_all
  have inv: "sys_inv A B S1" using sys_step_inv [OF sys_event_step [OF event.hyps(1)] event.prems(1)] .
  have "stream_ok (ms1 @ to_come (tfr S1) ds) P1" using event.prems(3) e(1) unfolding e1(1) stream_ok_append [of don] by (simp add: exactly_def)
  from event.IH [OF inv e(2) this] obtain don2 ms2 P2 where f: "ms1 @ to_come (tfr S1) ds = don2 @ ms2 @ to_come (tfr S2) []"
    "exactly don2 P1 (to_device outs) P2" "tracks False S2 P2 ms2" "stream_ok (ms2 @ to_come (tfr S2) []) P2" "sys_inv A B S2" by blast
  then show ?case using e1(1) [of ds] exactly_append [OF e(1) f(2)]
    by (intro exI [of _ "don @ don2"] exI [of _ ms2] exI [of _ P2]) simp
qed

text \<open>\<open>iot_transmit_routine\<close> is about to run into undefined behaviour.\<close>

definition transmit_fault :: "system \<Rightarrow> bool" where
  "transmit_fault S \<longleftrightarrow> (tx_pc (ttx S) = TxGet \<and> (\<exists>e. iot_tx_get (ttx S) (sv S) = Some (Inl e)))
     \<or> (tx_pc (ttx S) = TxLookup \<and> (\<exists>env e. iot_tx_lookup env (ttx S) (sv S) = Inl e))
     \<or> (tx_pc (ttx S) = TxStore \<and> (\<exists>env e. iot_tx_store env (ttx S) (sv S) = Inl e))
     \<or> (tx_pc (ttx S) = TxSend \<and> (\<exists>e. iot_tx_send (ttx S) (sv S) = Inl e))"

lemma tracks_no_fault:
  assumes "sys_inv A B S" "tracks swept S P ms" "next_fits S P ms"
  shows "\<not> transmit_fault S"
proof -
  let ?m = "store (sv S) (tx_dataPayLoad (ttx S))"
  have w: "waiting S ms" and ph: "phase_ok swept S P" using assms(2) by (simp_all add: tracks_def)
  have "iot_tx_get (ttx S) (sv S) \<noteq> Some (Inl e)" for e
  proof
    assume g: "iot_tx_get (ttx S) (sv S) = Some (Inl e)"
    then obtain f r where n: "Fifo_get (fusionThrOutFifo (cluster (sv S))) (tx_dataPayLoad (ttx S)) = Some (f, r, NULL)"
      by (auto simp: iot_tx_get_def split: option.splits if_splits)
    from w obtain fout where f: "fifo_repr 8192 (fusionThrOutFifo (cluster (sv S))) fout" by (auto simp: waiting_def)
    from Fifo_get_SomeD [OF f n] waiting_pool(1,4) [OF assms(1) f] show False by auto
  qed
  moreover have "iot_tx_lookup env (ttx S) (sv S) \<noteq> Inl e" if l: "tx_pc (ttx S) = TxLookup" for env e
  proof -
    obtain ns where "ms = ?m # ns" by (rule transmit_message [OF w]) (use l in simp)
    then have ok: "fragment_ok P ?m" using assms(3) l by simp
    have "rudp_rel (rudp (sv S)) P" using ph l by (simp add: phase_ok_def Let_def)
    from lookup_phase [OF this ok, of env] show ?thesis by (auto simp: iot_tx_lookup_def Let_def)
  qed
  moreover have "iot_tx_store env (ttx S) (sv S) \<noteq> Inl e" if "tx_pc (ttx S) = TxStore" for env e
  proof -
    have i: "fragment_ok P ?m" "tx_handle (ttx S) = (0, msg_seq ?m)" "looked_up swept (rudp (sv S)) P ?m"
      using ph that by (simp_all add: phase_ok_def Let_def)
    from store_phase [OF i(3,1), of env] i(2) show ?thesis by (auto simp: iot_tx_store_def Let_def split: if_splits prod.splits)
  qed
  moreover have "iot_tx_send (ttx S) (sv S) \<noteq> Inl e" if "tx_pc (ttx S) = TxSend" for e
  proof -
    have i: "fragment_ok P ?m" "tx_msgHandle (ttx S) = Some (0, msg_seq ?m)" "completed (rudp (sv S)) P ?m"
      using ph that by (simp_all add: phase_ok_def Let_def)
    from send_phase [OF i(3,1)] i(2) show ?thesis by (auto simp: iot_tx_send_def udp_send_def Let_def split: prod.splits)
  qed
  ultimately show ?thesis unfolding transmit_fault_def by blast
qed

section \<open>What the device gets\<close>

lemma tracks_idle:
  assumes "queues (sv S) ins outs fin [] hs" "tx_pc (ttx S) = TxGet" "fr_pc (tfr S) = FrRecv" "rudp_rel (rudp (sv S)) P"
  shows "tracks False S P []" "to_come (tfr S) ds = arrivals (rxMsgPayload (tfr S)) (unat (pkt_drop_count (tfr S))) ds"
  using assms by (auto simp: tracks_def waiting_def phase_ok_def in_work_def queues_def to_come_def)

lemma idle_tracks:
  assumes "tracks swept S P ms" "queues (sv S) ins outs fin [] hs" "tx_pc (ttx S) = TxGet" "fr_pc (tfr S) = FrRecv"
  shows "ms @ to_come (tfr S) [] = []"
  using assms by (auto simp: tracks_def waiting_def in_work_def queues_def to_come_def dest: fifo_repr_unique)

subsection \<open>An instance\<close>

lemma arrivals_wire:
  assumes "wf_Msg_Buf m" "unat (m_msgLen m) \<le> 60" "wf_Msg_Buf pl" "h_msgCode (msgHeader m) \<noteq> MSG_CODE_REQUEST_FRAG"
  shows "arrivals pl c (wire m # ds) = (if c mod 13 \<noteq> 0 then [received pl (wire m)] else []) @ arrivals (received pl (wire m)) (Suc c) ds"
proof -
  have "3 \<le> length (wire m)" by (simp add: wire_eq [OF assms(1,2)])
  then have "wire m \<noteq> []" by auto
  moreover have "h_msgCode (msgHeader (Msg_Buf_of_bytes (mem_write (Msg_Buf_bytes pl) 0 (take sizeof_Msg_Buf (wire m))))) = h_msgCode (msgHeader m)"
    using received_wire(2) [OF assms(1-3)] by (simp add: received_def)
  ultimately show ?thesis using assms(4) by (simp add: Let_def)
qed

text \<open>A packet of one fragment with the byte 7, and what becomes of it on the stack.\<close>

definition packet_7 :: Msg_Buf where "packet_7 = sent_fragment False 1 [7] 0 zero_Msg_Buf"
definition arrived_7 :: Msg_Buf where "arrived_7 = received zero_Msg_Buf (wire packet_7)"

lemma packet_7: "wf_Msg_Buf packet_7" "unat (m_msgLen packet_7) \<le> 60" "h_msgCode (msgHeader packet_7) \<noteq> MSG_CODE_REQUEST_FRAG"
  "carries 1 [[7]] packet_7" "msg_idx packet_7 = 0"
proof -
  have c: "0 < fragment_count (length [7 :: byte])" "length [7 :: byte] \<le> 1500" "wf_Msg_Buf zero_Msg_Buf"
    by (simp_all add: fragment_count_def MAX_MSG_SIZE_def)
  have ch: "chunks [7] = [[7]]" by (simp add: chunks_def fragment_count_def MAX_MSG_SIZE_def)
  note f = sent_fragment_carries [OF c, where tx = 1 and again = False, folded packet_7_def, unfolded ch]
  show "unat (m_msgLen packet_7) \<le> 60" "carries 1 [[7]] packet_7" "msg_idx packet_7 = 0" using f by simp_all
  then show "wf_Msg_Buf packet_7" by (simp add: carries_def)
  show "h_msgCode (msgHeader packet_7) \<noteq> MSG_CODE_REQUEST_FRAG"
    by (simp add: packet_7_def sent_fragment_def fusion_header_def Let_def pkt_consts)
qed

lemma packet_7_arrives: "arrivals (rxMsgPayload (tfr system_2)) (unat (pkt_drop_count (tfr system_2))) [wire packet_7] = [arrived_7]"
  and arrived_7: "wf_Msg_Buf arrived_7" "msg_seq arrived_7 = 1" "msg_idx arrived_7 = 0" "msg_cnt arrived_7 = 1"
    "unat (m_msgLen arrived_7) = 1" "chunk_of arrived_7 = [7]"
proof -
  have z: "wf_Msg_Buf zero_Msg_Buf" by simp
  have "rxMsgPayload (tfr system_2) = zero_Msg_Buf" "unat (pkt_drop_count (tfr system_2)) = 1" by (simp_all add: system_2_def system_1_def)
  then show "arrivals (rxMsgPayload (tfr system_2)) (unat (pkt_drop_count (tfr system_2))) [wire packet_7] = [arrived_7]"
    using arrivals_wire [OF packet_7(1,2) z packet_7(3), of 1 "[]"] by (simp add: arrived_7_def)
  note w = received_wire [OF packet_7(1,2) z, folded arrived_7_def]
  show "wf_Msg_Buf arrived_7" "msg_seq arrived_7 = 1" "msg_idx arrived_7 = 0" "msg_cnt arrived_7 = 1"
    "unat (m_msgLen arrived_7) = 1" "chunk_of arrived_7 = [7]"
    using w packet_7(4,5) by (simp_all add: carries_def)
qed

lemma arrived_7_fits: "fits [arrived_7] (\<lambda>_. [])" "stream_ok [arrived_7] (\<lambda>_. [])"
  "reasm_all [arrived_7] (\<lambda>_. []) = (\<lambda>_. [], [[7]])"
  using arrived_7 by (simp_all add: forget_def fragment_ok_def reasm_slot_def reasm_step_def fun_eq_iff)

lemma packet_7_run: "\<exists>out R. spared_run system_2 [wire packet_7] out R \<and> to_device out = [[7]]"
proof -
  have u: "fr_pc (tfr system_2) = FrRecv" "tx_pc (ttx system_2) = TxGet" "unat (pkt_drop_count (tfr system_2)) = 1"
    "rudp (sv system_2) = idle_state" "rxMsgPayload (tfr system_2) = zero_Msg_Buf"
    by (simp_all add: system_1_def system_2_def service_3_def)
  have recv: "receiving system_2 [200] (length [packet_7])"
    by (rule receiving_idle [OF system_2_inv]) (simp_all add: u)
  from iot_deliver_all_rel [OF idle_rel, of "[(env_example, arrived_7)]"] arrived_7_fits(2,3) obtain st where
    d: "iot_deliver_all (map (Pair env_example) [arrived_7]) idle_state = Inr (st, [[7]])" by auto
  have "\<exists>R bs out. spared_run system_2 (map wire [packet_7]) out R \<and> to_device out = [[7]] \<and> receiving R bs 0
    \<and> length bs = length [200 :: ptr] \<and> rudp (sv R) = st"
    by (rule messages_pass_through [OF recv, where env = env_example])
      (use d packet_7 in \<open>simp_all add: u arrived_7_def\<close>)
  then show ?thesis by auto
qed

text \<open>
  C3: Start with the two receiving threads idle and a table that holds the
  packets \<open>P\<close>.  Let the threads run in any order while Fusion sends the datagrams \<open>ds\<close>; no packet
  times out, and the messages that are not dropped are fragments that fit.  Then the device gets
  exactly what the abstract reassembler delivers on a beginning of these messages, in order, and
  on all of them when the two threads are idle again; \<open>iot_transmit_routine\<close> never runs into
  undefined behaviour.
\<close>

theorem device_gets_reassembled:
  assumes "sys_inv A B S" "queues (sv S) ins outq fin [] hs" "tx_pc (ttx S) = TxGet" "fr_pc (tfr S) = FrRecv"
    and "rudp_rel (rudp (sv S)) P" "spared_run S ds outs S'"
    and "stream_ok (arrivals (rxMsgPayload (tfr S)) (unat (pkt_drop_count (tfr S))) ds) P"
  shows "\<exists>done rest. arrivals (rxMsgPayload (tfr S)) (unat (pkt_drop_count (tfr S))) ds = done @ rest
    \<and> to_device outs = snd (reasm_all done P) \<and> \<not> transmit_fault S'
    \<and> (\<forall>ins' outq' fin' hs'. queues (sv S') ins' outq' fin' [] hs' \<and> tx_pc (ttx S') = TxGet \<and> fr_pc (tfr S') = FrRecv \<longrightarrow> rest = [])"
proof -
  note t = tracks_idle [OF assms(2-5)]
  have "stream_ok ([] @ to_come (tfr S) ds) P" using assms(7) t(2) by simp
  from run_exact [OF assms(6,1) t(1) this] obtain don ms' P' where r: "to_come (tfr S) ds = don @ ms' @ to_come (tfr S') []"
    "exactly don P (to_device outs) P'" "tracks False S' P' ms'" "stream_ok (ms' @ to_come (tfr S') []) P'" "sys_inv A B S'" by auto
  have "next_fits S' P' ms'" using tracks_next [OF r(3)] r(4) by fastforce
  from tracks_no_fault [OF r(5,3) this] r(1,2) idle_tracks [OF r(3)] show ?thesis
    unfolding t(2) [symmetric] by (intro exI [of _ don] exI [of _ "ms' @ to_come (tfr S') []"]) (auto simp: exactly_def)
qed

theorem device_gets_reassembled_witness:
  "\<exists>out R done rest. spared_run system_2 [wire packet_7] out R \<and> to_device out = [[7]]
    \<and> [arrived_7] = done @ rest \<and> to_device out = snd (reasm_all done (\<lambda>_. [])) \<and> \<not> transmit_fault R"
proof -
  obtain out R where r: "spared_run system_2 [wire packet_7] out R" "to_device out = [[7]]" using packet_7_run by blast
  have u: "fr_pc (tfr system_2) = FrRecv" "tx_pc (ttx system_2) = TxGet" "rudp (sv system_2) = idle_state"
    by (simp_all add: system_1_def system_2_def service_3_def)
  have rel: "rudp_rel (rudp (sv system_2)) (\<lambda>_. [])" unfolding u(3) by (rule idle_rel)
  from device_gets_reassembled [OF system_2_inv u(2,1) rel r(1)] arrived_7_fits(2) obtain don rest where
    "[arrived_7] = don @ rest" "to_device out = snd (reasm_all don (\<lambda>_. []))" "\<not> transmit_fault R"
    unfolding packet_7_arrives by blast
  with r show ?thesis by blast
qed

text \<open>In any run at all, with sweeps at any time, every datagram for the device is one whole packet.\<close>

lemma run_no_fault:
  assumes "sys_inv A B S" "queues (sv S) ins outq fin [] hs" "tx_pc (ttx S) = TxGet" "fr_pc (tfr S) = FrRecv"
    and "rudp_rel (rudp (sv S)) P" "sys_run S ds outs S'"
    and "fits (arrivals (rxMsgPayload (tfr S)) (unat (pkt_drop_count (tfr S))) ds) P"
  shows "\<not> transmit_fault S'"
proof -
  note t = tracks_idle [OF assms(2-5)]
  have "fits ([] @ to_come (tfr S) ds) P" using assms(7) t(2) by simp
  from run_lossy [OF assms(6,1) t(1) this] obtain ms' P' swept where r: "tracks swept S' P' ms'" "fits (ms' @ to_come (tfr S') []) P'" by blast
  have "next_fits S' P' ms'" using tracks_next [OF r(1)] fits_fragment r(2) by (metis append_Cons list.sel(1))
  from tracks_no_fault [OF run_inv [OF assms(6,1)] r(1) this] show ?thesis .
qed

lemma whole_packets:
  assumes "queues (sv S) ins outq fin [] hs" "tx_pc (ttx S) = TxGet" "fr_pc (tfr S) = FrRecv" "sys_inv A B S"
    and "rudp_rel (rudp (sv S)) (\<lambda>_. [])" "sys_run S ds outs S'" "d \<in> set (to_device outs)"
    and "fits (arrivals (rxMsgPayload (tfr S)) (unat (pkt_drop_count (tfr S))) ds) (\<lambda>_. [])"
  shows "whole (set (arrivals (rxMsgPayload (tfr S)) (unat (pkt_drop_count (tfr S))) ds)) d"
proof -
  note t = tracks_idle [OF assms(1-3,5)]
  have "fits ([] @ to_come (tfr S) ds) (\<lambda>_. [])" using assms(8) t(2) by simp
  from run_lossy [OF assms(6,4) t(1) this] obtain don rest P' where r: "to_come (tfr S) ds = don @ rest"
    "lossy don (\<lambda>_. []) (to_device outs) P'" by auto
  have "made_of (set (to_come (tfr S) ds)) (\<lambda>_. [])" by (simp add: made_of_def)
  from lossy_whole [OF r(2) this] assms(7) show ?thesis unfolding t(2) [symmetric] r(1) by auto
qed

end
