(* ===== verification/Intact.thy ===== *)
theory Intact
  imports Delivery
begin

text \<open>
  Between the devices of two services: whatever order the fragments of some datagrams arrive in,
  whichever of them are lost, and whenever the sweep comes, the device gets datagrams that were
  sent, unchanged.
\<close>

section \<open>Fragments of known datagrams\<close>

abbreviation key :: "Msg_Buf \<Rightarrow> nat \<times> nat" where
  "key m \<equiv> (msg_seq m, msg_idx m)"

text \<open>\<open>m\<close> is a fragment of the datagram that \<open>data\<close> gives for its sequence number.\<close>

definition part_of :: "(nat \<Rightarrow> byte list) \<Rightarrow> Msg_Buf \<Rightarrow> bool" where
  "part_of data m \<longleftrightarrow> msg_seq m < 4 \<and> carries (msg_seq m) (chunks (data (msg_seq m))) m"

text \<open>The reassembler holds fragments of these datagrams, all among those with keys in \<open>U\<close>.\<close>

definition holds_parts :: "(nat \<Rightarrow> byte list) \<Rightarrow> (nat \<times> nat) set \<Rightarrow> reasm \<Rightarrow> bool" where
  "holds_parts data U A \<longleftrightarrow> (\<forall>s. A s = [] \<or> length (A s) = length (chunks (data s))
     \<and> (\<forall>i<length (A s). \<forall>c. A s ! i = Some c \<longrightarrow> (s, i) \<in> U \<and> c = chunks (data s) ! i))"

lemma holds_parts_mono: "holds_parts data U A \<Longrightarrow> U \<subseteq> V \<Longrightarrow> holds_parts data V A"
  unfolding holds_parts_def by blast

lemma holds_parts_forget: "holds_parts data U A \<Longrightarrow> holds_parts data U (forget D A)"
  by (simp add: holds_parts_def forget_def)

lemma holds_parts_clear: "holds_parts data U A \<Longrightarrow> holds_parts data U (A(s := []))"
  by (simp add: holds_parts_def)

lemma part_slot:
  assumes "holds_parts data U A" "part_of data m" "key m \<notin> U"
  shows "length (reasm_slot A m) = msg_cnt m" "reasm_slot A m ! msg_idx m = None"
    "i < msg_cnt m \<Longrightarrow> reasm_slot A m ! i = Some c \<Longrightarrow> (msg_seq m, i) \<in> U \<and> c = chunks (data (msg_seq m)) ! i"
proof -
  have m: "msg_cnt m = length (chunks (data (msg_seq m)))" "msg_idx m < msg_cnt m" using assms(2) by (simp_all add: part_of_def carries_def)
  have A: "A (msg_seq m) = [] \<or> length (A (msg_seq m)) = length (chunks (data (msg_seq m)))
     \<and> (\<forall>i<length (A (msg_seq m)). \<forall>c. A (msg_seq m) ! i = Some c \<longrightarrow> (msg_seq m, i) \<in> U \<and> c = chunks (data (msg_seq m)) ! i)"
    using assms(1) unfolding holds_parts_def by blast
  show len: "length (reasm_slot A m) = msg_cnt m" using A m(1) by (auto simp: reasm_slot_def)
  show P: "(msg_seq m, i) \<in> U \<and> c = chunks (data (msg_seq m)) ! i" if "i < msg_cnt m" "reasm_slot A m ! i = Some c" for i c
    using that A m(1) by (auto simp: reasm_slot_def split: if_splits)
  show "reasm_slot A m ! msg_idx m = None" using P [OF m(2)] assms(3) by (cases "reasm_slot A m ! msg_idx m") auto
qed

lemma part_fits:
  assumes "holds_parts data U A" "part_of data m" "key m \<notin> U" "\<forall>s. data s \<noteq> [] \<and> length (data s) \<le> 1500"
  shows "fragment_ok A m" "holds_parts data (insert (key m) U) (fst (reasm_step A m))"
proof -
  let ?cs = "chunks (data (msg_seq m))"
  have p: "packet_ok ?cs" using assms(4) by (simp add: packet_ok_chunks)
  have m: "wf_Msg_Buf m" "msg_cnt m = length ?cs" "msg_idx m < length ?cs" "chunk_of m = ?cs ! msg_idx m" "unat (m_msgLen m) = length (?cs ! msg_idx m)"
    "msg_seq m < 4"
    using assms(2) by (simp_all add: part_of_def carries_def)
  note s = part_slot [OF assms(1-3)]
  show "fragment_ok A m" using p m s(1,2) by (simp add: fragment_ok_def packet_ok_def)
  have "holds_parts data (insert (key m) U) (A(msg_seq m := stored A m))"
    using assms(1) s m unfolding holds_parts_def by (auto simp: nth_list_update split: if_splits)
  then show "holds_parts data (insert (key m) U) (fst (reasm_step A m))"
    using holds_parts_clear [OF holds_parts_mono [OF assms(1), of "insert (key m) U"], of "msg_seq m"] by (auto simp: reasm_step_def Let_def)
qed

lemma parts_fit:
  assumes "\<forall>s. data s \<noteq> [] \<and> length (data s) \<le> 1500"
  shows "holds_parts data U A \<Longrightarrow> \<forall>m \<in> set ms. part_of data m \<Longrightarrow> distinct (map key ms) \<Longrightarrow> U \<inter> key ` set ms = {} \<Longrightarrow> fits ms A"
proof (induction ms arbitrary: U A)
  case (Cons m ms)
  have k: "key m \<notin> U" "part_of data m" using Cons.prems by auto
  have n: "insert (key m) U \<inter> key ` set ms = {}" using Cons.prems(3,4) by auto
  show ?case
  proof (simp only: fits.simps, intro allI conjI)
    fix D
    note f = holds_parts_forget [OF Cons.prems(1), of D]
    show "fragment_ok (forget D A) m" by (rule part_fits(1) [OF f k(2,1) assms])
    show "fits ms (fst (reasm_step (forget D A) m))"
      using Cons.IH [OF part_fits(2) [OF f k(2,1) assms] _ _ n] Cons.prems(2,3) by simp
    show "fits ms ((forget D A)(msg_seq m := []))"
      by (rule Cons.IH [OF holds_parts_mono [OF holds_parts_clear [OF f] subset_insertI] _ _ n]) (use Cons.prems(2,3) in simp_all)
  qed
qed simp

text \<open>A fragment that completes its packet gives the datagram, and it was the last one missing.\<close>

lemma part_completes:
  assumes "holds_parts data U A" "part_of data m" "key m \<notin> U" "snd (reasm_step A m) = Some d"
  shows "d = data (msg_seq m)" "i < msg_cnt m \<Longrightarrow> (msg_seq m, i) \<in> insert (key m) U"
proof -
  let ?cs = "chunks (data (msg_seq m))"
  have m: "msg_cnt m = length ?cs" "msg_idx m < length ?cs" "chunk_of m = ?cs ! msg_idx m" using assms(2) by (simp_all add: part_of_def carries_def)
  note s = part_slot [OF assms(1-3)]
  have full: "None \<notin> set (stored A m)" "d = concat (map the (stored A m))"
    using assms(4) by (auto simp: reasm_step_def Let_def split: if_splits)
  have at: "stored A m ! i = Some (?cs ! i) \<and> (msg_seq m, i) \<in> insert (key m) U" if i: "i < msg_cnt m" for i
  proof (cases "i = msg_idx m")
    case True
    then show ?thesis using m s(1) by simp
  next
    case False
    have "stored A m ! i \<noteq> None" using full(1) i s(1) by (metis length_list_update nth_mem)
    with False obtain c where "reasm_slot A m ! i = Some c" by auto
    with s(3) [OF i this] False show ?thesis by simp
  qed
  then show "i < msg_cnt m \<Longrightarrow> (msg_seq m, i) \<in> insert (key m) U" by blast
  have "map the (stored A m) = ?cs" using at s(1) m(1) by (intro nth_equalityI) simp_all
  then show "d = data (msg_seq m)" using full(2) by (simp add: concat_chunks)
qed

lemma lossy_parts:
  assumes sizes: "\<forall>s. data s \<noteq> [] \<and> length (data s) \<le> 1500"
  shows "lossy ms A ds A' \<Longrightarrow> holds_parts data U A \<Longrightarrow> \<forall>m \<in> set ms. part_of data m \<Longrightarrow> distinct (map key ms)
    \<Longrightarrow> U \<inter> key ` set ms = {} \<Longrightarrow> \<exists>ss. ds = map data ss \<and> distinct ss \<and> set ss \<subseteq> msg_seq ` set ms"
proof (induction arbitrary: U rule: lossy.induct)
  case (forgets ms D A ds A')
  then show ?case using holds_parts_forget by blast
next
  case (loses ms A m ds A')
  have "\<exists>ss. ds = map data ss \<and> distinct ss \<and> set ss \<subseteq> msg_seq ` set ms"
    by (rule loses.IH [OF holds_parts_clear [OF loses.prems(1)]]) (use loses.prems in auto)
  then show ?case by auto
next
  case (takes A m ms ds A')
  have k: "key m \<notin> U" "part_of data m" using takes.prems by auto
  have n: "insert (key m) U \<inter> key ` set ms = {}" using takes.prems(3,4) by auto
  have "\<exists>ss. ds = map data ss \<and> distinct ss \<and> set ss \<subseteq> msg_seq ` set ms"
    by (rule takes.IH [OF part_fits(2) [OF takes.prems(1) k(2,1) sizes]]) (use takes.prems(2,3) n in auto)
  then obtain ss where ss: "ds = map data ss" "distinct ss" "set ss \<subseteq> msg_seq ` set ms" by blast
  show ?case
  proof (cases "snd (reasm_step A m)")
    case None
    then show ?thesis using ss by (intro exI [of _ ss]) auto
  next
    case (Some d)
    note c = part_completes [OF takes.prems(1) k(2,1) Some]
    have "msg_seq m \<notin> msg_seq ` set ms"
    proof
      assume "msg_seq m \<in> msg_seq ` set ms"
      then obtain m' where m': "m' \<in> set ms" "msg_seq m' = msg_seq m" by auto
      then have "part_of data m'" using takes.prems(2) by simp
      then have "msg_idx m' < msg_cnt m" using k(2) m'(2) by (simp add: part_of_def carries_def)
      from c(2) [OF this] have "key m' \<in> insert (key m) U" using m'(2) by simp
      with m'(1) n show False by blast
    qed
    then show ?thesis using ss Some c(1) by (intro exI [of _ "msg_seq m # ss"]) auto
  qed
qed simp

section \<open>What arrives of what was sent\<close>

lemma arrivals_parts:
  assumes "\<forall>m \<in> set ms. part_of data m \<and> unat (m_msgLen m) \<le> 60 \<and> h_msgCode (msgHeader m) \<noteq> MSG_CODE_REQUEST_FRAG"
    "distinct (map key ms)" "wf_Msg_Buf pl"
  shows "(\<forall>x \<in> set (arrivals pl c (map wire ms)). part_of data x) \<and> distinct (map key (arrivals pl c (map wire ms)))
    \<and> key ` set (arrivals pl c (map wire ms)) \<subseteq> key ` set ms"
  using assms
proof (induction ms arbitrary: pl c)
  case (Cons m ms)
  let ?r = "received pl (wire m)"
  have m: "wf_Msg_Buf m" "unat (m_msgLen m) \<le> 60" "h_msgCode (msgHeader m) \<noteq> MSG_CODE_REQUEST_FRAG" "part_of data m"
    using Cons.prems(1) by (simp_all add: part_of_def carries_def)
  note w = received_wire [OF m(1,2) Cons.prems(3)]
  have r: "part_of data ?r" "key ?r = key m" using m(4) w by (simp_all add: part_of_def carries_def)
  have "(\<forall>x \<in> set (arrivals ?r (Suc c) (map wire ms)). part_of data x) \<and> distinct (map key (arrivals ?r (Suc c) (map wire ms)))
    \<and> key ` set (arrivals ?r (Suc c) (map wire ms)) \<subseteq> key ` set ms"
    by (rule Cons.IH) (use Cons.prems(1,2) w(1) in auto)
  moreover have "key m \<notin> key ` set ms" using Cons.prems(2) by auto
  moreover have "arrivals pl c (map wire (m # ms)) = (if c mod 13 \<noteq> 0 then [?r] else []) @ arrivals ?r (Suc c) (map wire ms)"
    using arrivals_wire [OF m(1,2) Cons.prems(3) m(3)] by simp
  ultimately show ?case using r by (cases "c mod 13 = 0") (simp_all, (blast | force)+)
qed simp

section \<open>From device to device, whatever happens\<close>

text \<open>
  The fragments of the datagrams \<open>data s\<close> as the sending service makes them, each given by its
  sequence number and index, with the buffer it was made in and whether it is sent as a reply.
\<close>

definition fragments_of :: "(nat \<Rightarrow> byte list) \<Rightarrow> (nat \<Rightarrow> u8) \<Rightarrow> (nat \<times> nat \<Rightarrow> bool) \<Rightarrow> (nat \<times> nat \<Rightarrow> Msg_Buf) \<Rightarrow> (nat \<times> nat) list \<Rightarrow> Msg_Buf list" where
  "fragments_of data tx again b ks = map (\<lambda>k. sent_fragment (again k) (tx (fst k)) (data (fst k)) (snd k) (b k)) ks"

lemma fragments_of_parts:
  assumes "\<forall>s. data s \<noteq> [] \<and> length (data s) \<le> 1500" "\<forall>k. wf_Msg_Buf (b k)"
    and "\<forall>(s, i) \<in> set ks. s < 4 \<and> unat (tx s) mod 16 = s \<and> i < fragment_count (length (data s))"
  shows "map key (fragments_of data tx again b ks) = ks"
    "\<forall>m \<in> set (fragments_of data tx again b ks). part_of data m \<and> unat (m_msgLen m) \<le> 60 \<and> h_msgCode (msgHeader m) \<noteq> MSG_CODE_REQUEST_FRAG"
proof -
  let ?f = "\<lambda>k. sent_fragment (again k) (tx (fst k)) (data (fst k)) (snd k) (b k)"
  have f: "key (?f k) = k \<and> part_of data (?f k) \<and> unat (m_msgLen (?f k)) \<le> 60 \<and> h_msgCode (msgHeader (?f k)) \<noteq> MSG_CODE_REQUEST_FRAG"
    if k: "k \<in> set ks" for k
  proof -
    have i: "snd k < fragment_count (length (data (fst k)))" "fst k < 4" "unat (tx (fst k)) mod 16 = fst k" using k assms(3) by auto
    have L: "length (data (fst k)) \<le> 1500" "wf_Msg_Buf (b k)" using assms(1) assms(2) [rule_format, of k] by simp_all
    note c = sent_fragment_carries [OF i(1) L, where tx = "tx (fst k)" and again = "again k"]
    have "h_msgCode (msgHeader (?f k)) \<noteq> MSG_CODE_REQUEST_FRAG" by (simp add: sent_fragment_def fusion_header_def Let_def pkt_consts)
    moreover have "msg_seq (?f k) = fst k" using c(1) i(3) by (simp add: carries_def)
    ultimately show ?thesis using c i(2,3) by (simp add: part_of_def prod_eq_iff)
  qed
  show "map key (fragments_of data tx again b ks) = ks" using f by (auto simp: fragments_of_def intro: map_idI)
  show "\<forall>m \<in> set (fragments_of data tx again b ks). part_of data m \<and> unat (m_msgLen m) \<le> 60 \<and> h_msgCode (msgHeader m) \<noteq> MSG_CODE_REQUEST_FRAG"
    using f by (auto simp: fragments_of_def)
qed

text \<open>
  C2: Four datagrams with sequence numbers 0 to 3 have been cut into
  fragments.  Any of these arrive, in any order, as originals or as replies, none twice.  The
  threads of the receiving service run in any order, with sweeps at any time, also between the
  steps of \<open>defragment\<close>, and every thirteenth message is dropped.  Then what the device gets are
  some of the four datagrams, unchanged and none twice, and \<open>iot_transmit_routine\<close> does not run
  into undefined behaviour.
\<close>

theorem device_gets_sent_datagrams:
  assumes "sys_inv A B S" "queues (sv S) ins outq fin [] hs" "tx_pc (ttx S) = TxGet" "fr_pc (tfr S) = FrRecv"
    and "rudp_rel (rudp (sv S)) (\<lambda>_. [])"
    and data: "\<forall>s. data s \<noteq> [] \<and> length (data s) \<le> 1500" "\<forall>k. wf_Msg_Buf (b k)"
    and keys: "\<forall>(s, i) \<in> set ks. s < 4 \<and> unat (tx s) mod 16 = s \<and> i < fragment_count (length (data s))" "distinct ks"
    and "sys_run S (map wire (fragments_of data tx again b ks)) outs S'"
  shows "(\<exists>ss. to_device outs = map data ss \<and> distinct ss \<and> set ss \<subseteq> fst ` set ks) \<and> \<not> transmit_fault S'"
proof -
  let ?ms = "fragments_of data tx again b ks"
  let ?xs = "arrivals (rxMsgPayload (tfr S)) (unat (pkt_drop_count (tfr S))) (map wire ?ms)"
  note p = fragments_of_parts [OF data keys(1), of again]
  have "wf_Msg_Buf (rxMsgPayload (tfr S))" using sys_inv_queues [OF assms(1,2)] by (simp add: contents_def)
  moreover have "distinct (map key ?ms)" "key ` set ?ms = set ks" using keys(2) unfolding p(1) by (simp, metis p(1) set_map)
  ultimately have x: "\<forall>m \<in> set ?xs. part_of data m" "distinct (map key ?xs)" "key ` set ?xs \<subseteq> set ks"
    using arrivals_parts [OF p(2), of "rxMsgPayload (tfr S)" "unat (pkt_drop_count (tfr S))"] by blast+
  have h: "holds_parts data {} (\<lambda>_. [])" by (simp add: holds_parts_def)
  note t = tracks_idle [OF assms(2-5)]
  have fit: "fits ?xs (\<lambda>_. [])" by (rule parts_fit [OF data(1) h x(1,2)]) simp
  then have "fits ([] @ to_come (tfr S) (map wire ?ms)) (\<lambda>_. [])" using t(2) by simp
  from run_lossy [OF assms(10,1) t(1) this] obtain don rest P' where r: "?xs = don @ rest" "lossy don (\<lambda>_. []) (to_device outs) P'"
    unfolding t(2) by auto
  have "\<exists>ss. to_device outs = map data ss \<and> distinct ss \<and> set ss \<subseteq> msg_seq ` set don"
    by (rule lossy_parts [OF data(1) r(2) h]) (use x(1,2) r(1) in auto)
  moreover have "msg_seq ` set don \<subseteq> fst ` set ks"
  proof -
    have "key ` set don \<subseteq> set ks" using x(3) r(1) by auto
    then have "fst ` key ` set don \<subseteq> fst ` set ks" by blast
    then show ?thesis by (simp add: image_image)
  qed
  ultimately have "\<exists>ss. to_device outs = map data ss \<and> distinct ss \<and> set ss \<subseteq> fst ` set ks" by (meson order_trans)
  then show ?thesis using run_no_fault [OF assms(1-5,10) fit] ..
qed

theorem device_gets_sent_datagrams_witness:
  "\<exists>outs R. sys_run system_2 (map wire (fragments_of (\<lambda>_. [7]) (\<lambda>_. 1) (\<lambda>_. False) (\<lambda>_. zero_Msg_Buf) [(1, 0)])) outs R
    \<and> to_device outs = [[7]] \<and> (\<exists>ss. to_device outs = map (\<lambda>_. [7]) ss \<and> distinct ss \<and> set ss \<subseteq> {1 :: nat}) \<and> \<not> transmit_fault R"
proof -
  let ?data = "\<lambda>_ :: nat. [7 :: byte]" and ?b = "\<lambda>_ :: nat \<times> nat. zero_Msg_Buf" and ?tx = "\<lambda>_ :: nat. 1 :: u8" and ?ks = "[(1 :: nat, 0 :: nat)]"
  have f: "map wire (fragments_of ?data ?tx (\<lambda>_. False) ?b ?ks) = [wire packet_7]" by (simp add: fragments_of_def packet_7_def)
  obtain out R where r: "sys_run system_2 [wire packet_7] out R" "to_device out = [[7]]" using packet_7_run spared_run by blast
  have u: "fr_pc (tfr system_2) = FrRecv" "tx_pc (ttx system_2) = TxGet" "rudp (sv system_2) = idle_state"
    by (simp_all add: system_1_def system_2_def service_3_def)
  have rel: "rudp_rel (rudp (sv system_2)) (\<lambda>_. [])" unfolding u(3) by (rule idle_rel)
  have d: "\<forall>s. ?data s \<noteq> [] \<and> length (?data s) \<le> 1500" "\<forall>k. wf_Msg_Buf (?b k)" "distinct ?ks"
    "\<forall>(s, i) \<in> set ?ks. s < 4 \<and> unat (?tx s) mod 16 = s \<and> i < fragment_count (length (?data s))"
    by (simp_all add: fragment_count_def MAX_MSG_SIZE_def)
  from device_gets_sent_datagrams [OF system_2_inv u(2,1) rel d(1,2,4,3) r(1) [folded f]]
  have "(\<exists>ss. to_device out = map ?data ss \<and> distinct ss \<and> set ss \<subseteq> {1}) \<and> \<not> transmit_fault R" by simp
  with r show ?thesis unfolding f by blast
qed

end
