(* ===== verification/Config.thy ===== *)
theory Config
  imports C_Text
begin

text \<open>
  \<open>src/hs_config_file_reader.c\<close> and \<open>get_configuration\<close> of \<open>src/hs_udp_service.c\<close>: parameters
  are read from a text file of \<open>name:value\<close> lines.  The file is its contents, \<open>None\<close> when it
  cannot be opened.
\<close>

section \<open>\<open>get_config_param\<close>\<close>

definition config_line :: "string \<Rightarrow> string" where
  "config_line l = takeWhile (\<lambda>c. c \<noteq> nl \<and> c \<noteq> cr \<and> c \<noteq> nul) l"

text \<open>
  The loop over the lines, from a position that is not yet known to be the end of the file.
  After the last line the loop ends with \<open>ptr\<close> still pointing to that line's first token.
\<close>

function config_loop :: "string \<Rightarrow> string \<Rightarrow> string option" where
  "config_loop param xs =
     (case fgets 512 xs of
        None \<Rightarrow> None
      | Some (l, rest, eof) \<Rightarrow>
          (case strtok (config_line l) of
             None \<Rightarrow> None
           | Some (key, r) \<Rightarrow>
               if key = param
               then (case strtok r of None \<Rightarrow> None | Some (v, _) \<Rightarrow> Some (dropWhile (\<lambda>c. c = CHR '' '') v))
               else if eof then Some key
               else config_loop param rest))"
  by pat_completeness auto

termination
  by (relation "measure (\<lambda>(param, xs). length xs)") (auto dest: fgets_shorter)

declare config_loop.simps [simp del]

definition get_config_param :: "string option \<Rightarrow> string \<Rightarrow> string option" where
  "get_config_param file param = (case file of None \<Rightarrow> None | Some xs \<Rightarrow> config_loop param xs)"

section \<open>\<open>get_configuration\<close>\<close>

record ports =
  IOTPort :: u16
  fusionRxPort :: u16
  fusionTxPort :: u16

text \<open>
  One parameter: the test against \<open>ULONG_MAX\<close> looks at the value after its conversion to 16
  bits.  \<open>None\<close> when the parameter is missing, otherwise the value stored and whether it passes.
\<close>

definition read_port :: "string option \<Rightarrow> string \<Rightarrow> (u16 \<times> bool) option" where
  "read_port file param =
     (case get_config_param file param of
        None \<Rightarrow> None
      | Some s \<Rightarrow> (let p = ucast (strtoul s) :: u16 in Some (p, \<not> (p = 0 \<or> (ucast p :: u64) = - 1))))"

definition get_configuration :: "string option \<Rightarrow> ports \<Rightarrow> ports \<times> int" where
  "get_configuration file ps =
     (case read_port file ''IOT_Device_Port'' of
        None \<Rightarrow> (ps, -1)
      | Some (a, ok) \<Rightarrow>
          (let p1 = ps\<lparr>IOTPort := a\<rparr> in
           if \<not> ok then (p1, -1)
           else case read_port file ''Fusion_RxPort'' of
             None \<Rightarrow> (p1, -1)
           | Some (b, ok) \<Rightarrow>
               (let p2 = p1\<lparr>fusionRxPort := b\<rparr> in
                if \<not> ok then (p2, -1)
                else case read_port file ''Fusion_TxPort'' of
                  None \<Rightarrow> (p2, -1)
                | Some (c, ok) \<Rightarrow>
                    (let p3 = p2\<lparr>fusionTxPort := c\<rparr> in if \<not> ok then (p3, -1) else (p3, 0)))))"

text \<open>\<open>SetConfigFileName\<close>: \<open>strcpy\<close> into 256 bytes; \<open>GetConfigFileName\<close> on the same global.\<close>

definition SetConfigFileName :: "string \<Rightarrow> c_error + string" where
  "SetConfigFileName fname = (if length fname < 256 then Inr fname else Inl OutOfBounds)"

definition GetConfigFileName :: "string \<Rightarrow> string" where
  [simp]: "GetConfigFileName ConfigFileName = ConfigFileName"

section \<open>Files as they are written\<close>

definition plain :: "string \<Rightarrow> bool" where
  "plain s \<longleftrightarrow> s \<noteq> [] \<and> (\<forall>c \<in> set s. c \<noteq> CHR '':'' \<and> c \<noteq> nl \<and> c \<noteq> cr \<and> c \<noteq> nul)"

definition entry_ok :: "string \<times> string \<Rightarrow> bool" where
  "entry_ok e \<longleftrightarrow> plain (fst e) \<and> plain (snd e) \<and> hd (snd e) \<noteq> CHR '' '' \<and> length (fst e) + length (snd e) \<le> 509"

definition entry_text :: "string \<times> string \<Rightarrow> string" where
  "entry_text e = fst e @ CHR '':'' # snd e"

definition file_text :: "(string \<times> string) list \<Rightarrow> string" where
  "file_text es = concat (map (\<lambda>e. entry_text e @ [nl]) es)"

lemma strtok_plain: "plain s \<Longrightarrow> strtok (s @ CHR '':'' # t) = Some (s, t)" "plain s \<Longrightarrow> strtok s = Some (s, [])"
proof -
  assume p: "plain s"
  have c: "\<forall>c \<in> set s. c \<noteq> CHR '':''" and ne: "s \<noteq> []" using p by (simp_all add: plain_def)
  have d: "dropWhile (\<lambda>c. c = CHR '':'') (s @ u) = s @ u" for u
    using ne c by (cases s) simp_all
  have t1: "takeWhile (\<lambda>c. c \<noteq> CHR '':'') (s @ CHR '':'' # t) = s" "dropWhile (\<lambda>c. c \<noteq> CHR '':'') (s @ CHR '':'' # t) = CHR '':'' # t"
    using c by (simp_all add: takeWhile_append2 dropWhile_append2)
  have t2: "takeWhile (\<lambda>c. c \<noteq> CHR '':'') s = s" "dropWhile (\<lambda>c. c \<noteq> CHR '':'') s = []"
    using c by simp_all
  show "strtok (s @ CHR '':'' # t) = Some (s, t)" unfolding strtok_def Let_def d t1 using ne by simp
  show "strtok s = Some (s, [])" unfolding strtok_def Let_def d [of "[]", unfolded append_Nil2] t2 using ne by simp
qed

lemma entry_text_simps:
  assumes "entry_ok e"
  shows "\<forall>c \<in> set (entry_text e). c \<noteq> nl" "config_line (entry_text e @ [nl]) = entry_text e"
    "config_line (entry_text e) = entry_text e" "length (entry_text e) \<le> 510" "entry_text e \<noteq> []"
    "strtok (entry_text e) = Some (fst e, snd e)" "strtok (snd e) = Some (snd e, [])"
    "dropWhile (\<lambda>c. c = CHR '' '') (snd e) = snd e"
proof -
  have p: "plain (fst e)" "plain (snd e)" "hd (snd e) \<noteq> CHR '' ''" "length (fst e) + length (snd e) \<le> 509"
    using assms by (simp_all add: entry_ok_def)
  show n: "\<forall>c \<in> set (entry_text e). c \<noteq> nl" using p(1,2) by (auto simp: entry_text_def plain_def)
  have a: "\<forall>c \<in> set (entry_text e). c \<noteq> nl \<and> c \<noteq> cr \<and> c \<noteq> nul" using p(1,2) by (auto simp: entry_text_def plain_def)
  then show "config_line (entry_text e @ [nl]) = entry_text e" "config_line (entry_text e) = entry_text e"
    by (simp_all add: config_line_def takeWhile_append2)
  show "length (entry_text e) \<le> 510" "entry_text e \<noteq> []" using p(4) by (simp_all add: entry_text_def)
  show "strtok (entry_text e) = Some (fst e, snd e)" "strtok (snd e) = Some (snd e, [])"
    using strtok_plain p(1,2) by (simp_all add: entry_text_def)
  show "dropWhile (\<lambda>c. c = CHR '' '') (snd e) = snd e" using p(2,3) by (cases "snd e") (auto simp: plain_def)
qed

lemma config_loop_entry:
  assumes "entry_ok e"
  shows "config_loop param (entry_text e @ nl # xs) = (if fst e = param then Some (snd e) else config_loop param xs)"
    and "config_loop param (entry_text e) = (if fst e = param then Some (snd e) else Some (fst e))"
proof -
  note e = entry_text_simps [OF assms]
  have l: "length (entry_text e) < 512 - 1" using e(4) by simp
  note f = fgets_line [OF e(1) l]
  show "config_loop param (entry_text e @ nl # xs) = (if fst e = param then Some (snd e) else config_loop param xs)"
    by (subst config_loop.simps, cases e) (use f(1) e in simp)
  show "config_loop param (entry_text e) = (if fst e = param then Some (snd e) else Some (fst e))"
    by (subst config_loop.simps, cases e) (use f(2) e in simp)
qed

lemma config_loop_file:
  assumes "\<forall>e \<in> set es. entry_ok e"
  shows "config_loop param (file_text es @ xs) =
    (case map_of es param of Some v \<Rightarrow> Some v | None \<Rightarrow> config_loop param xs)"
  using assms
proof (induction es)
  case (Cons e es)
  then show ?case
    using config_loop_entry(1) [of e param "file_text es @ xs"] by (cases e) (simp add: file_text_def)
qed (simp add: file_text_def)

text \<open>
  C37: In a file of \<open>name:value\<close> lines, each ended by a newline, the search
  for a parameter ends and answers the first value written under that name, or nothing.
\<close>

theorem config_lookup_roundtrip:
  assumes "\<forall>e \<in> set es. entry_ok e"
  shows "get_config_param (Some (file_text es)) param = map_of es param"
  using config_loop_file [OF assms, of param "[]"]
  by (simp add: get_config_param_def config_loop.simps [of _ "[]"] fgets_def split: option.splits)

theorem config_lookup_roundtrip_witness:
  "get_config_param (Some (file_text [(''Fusion_RxPort'', ''8841''), (''IOT_Device_Port'', ''8080'')])) ''IOT_Device_Port''
   = map_of [(''Fusion_RxPort'', ''8841''), (''IOT_Device_Port'', ''8080'')] ''IOT_Device_Port''"
  by (rule config_lookup_roundtrip) (simp add: entry_ok_def plain_def)

text \<open>
  When the last line is not ended by a newline, as in the files
  of the repository, the search for a missing parameter does not answer NULL but the name
  written on the last line.
\<close>

theorem config_missing_returns_last_name:
  assumes "\<forall>e \<in> set es. entry_ok e" "entry_ok (k, v)" "map_of (es @ [(k, v)]) param = None"
  shows "get_config_param (Some (file_text es @ entry_text (k, v))) param = Some k"
  using config_loop_file [OF assms(1), of param "entry_text (k, v)"] config_loop_entry(2) [OF assms(2), of param] assms(3)
  by (auto simp: get_config_param_def map_add_def split: option.splits if_splits)

theorem config_missing_returns_last_name_witness:
  "get_config_param (Some (file_text [(''Fusion_RxPort'', ''8841'')] @ entry_text (''IOT_Device_Port'', ''8080'')))
     ''Fusion_TxPort'' = Some ''IOT_Device_Port''"
  by (rule config_missing_returns_last_name) (simp_all add: entry_ok_def plain_def)

section \<open>Port numbers\<close>

lemma read_port_decimal:
  assumes "\<forall>e \<in> set es. entry_ok e" "map_of es param = Some (decimal n)" "n < 2 ^ 64"
  shows "read_port (Some (file_text es)) param = Some (of_nat n, n mod 65536 \<noteq> 0)"
proof -
  have "get_config_param (Some (file_text es)) param = Some (decimal n)"
    using config_loop_file [OF assms(1), of param "[]"] assms(2) by (simp add: get_config_param_def)
  moreover have "unat (of_nat n :: u64) = n" using assms(3) by (simp add: unsigned_of_nat take_bit_nat_eq_self)
  then have "ucast (of_nat n :: u64) = (of_nat n :: u16)" by (metis of_nat_unat)
  moreover have "(of_nat n :: u16) = 0 \<longleftrightarrow> n mod 65536 = 0"
    by (simp add: of_nat_eq_0_iff mod_eq_0_iff_dvd word_of_nat_eq_0_iff)
  moreover have "(ucast (of_nat n :: u16) :: u64) \<noteq> - 1"
  proof
    assume "(ucast (of_nat n :: u16) :: u64) = - 1"
    then have "unat (ucast (of_nat n :: u16) :: u64) = 2 ^ 64 - 1" by (simp add: unsigned_minus_1_eq_mask mask_eq_exp_minus_1)
    moreover have "unat (of_nat n :: u16) < 2 ^ 16" using unsigned_less [of "of_nat n :: u16"] by simp
    moreover have "take_bit 64 (unat (of_nat n :: u16)) \<le> unat (of_nat n :: u16)" by (rule take_bit_nat_less_eq_self)
    ultimately show False by (simp add: unsigned_ucast_eq)
  qed
  ultimately show ?thesis using assms(3) by (simp add: read_port_def strtoul_decimal Let_def)
qed

lemma read_port_missing:
  assumes "\<forall>e \<in> set es. entry_ok e" "map_of es param = None"
  shows "read_port (Some (file_text es)) param = None"
  using config_loop_file [OF assms(1), of param "[]"] assms(2) by (simp add: read_port_def get_config_param_def config_loop.simps [of param "[]"] fgets_def)

text \<open>A number written for a port: it can be used unless its low 16 bits are 0.\<close>

definition usable_port :: "nat option \<Rightarrow> bool" where
  "usable_port x \<longleftrightarrow> (\<exists>n. x = Some n \<and> n mod 65536 \<noteq> 0)"

definition port_or :: "nat option \<Rightarrow> u16 \<Rightarrow> u16" where
  "port_or x old = (case x of None \<Rightarrow> old | Some n \<Rightarrow> of_nat n)"

lemma read_port_entry:
  assumes "\<forall>e \<in> set es. entry_ok e" "map_of es param = map_option decimal x" "\<forall>n \<in> set_option x. n < 2 ^ 64"
  shows "read_port (Some (file_text es)) param = (case x of None \<Rightarrow> None | Some n \<Rightarrow> Some (of_nat n, usable_port x))"
proof (cases x)
  case None
  with assms(1,2) show ?thesis by (simp add: read_port_missing)
next
  case (Some n)
  with read_port_decimal [OF assms(1), of param n] assms(2,3) show ?thesis by (simp add: usable_port_def)
qed

text \<open>
  C38: In a file of well-formed lines each of the three ports is missing or a
  decimal number \<open>n < 2^64\<close>.  Reading succeeds exactly when all three are there and none is a
  multiple of 65536; the ports are the numbers modulo 2^16, so 65537 is accepted as port 1.  The
  first missing or refused port ends the reading with -1: a refused one has been stored (as 0),
  and the ports after it keep their old values.
\<close>

theorem configured_ports_read:
  assumes "\<forall>e \<in> set es. entry_ok e"
    and "map_of es ''IOT_Device_Port'' = map_option decimal a" "\<forall>n \<in> set_option a. n < 2 ^ 64"
    and "map_of es ''Fusion_RxPort'' = map_option decimal b" "\<forall>n \<in> set_option b. n < 2 ^ 64"
    and "map_of es ''Fusion_TxPort'' = map_option decimal c" "\<forall>n \<in> set_option c. n < 2 ^ 64"
  shows "get_configuration (Some (file_text es)) ps =
    (\<lparr>IOTPort = port_or a (IOTPort ps),
      fusionRxPort = (if usable_port a then port_or b (fusionRxPort ps) else fusionRxPort ps),
      fusionTxPort = (if usable_port a \<and> usable_port b then port_or c (fusionTxPort ps) else fusionTxPort ps)\<rparr>,
     if usable_port a \<and> usable_port b \<and> usable_port c then 0 else -1)"
  using read_port_entry [OF assms(1-3)] read_port_entry [OF assms(1,4,5)] read_port_entry [OF assms(1,6,7)]
  by (cases ps) (auto simp: get_configuration_def port_or_def usable_port_def split: option.splits)

text \<open>The second port is a multiple of 65536: the first one, 65537, is taken as 1.\<close>

theorem configured_ports_read_witness:
  "get_configuration (Some (file_text [(''IOT_Device_Port'', decimal 65537), (''Fusion_RxPort'', decimal 65536), (''Fusion_TxPort'', decimal 8842)]))
     \<lparr>IOTPort = 5, fusionRxPort = 6, fusionTxPort = 7\<rparr>
   = (\<lparr>IOTPort = 1, fusionRxPort = 0, fusionTxPort = 7\<rparr>, -1)"
proof -
  let ?es = "[(''IOT_Device_Port'', decimal 65537), (''Fusion_RxPort'', decimal 65536), (''Fusion_TxPort'', decimal 8842)]"
  have ok: "\<forall>e \<in> set ?es. entry_ok e" by (simp add: entry_ok_def plain_def decimal.simps char_of_def)
  have "(of_nat 65537 :: u16) = 1" "(of_nat 65536 :: u16) = 0" by simp_all
  with configured_ports_read [OF ok, of "Some 65537" "Some 65536" "Some 8842" "\<lparr>IOTPort = 5, fusionRxPort = 6, fusionTxPort = 7\<rparr>"]
  show ?thesis by (simp add: port_or_def usable_port_def)
qed

end
