(* ===== verification/Startup.thy ===== *)
theory Startup
  imports System Buffer_Pool Terminals Config
begin

text \<open>
  \<open>start_udp_service\<close> of \<open>src/hs_udp_service.c\<close> and \<open>src/main.c\<close>: the configuration is read, the
  sockets, queues and pools are made, the free queues are filled and the threads are started.
  What the operating system answers is the record \<open>os\<close>.  The main result is that the state in
  which the threads start satisfies the invariant of the running system.
\<close>

definition MAX_BUFFER_ELEMS :: nat where "MAX_BUFFER_ELEMS = 64"
definition R_UDP_PORT_TERM :: u16 where "R_UDP_PORT_TERM = 9999"

section \<open>The program's globals and its surroundings\<close>

datatype socket_id = IOTSock | FusionRxSock | FusionTxSock | RUdpSock

text \<open>\<open>Thread_Info_t\<close>: which sockets a thread is given.  All get the one cluster of queues.\<close>

record Thread_Info =
  sockPtr :: "socket_id option"
  sockPtr2 :: "socket_id option"

record globals =
  g_ports :: ports
  g_sockets :: "socket_id \<Rightarrow> UDP_socket"
  g_kernel :: "socket_id \<Rightarrow> kernel_socket"
  g_IotIn :: "fifo_descriptor option"
  g_IotOut :: "fifo_descriptor option"
  g_fusionIn :: "fifo_descriptor option"
  g_fusionOut :: "fifo_descriptor option"
  g_rUdpIn :: "fifo_descriptor option"
  g_IOT_rxBuffer :: "BufPool option"
  g_fusionRxMsgBuffer :: "BufPool option"
  g_terminals :: "TerminalCluster option"
  g_threads :: "(thread_id \<times> Thread_Info) list"

definition globals_0 :: globals where
  "globals_0 = \<lparr> g_ports = \<lparr> IOTPort = 0, fusionRxPort = 0, fusionTxPort = 0 \<rparr>,
     g_sockets = (\<lambda>_. \<lparr> sk_port = 0, sockFD = 0, sk_addr = zero_addr, sockOption = 0 \<rparr>),
     g_kernel = (\<lambda>_. \<lparr> k_bound = None, k_flags = 0 \<rparr>),
     g_IotIn = None, g_IotOut = None, g_fusionIn = None, g_fusionOut = None, g_rUdpIn = None,
     g_IOT_rxBuffer = None, g_fusionRxMsgBuffer = None, g_terminals = None, g_threads = [] \<rparr>"

text \<open>
  The answers: the configuration file, the results of \<open>socket\<close> and \<open>bind\<close>, whether the \<open>n\<close>-th
  \<open>calloc\<close> and \<open>pipe\<close> succeed, the two blocks of a buffer pool, and the results of the thread
  calls.
\<close>

record os =
  os_file :: "string option"
  os_socket :: "socket_id \<Rightarrow> int"
  os_bind :: "socket_id \<Rightarrow> int"
  os_calloc :: "nat \<Rightarrow> bool"
  os_pipe :: "nat \<Rightarrow> bool"
  os_pipe_size :: nat
  os_pool :: "nat \<Rightarrow> BufPool option"
  os_block :: "nat \<Rightarrow> ptr"
  os_terminals :: bool
  os_attr :: int
  os_thread :: "thread_id \<Rightarrow> int"

section \<open>The steps of \<open>start_udp_service\<close>\<close>

text \<open>A step returns early when its result is not zero; it is \<open>None\<close> when it blocks.\<close>

type_synonym start_step = "globals \<Rightarrow> (c_error + (globals \<times> int)) option"

fun run_steps :: "start_step list \<Rightarrow> start_step" where
  "run_steps [] g = Some (Inr (g, 0))"
| "run_steps (f # fs) g =
     (case f g of None \<Rightarrow> None
      | Some r \<Rightarrow> (case r of Inl e \<Rightarrow> Some (Inl e)
         | Inr (g', res) \<Rightarrow> if res \<noteq> 0 then Some (Inr (g', res)) else run_steps fs g'))"

definition fails :: "bool \<Rightarrow> int" where
  "fails b = (if b then -1 else 0)"

definition start_config :: "os \<Rightarrow> start_step" where
  "start_config os g =
     (let (ps, r) = get_configuration (os_file os) (g_ports g) in Some (Inr (g\<lparr>g_ports := ps\<rparr>, fails (r \<noteq> 0))))"

definition start_server :: "os \<Rightarrow> socket_id \<Rightarrow> (globals \<Rightarrow> u16) \<Rightarrow> start_step" where
  "start_server os i port g =
     (let (s, k, r) = create_server_socket (os_socket os i) (os_bind os i) (port g) (g_sockets g i) (g_kernel g i)
      in Some (Inr (g\<lparr>g_sockets := (g_sockets g)(i := s), g_kernel := (g_kernel g)(i := k)\<rparr>, fails (r \<noteq> 0))))"

definition start_client :: "os \<Rightarrow> start_step" where
  "start_client os g =
     (let (s, k, r) = create_client_socket (os_socket os FusionTxSock) ''127.0.0.1'' (fusionTxPort (g_ports g))
            (g_sockets g FusionTxSock) (g_kernel g FusionTxSock)
      in Some (Inr (g\<lparr>g_sockets := (g_sockets g)(FusionTxSock := s), g_kernel := (g_kernel g)(FusionTxSock := k)\<rparr>,
           fails (r \<noteq> 0))))"

definition start_fifo :: "os \<Rightarrow> nat \<Rightarrow> (fifo_descriptor option \<Rightarrow> globals \<Rightarrow> globals) \<Rightarrow> start_step" where
  "start_fifo os i upd g =
     (let f = Fifo_create (os_calloc os i) (os_pipe os i) (os_pipe_size os) in Some (Inr (upd f g, fails (f = None))))"

text \<open>The loop that moves buffers of a pool into a queue.\<close>

fun feed :: "nat \<Rightarrow> BufPool \<Rightarrow> fifo_descriptor \<Rightarrow> (BufPool \<times> fifo_descriptor) option" where
  "feed 0 q f = Some (q, f)"
| "feed (Suc n) q f =
     (case bufpool_getNextFreeBuffer q of None \<Rightarrow> None
      | Some (p, q') \<Rightarrow> (case Fifo_put f p of None \<Rightarrow> None | Some (f', _) \<Rightarrow> feed n q' f'))"

definition start_pool :: "os \<Rightarrow> nat \<Rightarrow> string \<Rightarrow> (globals \<Rightarrow> BufPool option) \<Rightarrow> (globals \<Rightarrow> fifo_descriptor option)
    \<Rightarrow> (BufPool option \<Rightarrow> globals \<Rightarrow> globals) \<Rightarrow> (fifo_descriptor option \<Rightarrow> globals \<Rightarrow> globals) \<Rightarrow> start_step" where
  "start_pool os i qname pool fifo set_pool set_fifo g =
     (case create_bufpool (of_nat MAX_BUFFER_ELEMS) (of_nat sizeof_Msg_Buf) (pool g) qname (os_pool os i) (os_block os i) of
        Inl e \<Rightarrow> Some (Inl e)
      | Inr (q, r) \<Rightarrow>
          if r \<noteq> 0 then Some (Inr (set_pool q g, -1))
          else (case (q, fifo g) of
                  (Some q, Some f) \<Rightarrow>
                    (case feed (MAX_BUFFER_ELEMS - 1) q f of None \<Rightarrow> None
                     | Some (q', f') \<Rightarrow> Some (Inr (set_fifo (Some f') (set_pool (Some q') g), 0)))
                | _ \<Rightarrow> Some (Inl NullDeref)))"

definition start_terminals :: "bool \<Rightarrow> os \<Rightarrow> start_step" where
  "start_terminals hubpp os g =
     (case init_terminal_cluster hubpp (os_terminals os) of
        Inl e \<Rightarrow> Some (Inl e)
      | Inr (c, r) \<Rightarrow> Some (Inr (g\<lparr>g_terminals := c\<rparr>, fails (r \<noteq> 0))))"

definition start_attr :: "os \<Rightarrow> start_step" where
  "start_attr os g = Some (Inr (g, os_attr os))"

text \<open>\<open>pthread_create\<close> starts the thread when it returns 0; the code tests for a negative result.\<close>

definition start_thread :: "os \<Rightarrow> thread_id \<Rightarrow> Thread_Info \<Rightarrow> start_step" where
  "start_thread os t info g =
     (let r = os_thread os t; g' = (if r = 0 then g\<lparr>g_threads := g_threads g @ [(t, info)]\<rparr> else g)
      in Some (Inr (g', if r < 0 then r else 0)))"

definition iot_info :: Thread_Info where "iot_info = \<lparr> sockPtr = Some IOTSock, sockPtr2 = None \<rparr>"
definition fusion_tx_info :: Thread_Info where "fusion_tx_info = \<lparr> sockPtr = Some FusionTxSock, sockPtr2 = None \<rparr>"
definition fusion_rx_info :: Thread_Info where "fusion_rx_info = \<lparr> sockPtr = Some FusionRxSock, sockPtr2 = None \<rparr>"
definition r_udp_info :: Thread_Info where "r_udp_info = \<lparr> sockPtr = Some RUdpSock, sockPtr2 = Some FusionTxSock \<rparr>"

definition start_udp_service :: "bool \<Rightarrow> os \<Rightarrow> start_step" where
  "start_udp_service hubpp os = run_steps
     [start_config os,
      start_server os IOTSock (\<lambda>g. IOTPort (g_ports g)),
      start_server os FusionRxSock (\<lambda>g. fusionRxPort (g_ports g)),
      start_client os,
      start_server os RUdpSock (\<lambda>_. R_UDP_PORT_TERM),
      start_fifo os 0 (\<lambda>f g. g\<lparr>g_IotIn := f\<rparr>),
      start_fifo os 1 (\<lambda>f g. g\<lparr>g_IotOut := f\<rparr>),
      start_fifo os 2 (\<lambda>f g. g\<lparr>g_fusionIn := f\<rparr>),
      start_fifo os 3 (\<lambda>f g. g\<lparr>g_fusionOut := f\<rparr>),
      start_fifo os 4 (\<lambda>f g. g\<lparr>g_rUdpIn := f\<rparr>),
      start_pool os 0 ''IOT Receive Buffer'' g_IOT_rxBuffer g_IotIn
        (\<lambda>q g. g\<lparr>g_IOT_rxBuffer := q\<rparr>) (\<lambda>f g. g\<lparr>g_IotIn := f\<rparr>),
      start_pool os 1 ''IOT Transmit Buffer'' g_fusionRxMsgBuffer g_fusionIn
        (\<lambda>q g. g\<lparr>g_fusionRxMsgBuffer := q\<rparr>) (\<lambda>f g. g\<lparr>g_fusionIn := f\<rparr>),
      start_terminals hubpp os,
      start_attr os,
      start_thread os IotReceive iot_info,
      start_thread os IotTransmit iot_info,
      start_thread os FusionTransmit fusion_tx_info,
      start_thread os FusionReceive fusion_rx_info,
      start_thread os RUdp r_udp_info,
      start_thread os RUdpReq r_udp_info]"

section \<open>The state in which the threads start\<close>

definition cluster_of :: "globals \<Rightarrow> Fifo_Cluster option" where
  "cluster_of g =
     (case (g_IotIn g, g_IotOut g, g_fusionIn g, g_fusionOut g, g_rUdpIn g) of
        (Some a, Some b, Some c, Some d, Some e) \<Rightarrow>
          Some \<lparr> IotThrInFifo = a, IotThrOutFifo = b, fusionThrInFifo = c, fusionThrOutFifo = d, rUdpThrInFifo = e \<rparr>
      | _ \<Rightarrow> None)"

text \<open>
  \<open>mem\<close> is what the buffers contain, \<open>stack\<close> and \<open>msg\<close> the uninitialised receive buffers of two
  threads.  Statics and globals are zero, \<open>last_pkt_seq\<close> is -1.
\<close>

definition booted :: "(ptr \<Rightarrow> Msg_Buf) \<Rightarrow> byte list \<Rightarrow> Msg_Buf \<Rightarrow> control_state \<Rightarrow> globals \<Rightarrow> Fifo_Cluster \<Rightarrow> system" where
  "booted mem stack msg ct g cl = \<lparr>
     sv = \<lparr> store = mem, ListHead = NULL, ListTail = NULL, cluster = cl,
            rudp = \<lparr> fragmentsTable = zero_table, last_pkt_seq = - 1, fusionSock = False \<rparr>,
            ctl = ct, IOTSocket = g_sockets g IOTSock, sockTx = False \<rparr>,
     trx = \<lparr> rx_pc = RxWait, rxPayLoad = stack, rx_res = 0, rx_frgmnts = 0, rx_frgmntIdx = 0, rx_dataPtr = 0,
             rx_txSeqNum = 0, rx_dataPayLoad = NULL \<rparr>,
     ttx = \<lparr> tx_pc = TxGet, tx_dataPayLoad = NULL, tx_handle = (0, 0), tx_msgHandle = None \<rparr>,
     tft = \<lparr> ft_pc = FtGet, ft_rxMsgBufPtr = NULL \<rparr>,
     tfr = \<lparr> fr_pc = FrRecv, fr_rxMsgBufPtr = NULL, rxMsgPayload = msg, fr_res = 0, fr_pkt = NULL, pkt_drop_count = 0 \<rparr> \<rparr>"

section \<open>\<open>main\<close>\<close>

definition SERVICE_ID_UDP :: u8 where "SERVICE_ID_UDP = 0x00"
definition SERVICE_ID_BLE :: u8 where "SERVICE_ID_BLE = 0x01"

text \<open>\<open>read_spi_conf\<close> sets the service id itself and then switches on it.\<close>

definition read_spi_conf :: "'z control_state_scheme \<Rightarrow> 'z control_state_scheme" where
  "read_spi_conf st =
     (let service_id = 0 :: u8 in
      if service_id = SERVICE_ID_BLE then st\<lparr>service_disabled := True\<rparr>
      else if service_id = SERVICE_ID_UDP then st\<lparr>service_disabled := False\<rparr>
      else st\<lparr>service_disabled := True\<rparr>)"

definition CONFIGURATION_FILE :: string where "CONFIGURATION_FILE = ''/etc/hs-udp-service.conf''"

text \<open>
  \<open>parse_options\<close> on what \<open>getopt\<close> finds: an option \<open>i\<close> replaces the name of the configuration
  file, anything else ends the program (\<open>None\<close>).
\<close>

fun parse_options :: "(char \<times> string) list \<Rightarrow> string \<Rightarrow> c_error + string option" where
  "parse_options [] fname = Inr (Some fname)"
| "parse_options ((opt, optarg) # opts) fname =
     (if opt = CHR ''i''
      then (case SetConfigFileName optarg of Inl e \<Rightarrow> Inl e | Inr fname' \<Rightarrow> parse_options opts fname')
      else Inr None)"

text \<open>
  \<open>main\<close> up to its idle loop, on the options, the answers to \<open>start_service_check\<close>, the result of
  \<open>start_inotify_service\<close> and the files by name.  The outcome is the control state, the
  globals and the exit code, which is 0 when the idle loop is reached.
\<close>

definition main_start :: "bool \<Rightarrow> (char \<times> string) list \<Rightarrow> int \<times> (sockaddr_in \<Rightarrow> int) \<times> int \<Rightarrow> int \<Rightarrow> (string \<Rightarrow> string option) \<Rightarrow> os
    \<Rightarrow> control_state \<Rightarrow> (c_error + (control_state \<times> globals \<times> int)) option" where
  "main_start hubpp opts chk inot files os st =
     (case parse_options opts CONFIGURATION_FILE of
        Inl e \<Rightarrow> Some (Inl e)
      | Inr None \<Rightarrow> Some (Inr (st, globals_0, 1))
      | Inr (Some fname) \<Rightarrow>
          (let st' = read_spi_conf st; (listensock, bind, created) = chk in
           if start_service_check listensock bind created \<noteq> 0 then Some (Inr (st', globals_0, -1))
           else if inot \<noteq> 0 then Some (Inr (st', globals_0, -1))
           else (case start_udp_service hubpp (os\<lparr>os_file := files (GetConfigFileName fname)\<rparr>) globals_0 of None \<Rightarrow> None
                 | Some r \<Rightarrow> (case r of Inl e \<Rightarrow> Some (Inl e)
                    | Inr (g, res) \<Rightarrow> Some (Inr (st', g, fails (res \<noteq> 0)))))))"

section \<open>What the steps establish\<close>

text \<open>The addresses of a pool's buffers lie inside its block.\<close>

lemma slot_addr_region:
  assumes "unat (buf q) + n * unat (elem_size q) \<le> 2 ^ 64" "i < n" "n \<le> 64" "elem_size q = 99"
  shows "unat (slot_addr q i) = unat (buf q) + i * 99"
proof -
  have "unat (of_nat i * elem_size q) = i * 99"
    using assms(2,3) by (simp add: assms(4) unat_word_ariths unat_of_nat_small)
  then have "unat (ucast (of_nat i * elem_size q) :: u64) = i * 99"
    using assms(2,3) by (simp add: unsigned_ucast_eq take_bit_nat_eq_self)
  then show ?thesis using assms(1,2,4) by (simp add: slot_addr_def unat_word_ariths)
qed

lemma ring_region:
  assumes "ring_repr 6 q ps" "unat (buf q) + 64 * 99 \<le> 2 ^ 64" "elem_size q = 99" "p \<in> set ps"
  shows "unat (buf q) \<le> unat p \<and> unat p < unat (buf q) + 64 * 99"
proof -
  from assms(1) have "ps = map (\<lambda>i. slot_addr q ((unat (tail q) + i) mod 2 ^ 6)) [0..<length ps]"
    by (simp add: ring_repr_def)
  with assms(4) have "p \<in> set (map (\<lambda>i. slot_addr q ((unat (tail q) + i) mod 2 ^ 6)) [0..<length ps])" by metis
  then obtain i where "p = slot_addr q ((unat (tail q) + i) mod 64)" by auto
  then obtain j where "j < 64" "p = slot_addr q j" by (metis mod_less_divisor zero_less_numeral)
  with slot_addr_region [of q 64 j] assms(2,3) show ?thesis by simp
qed

lemma feed_eq:
  assumes "ring_repr k q ps" "fifo_repr cap f xs" "length ps + n \<le> 2 ^ k - 1" "length xs + n \<le> cap"
  shows "\<exists>qs q' f'. feed n q f = Some (q', f') \<and> length qs = n \<and> ring_repr k q' (ps @ qs)
    \<and> fifo_repr cap f' (xs @ qs) \<and> buf q' = buf q \<and> elem_size q' = elem_size q"
  using assms
proof (induction n arbitrary: q ps f xs)
  case (Suc n)
  obtain p q1 where p: "bufpool_getNextFreeBuffer q = Some (p, q1)" "ring_repr k q1 (ps @ [p])"
    using ring.get_free [OF Suc.prems(1)] Suc.prems(3) by auto
  obtain f1 where f: "Fifo_put f p = Some (f1, 0)" "fifo_repr cap f1 (xs @ [p])"
    using Fifo_put_repr [OF Suc.prems(2), of p] Suc.prems(4) by auto
  have b: "buf q1 = buf q" "elem_size q1 = elem_size q"
    using p(1) by (auto simp: bufpool_getNextFreeBuffer_def bufpool_take_def split: if_splits)
  from Suc.IH [OF p(2) f(2)] Suc.prems(3,4) obtain qs q' f' where
    "feed n q1 f1 = Some (q', f')" "length qs = n" "ring_repr k q' ((ps @ [p]) @ qs)"
    "fifo_repr cap f' ((xs @ [p]) @ qs)" "buf q' = buf q1" "elem_size q' = elem_size q1" by auto
  then show ?case using p(1) f(1) b by (intro exI [of _ "p # qs"]) auto
qed auto

text \<open>What a pool and its free queue are after their step.\<close>

definition fed :: "nat \<Rightarrow> ptr \<Rightarrow> BufPool option \<Rightarrow> fifo_descriptor option \<Rightarrow> ptr list \<Rightarrow> bool" where
  "fed cap block q f ps \<longleftrightarrow> length ps = 63 \<and> (\<exists>q' f'. q = Some q' \<and> f = Some f' \<and> ring_repr 6 q' ps
     \<and> fifo_repr cap f' ps \<and> buf q' = block \<and> elem_size q' = 99)"

lemma start_pool_eq:
  assumes "pool g = None" "fifo g = Some f" "fifo_repr cap f []" "63 \<le> cap" "length qname < 256"
    "os_pool os i = Some m" "os_block os i \<noteq> NULL"
  shows "\<exists>q f ps. start_pool os i qname pool fifo set_pool set_fifo g = Some (Inr (set_fifo f (set_pool q g), 0))
    \<and> fed cap (os_block os i) q f ps"
proof -
  let ?q = "m\<lparr>buf := os_block os i, head := 0, tail := 0, elem_count := 64, elem_size := 99, bp_name := qname\<rparr>"
  have c: "create_bufpool (of_nat MAX_BUFFER_ELEMS) (of_nat sizeof_Msg_Buf) (pool g) qname (os_pool os i) (os_block os i)
      = Inr (Some ?q, 0)"
    using assms(1,5,6,7)
    by (simp add: create_bufpool_def MAX_BUFFER_ELEMS_def sizeofs MAX_BUFFER_SIZE_def MAX_BUFFER_COUNT_def BUFFERPOOL_NAME_LEN_def)
  have "ring_repr 6 ?q []" by (simp add: ring_repr_def MAX_BUFFER_SIZE_def)
  from feed_eq [OF this assms(3), of 63] assms(4) obtain qs q' f' where
    "feed 63 ?q f = Some (q', f')" "length qs = 63" "ring_repr 6 q' qs" "fifo_repr cap f' qs" "buf q' = os_block os i"
    "elem_size q' = 99" by auto
  then show ?thesis using c assms(2)
    by (intro exI [of _ "Some q'"] exI [of _ "Some f'"] exI [of _ qs])
      (auto simp: start_pool_def fed_def MAX_BUFFER_ELEMS_def)
qed

lemma start_poolD:
  assumes "start_pool os i qname pool fifo set_pool set_fifo g = Some (Inr (g1, 0))"
    "pool g = None" "fifo g = Some f" "fifo_repr cap f []" "63 \<le> cap" "length qname < 256"
  shows "os_block os i \<noteq> NULL \<and> (\<exists>q f ps. g1 = set_fifo f (set_pool q g) \<and> fed cap (os_block os i) q f ps)"
proof -
  have "\<exists>m. os_pool os i = Some m \<and> os_block os i \<noteq> NULL"
    using assms(1) by (auto simp: start_pool_def create_bufpool_def split: option.splits if_splits)
  then obtain m where m: "os_pool os i = Some m" "os_block os i \<noteq> NULL" by blast
  obtain q f' ps where "start_pool os i qname pool fifo set_pool set_fifo g = Some (Inr (set_fifo f' (set_pool q g), 0))"
    "fed cap (os_block os i) q f' ps"
    using start_pool_eq [of pool g fifo f cap qname os i m set_pool set_fifo, OF assms(2-6) m] by blast
  with assms(1) m(2) show ?thesis by auto
qed

lemma run_steps_ConsE:
  assumes "run_steps (f # fs) g = Some (Inr (g', 0))"
  obtains g1 where "f g = Some (Inr (g1, 0))" "run_steps fs g1 = Some (Inr (g', 0))"
  using assms by (auto split: option.splits sum.splits if_splits)

text \<open>The queues and pools; the other steps leave them alone.\<close>

definition mem_part :: "globals \<Rightarrow> fifo_descriptor option list \<times> BufPool option \<times> BufPool option" where
  "mem_part g = ([g_IotIn g, g_IotOut g, g_fusionIn g, g_fusionOut g, g_rUdpIn g], g_IOT_rxBuffer g, g_fusionRxMsgBuffer g)"

lemma mem_part_frame:
  "start_config os g = Some (Inr (g1, r)) \<Longrightarrow> mem_part g1 = mem_part g"
  "start_server os i port g = Some (Inr (g1, r)) \<Longrightarrow> mem_part g1 = mem_part g"
  "start_client os g = Some (Inr (g1, r)) \<Longrightarrow> mem_part g1 = mem_part g"
  "start_terminals hubpp os g = Some (Inr (g1, r)) \<Longrightarrow> mem_part g1 = mem_part g"
  "start_attr os g = Some (Inr (g1, r)) \<Longrightarrow> mem_part g1 = mem_part g"
  "start_thread os t info g = Some (Inr (g1, r)) \<Longrightarrow> mem_part g1 = mem_part g"
  by (auto simp: mem_part_def start_config_def start_server_def start_client_def start_terminals_def start_attr_def
      start_thread_def Let_def split: prod.splits sum.splits if_splits)

lemma start_fifoD:
  assumes "start_fifo os i upd g = Some (Inr (g1, 0))" "os_pipe_size os = 8 * cap"
  shows "\<exists>f. g1 = upd (Some f) g \<and> fifo_repr cap f []"
proof -
  obtain f where f: "Fifo_create (os_calloc os i) (os_pipe os i) (os_pipe_size os) = Some f" "g1 = upd (Some f) g"
    using assms(1) by (auto simp: start_fifo_def Let_def fails_def split: if_splits)
  then have "os_calloc os i" "os_pipe os i" by (auto simp: Fifo_create_def split: if_splits)
  with f assms(2) show ?thesis using Fifo_create_repr by auto
qed

text \<open>All queues and pools of a successful start.\<close>

lemma start_memory:
  assumes "start_udp_service hubpp os globals_0 = Some (Inr (g, 0))" "os_pipe_size os = 8 * 8192"
  shows "\<exists>A B b d e. fed 8192 (os_block os 0) (g_IOT_rxBuffer g) (g_IotIn g) A
    \<and> fed 8192 (os_block os 1) (g_fusionRxMsgBuffer g) (g_fusionIn g) B
    \<and> g_IotOut g = Some b \<and> g_fusionOut g = Some d \<and> g_rUdpIn g = Some e
    \<and> fifo_repr 8192 b [] \<and> fifo_repr 8192 d [] \<and> fifo_repr 8192 e []
    \<and> os_block os 0 \<noteq> NULL \<and> os_block os 1 \<noteq> NULL"
proof -
  obtain g5 g6 g7 g8 g9 g10 g11 g12 where rest: "mem_part g5 = mem_part globals_0" "mem_part g = mem_part g12" and fifos:
      "start_fifo os 0 (\<lambda>f g. g\<lparr>g_IotIn := f\<rparr>) g5 = Some (Inr (g6, 0))"
      "start_fifo os 1 (\<lambda>f g. g\<lparr>g_IotOut := f\<rparr>) g6 = Some (Inr (g7, 0))"
      "start_fifo os 2 (\<lambda>f g. g\<lparr>g_fusionIn := f\<rparr>) g7 = Some (Inr (g8, 0))"
      "start_fifo os 3 (\<lambda>f g. g\<lparr>g_fusionOut := f\<rparr>) g8 = Some (Inr (g9, 0))"
      "start_fifo os 4 (\<lambda>f g. g\<lparr>g_rUdpIn := f\<rparr>) g9 = Some (Inr (g10, 0))"
    and pools: "start_pool os 0 ''IOT Receive Buffer'' g_IOT_rxBuffer g_IotIn
        (\<lambda>q g. g\<lparr>g_IOT_rxBuffer := q\<rparr>) (\<lambda>f g. g\<lparr>g_IotIn := f\<rparr>) g10 = Some (Inr (g11, 0))"
      "start_pool os 1 ''IOT Transmit Buffer'' g_fusionRxMsgBuffer g_fusionIn
        (\<lambda>q g. g\<lparr>g_fusionRxMsgBuffer := q\<rparr>) (\<lambda>f g. g\<lparr>g_fusionIn := f\<rparr>) g11 = Some (Inr (g12, 0))"
    using assms(1) unfolding start_udp_service_def
    by (elim run_steps_ConsE) (rule that; (assumption | simp add: mem_part_frame))
  have 5: "g_IOT_rxBuffer g5 = None" "g_fusionRxMsgBuffer g5 = None" using rest(1) by (simp_all add: mem_part_def globals_0_def)
  obtain a b c d e where f: "fifo_repr 8192 a []" "fifo_repr 8192 b []" "fifo_repr 8192 c []" "fifo_repr 8192 d []" "fifo_repr 8192 e []"
    and g10: "g10 = g5\<lparr>g_IotIn := Some a, g_IotOut := Some b, g_fusionIn := Some c, g_fusionOut := Some d, g_rUdpIn := Some e\<rparr>"
    using fifos [THEN start_fifoD [OF _ assms(2)]] by auto
  obtain q x A where q: "os_block os 0 \<noteq> NULL" "g11 = g10\<lparr>g_IOT_rxBuffer := q, g_IotIn := x\<rparr>" "fed 8192 (os_block os 0) q x A"
    using start_poolD [OF pools(1), of a 8192] f(1) 5 g10 by auto
  obtain q' x' B where q': "os_block os 1 \<noteq> NULL" "g12 = g11\<lparr>g_fusionRxMsgBuffer := q', g_fusionIn := x'\<rparr>" "fed 8192 (os_block os 1) q' x' B"
    using start_poolD [OF pools(2), of c 8192] f(3) 5 g10 q(2) by auto
  have "mem_part g = ([x, Some b, x', Some d, Some e], q, q')" unfolding rest(2) q'(2) q(2) g10 by (simp add: mem_part_def)
  then have "g_IOT_rxBuffer g = q" "g_IotIn g = x" "g_fusionRxMsgBuffer g = q'" "g_fusionIn g = x'"
    "g_IotOut g = Some b" "g_fusionOut g = Some d" "g_rUdpIn g = Some e" by (simp_all add: mem_part_def)
  with f q(1,3) q'(1,3) show ?thesis by metis
qed

section \<open>A start that succeeds\<close>

text \<open>The operating system refuses nothing but, perhaps, threads.\<close>

definition os_willing :: "os \<Rightarrow> bool" where
  "os_willing os \<longleftrightarrow> (\<forall>i. 0 \<le> os_socket os i) \<and> (\<forall>i. 0 \<le> os_bind os i) \<and> (\<forall>n. os_calloc os n \<and> os_pipe os n)
     \<and> os_pipe_size os = 8 * 8192 \<and> (\<forall>n. os_pool os n \<noteq> None \<and> os_block os n \<noteq> NULL) \<and> os_terminals os
     \<and> os_attr os = 0 \<and> (\<forall>t. 0 \<le> os_thread os t)"

text \<open>
  What the steps build up: the ports, the threads, whether the two pools are still to be made and
  whether the two free queues are there and empty.
\<close>

definition started :: "ports \<Rightarrow> thread_id list \<Rightarrow> bool \<Rightarrow> bool \<Rightarrow> bool \<Rightarrow> bool \<Rightarrow> globals \<Rightarrow> bool" where
  "started ps ts a b ia fa g \<longleftrightarrow> g_ports g = ps \<and> map fst (g_threads g) = ts \<and> (a \<longrightarrow> g_IOT_rxBuffer g = None)
     \<and> (b \<longrightarrow> g_fusionRxMsgBuffer g = None) \<and> (ia \<longrightarrow> (\<exists>f. g_IotIn g = Some f \<and> fifo_repr 8192 f []))
     \<and> (fa \<longrightarrow> (\<exists>f. g_fusionIn g = Some f \<and> fifo_repr 8192 f []))"

lemma run_steps_rule:
  "\<exists>g1. f g = Some (Inr (g1, 0)) \<and> P g1 \<Longrightarrow> (\<And>g1. P g1 \<Longrightarrow> \<exists>g'. run_steps fs g1 = Some (Inr (g', 0)) \<and> Q g')
   \<Longrightarrow> \<exists>g'. run_steps (f # fs) g = Some (Inr (g', 0)) \<and> Q g'"
  by auto

lemma Fifo_create_willing: "os_willing os \<Longrightarrow> \<exists>f. Fifo_create (os_calloc os n) (os_pipe os n) (os_pipe_size os) = Some f \<and> fifo_repr 8192 f []"
  using Fifo_create_repr [of 8192] by (simp add: os_willing_def Fifo_create_def)

lemma started_steps:
  assumes "os_willing os" "started ps ts a b ia fa g"
  shows "\<exists>g1. start_server os i port g = Some (Inr (g1, 0)) \<and> started ps ts a b ia fa g1"
    "\<exists>g1. start_client os g = Some (Inr (g1, 0)) \<and> started ps ts a b ia fa g1"
    "\<exists>g1. start_terminals hubpp os g = Some (Inr (g1, 0)) \<and> started ps ts a b ia fa g1"
    "\<exists>g1. start_attr os g = Some (Inr (g1, 0)) \<and> started ps ts a b ia fa g1"
    "\<exists>g1. start_thread os t info g = Some (Inr (g1, 0))
       \<and> started ps (ts @ filter (\<lambda>t. os_thread os t = 0) [t]) a b ia fa g1"
  using assms
  by (auto simp: os_willing_def start_server_def start_client_def create_server_socket_def bind_server_socket_def
      create_client_socket_def bind_client_address_def Let_def fails_def not_less started_def
      start_terminals_def init_terminal_cluster_def start_attr_def start_thread_def split: prod.splits)

lemma started_fifos:
  assumes "os_willing os" "started ps ts a b ia fa g"
  shows "\<exists>g1. start_fifo os n (\<lambda>f g. g\<lparr>g_IotIn := f\<rparr>) g = Some (Inr (g1, 0)) \<and> started ps ts a b True fa g1"
    "\<exists>g1. start_fifo os n (\<lambda>f g. g\<lparr>g_fusionIn := f\<rparr>) g = Some (Inr (g1, 0)) \<and> started ps ts a b ia True g1"
    "\<exists>g1. start_fifo os n (\<lambda>f g. g\<lparr>g_IotOut := f\<rparr>) g = Some (Inr (g1, 0)) \<and> started ps ts a b ia fa g1"
    "\<exists>g1. start_fifo os n (\<lambda>f g. g\<lparr>g_fusionOut := f\<rparr>) g = Some (Inr (g1, 0)) \<and> started ps ts a b ia fa g1"
    "\<exists>g1. start_fifo os n (\<lambda>f g. g\<lparr>g_rUdpIn := f\<rparr>) g = Some (Inr (g1, 0)) \<and> started ps ts a b ia fa g1"
proof -
  obtain f where "Fifo_create (os_calloc os n) (os_pipe os n) (os_pipe_size os) = Some f" "fifo_repr 8192 f []"
    using Fifo_create_willing [OF assms(1)] by blast
  with assms(2) show
    "\<exists>g1. start_fifo os n (\<lambda>f g. g\<lparr>g_IotIn := f\<rparr>) g = Some (Inr (g1, 0)) \<and> started ps ts a b True fa g1"
    "\<exists>g1. start_fifo os n (\<lambda>f g. g\<lparr>g_fusionIn := f\<rparr>) g = Some (Inr (g1, 0)) \<and> started ps ts a b ia True g1"
    "\<exists>g1. start_fifo os n (\<lambda>f g. g\<lparr>g_IotOut := f\<rparr>) g = Some (Inr (g1, 0)) \<and> started ps ts a b ia fa g1"
    "\<exists>g1. start_fifo os n (\<lambda>f g. g\<lparr>g_fusionOut := f\<rparr>) g = Some (Inr (g1, 0)) \<and> started ps ts a b ia fa g1"
    "\<exists>g1. start_fifo os n (\<lambda>f g. g\<lparr>g_rUdpIn := f\<rparr>) g = Some (Inr (g1, 0)) \<and> started ps ts a b ia fa g1"
    by (simp_all add: start_fifo_def fails_def started_def)
qed

lemma started_pools:
  assumes "os_willing os"
  shows "started ps ts True b True fa g \<Longrightarrow> \<exists>g1. start_pool os i ''IOT Receive Buffer'' g_IOT_rxBuffer g_IotIn
        (\<lambda>q g. g\<lparr>g_IOT_rxBuffer := q\<rparr>) (\<lambda>f g. g\<lparr>g_IotIn := f\<rparr>) g = Some (Inr (g1, 0)) \<and> started ps ts False b False fa g1"
    and "started ps ts a True ia True g \<Longrightarrow> \<exists>g1. start_pool os i ''IOT Transmit Buffer'' g_fusionRxMsgBuffer g_fusionIn
        (\<lambda>q g. g\<lparr>g_fusionRxMsgBuffer := q\<rparr>) (\<lambda>f g. g\<lparr>g_fusionIn := f\<rparr>) g = Some (Inr (g1, 0)) \<and> started ps ts a False ia False g1"
proof -
  have "os_pool os i \<noteq> None" "os_block os i \<noteq> NULL" using assms by (simp_all add: os_willing_def)
  then obtain m where m: "os_pool os i = Some m" "os_block os i \<noteq> NULL" by blast
  show "\<exists>g1. start_pool os i ''IOT Receive Buffer'' g_IOT_rxBuffer g_IotIn
        (\<lambda>q g. g\<lparr>g_IOT_rxBuffer := q\<rparr>) (\<lambda>f g. g\<lparr>g_IotIn := f\<rparr>) g = Some (Inr (g1, 0)) \<and> started ps ts False b False fa g1"
    if s: "started ps ts True b True fa g"
  proof -
    obtain f where "g_IOT_rxBuffer g = None" "g_IotIn g = Some f" "fifo_repr 8192 f []" using s by (auto simp: started_def)
    from start_pool_eq [of g_IOT_rxBuffer g g_IotIn, OF this _ _ m, of "''IOT Receive Buffer''"
        "\<lambda>q g. g\<lparr>g_IOT_rxBuffer := q\<rparr>" "\<lambda>f g. g\<lparr>g_IotIn := f\<rparr>"] s
    show ?thesis by (auto simp: started_def)
  qed
  show "\<exists>g1. start_pool os i ''IOT Transmit Buffer'' g_fusionRxMsgBuffer g_fusionIn
        (\<lambda>q g. g\<lparr>g_fusionRxMsgBuffer := q\<rparr>) (\<lambda>f g. g\<lparr>g_fusionIn := f\<rparr>) g = Some (Inr (g1, 0)) \<and> started ps ts a False ia False g1"
    if s: "started ps ts a True ia True g"
  proof -
    obtain f where "g_fusionRxMsgBuffer g = None" "g_fusionIn g = Some f" "fifo_repr 8192 f []" using s by (auto simp: started_def)
    from start_pool_eq [of g_fusionRxMsgBuffer g g_fusionIn, OF this _ _ m, of "''IOT Transmit Buffer''"
        "\<lambda>q g. g\<lparr>g_fusionRxMsgBuffer := q\<rparr>" "\<lambda>f g. g\<lparr>g_fusionIn := f\<rparr>"] s
    show ?thesis by (auto simp: started_def)
  qed
qed

lemma start_willing:
  assumes w: "os_willing os" and c: "get_configuration (os_file os) (g_ports globals_0) = (ps, 0)"
  shows "\<exists>g. start_udp_service hubpp os globals_0 = Some (Inr (g, 0)) \<and> g_ports g = ps
    \<and> map fst (g_threads g) = filter (\<lambda>t. os_thread os t = 0) [IotReceive, IotTransmit, FusionTransmit, FusionReceive, RUdp, RUdpReq]"
proof -
  have "start_config os globals_0 = Some (Inr (globals_0\<lparr>g_ports := ps\<rparr>, 0))"
    using c by (simp add: start_config_def fails_def)
  moreover have "started ps [] True True False False (globals_0\<lparr>g_ports := ps\<rparr>)" by (simp add: started_def globals_0_def)
  ultimately have 1: "\<exists>g1. start_config os globals_0 = Some (Inr (g1, 0)) \<and> started ps [] True True False False g1" by blast
  have "\<exists>g. start_udp_service hubpp os globals_0 = Some (Inr (g, 0)) \<and> g_ports g = ps \<and> map fst (g_threads g)
    = ((((([] @ filter (\<lambda>t. os_thread os t = 0) [IotReceive]) @ filter (\<lambda>t. os_thread os t = 0) [IotTransmit])
      @ filter (\<lambda>t. os_thread os t = 0) [FusionTransmit]) @ filter (\<lambda>t. os_thread os t = 0) [FusionReceive])
      @ filter (\<lambda>t. os_thread os t = 0) [RUdp]) @ filter (\<lambda>t. os_thread os t = 0) [RUdpReq]"
    unfolding start_udp_service_def
    by (rule run_steps_rule, rule 1, (rule run_steps_rule, (rule started_steps [OF w] started_fifos [OF w] started_pools [OF w], assumption))+)
      (simp add: started_def)
  then show ?thesis by (simp only: filter_append [symmetric] append.simps)
qed

text \<open>
  When nothing but thread creation is refused the start ends
  with result 0, whatever \<open>pthread_create\<close> returned: its errors are positive and only negative
  results are looked at, so exactly the threads whose creation worked are running.
\<close>

theorem startup_ignores_missing_threads:
  assumes "os_willing os" "get_configuration (os_file os) (g_ports globals_0) = (ps, 0)"
  shows "\<exists>g. start_udp_service hubpp os globals_0 = Some (Inr (g, 0)) \<and> g_ports g = ps
    \<and> map fst (g_threads g) = filter (\<lambda>t. os_thread os t = 0) [IotReceive, IotTransmit, FusionTransmit, FusionReceive, RUdp, RUdpReq]"
  by (rule start_willing [OF assms])

text \<open>A machine that refuses the thread of the history.\<close>

definition os_example :: os where
  "os_example = \<lparr> os_file = Some (file_text [(''IOT_Device_Port'', decimal 8080), (''Fusion_RxPort'', decimal 8841), (''Fusion_TxPort'', decimal 8842)]),
     os_socket = (\<lambda>_. 3), os_bind = (\<lambda>_. 0), os_calloc = (\<lambda>_. True), os_pipe = (\<lambda>_. True), os_pipe_size = 8 * 8192,
     os_pool = (\<lambda>_. Some \<lparr> bp_name = [], buf = NULL, head = 7, tail = 7, elem_size = 7, elem_count = 7 \<rparr>),
     os_block = (\<lambda>n. if n = 0 then 4096 else 16384), os_terminals = True, os_attr = 0,
     os_thread = (\<lambda>t. if t = RUdp then 11 else 0) \<rparr>"

lemma os_example_willing: "os_willing os_example"
  by (simp add: os_willing_def os_example_def)

lemma os_example_configuration:
  "get_configuration (os_file os_example) (g_ports globals_0) = (\<lparr> IOTPort = 8080, fusionRxPort = 8841, fusionTxPort = 8842 \<rparr>, 0)"
proof -
  let ?es = "[(''IOT_Device_Port'', decimal 8080), (''Fusion_RxPort'', decimal 8841), (''Fusion_TxPort'', decimal 8842)]"
  have "\<forall>e \<in> set ?es. entry_ok e" by (simp add: entry_ok_def plain_def decimal.simps char_of_def)
  note r = read_port_decimal [OF this]
  have "read_port (Some (file_text ?es)) ''IOT_Device_Port'' = Some (8080, True)"
    "read_port (Some (file_text ?es)) ''Fusion_RxPort'' = Some (8841, True)"
    "read_port (Some (file_text ?es)) ''Fusion_TxPort'' = Some (8842, True)"
    using r [of _ 8080] r [of _ 8841] r [of _ 8842] by simp_all
  then show ?thesis by (simp add: get_configuration_def os_example_def globals_0_def Let_def)
qed

theorem startup_ignores_missing_threads_witness:
  "\<exists>g. start_udp_service True os_example globals_0 = Some (Inr (g, 0))
    \<and> g_ports g = \<lparr> IOTPort = 8080, fusionRxPort = 8841, fusionTxPort = 8842 \<rparr>
    \<and> map fst (g_threads g) = filter (\<lambda>t. os_thread os_example t = 0) [IotReceive, IotTransmit, FusionTransmit, FusionReceive, RUdp, RUdpReq]"
  by (rule startup_ignores_missing_threads [OF os_example_willing os_example_configuration])

section \<open>The invariant holds when the threads start\<close>

lemma start_invariant:
  assumes "start_udp_service hubpp os globals_0 = Some (Inr (g, 0))" "os_pipe_size os = 8 * 8192"
    and "unat (os_block os 0) + 64 * 99 \<le> 2 ^ 64" "unat (os_block os 1) + 64 * 99 \<le> 2 ^ 64"
    and "unat (os_block os 0) + 64 * 99 \<le> unat (os_block os 1) \<or> unat (os_block os 1) + 64 * 99 \<le> unat (os_block os 0)"
    and "\<forall>p. wf_Msg_Buf (mem p)" "length stack = 1500" "wf_Msg_Buf msg"
  shows "\<exists>cl A B. cluster_of g = Some cl \<and> length A = 63 \<and> length B = 63
    \<and> queues (sv (booted mem stack msg ct g cl)) A [] B [] []
    \<and> sys_inv A B (booted mem stack msg ct g cl)"
proof -
  from start_memory [OF assms(1,2)] obtain A B b d e where m:
    "fed 8192 (os_block os 0) (g_IOT_rxBuffer g) (g_IotIn g) A" "fed 8192 (os_block os 1) (g_fusionRxMsgBuffer g) (g_fusionIn g) B"
    "g_IotOut g = Some b" "g_fusionOut g = Some d" "g_rUdpIn g = Some e"
    "fifo_repr 8192 b []" "fifo_repr 8192 d []" "os_block os 0 \<noteq> NULL" "os_block os 1 \<noteq> NULL" by blast
  obtain q a where A: "length A = 63" "g_IotIn g = Some a" "ring_repr 6 q A" "fifo_repr 8192 a A" "buf q = os_block os 0"
    "elem_size q = 99" using m(1) by (auto simp: fed_def)
  obtain q' c where B: "length B = 63" "g_fusionIn g = Some c" "ring_repr 6 q' B" "fifo_repr 8192 c B" "buf q' = os_block os 1"
    "elem_size q' = 99" using m(2) by (auto simp: fed_def)
  let ?cl = "\<lparr> IotThrInFifo = a, IotThrOutFifo = b, fusionThrInFifo = c, fusionThrOutFifo = d, rUdpThrInFifo = e \<rparr>"
  let ?S = "booted mem stack msg ct g ?cl"
  have cl: "cluster_of g = Some ?cl" using A(2) B(2) m(3-5) by (simp add: cluster_of_def)
  have dA: "distinct A" "distinct B" using ring.repr_distinct [OF A(3)] ring.repr_distinct [OF B(3)] by simp_all
  have rA: "unat (os_block os 0) \<le> unat p \<and> unat p < unat (os_block os 0) + 64 * 99" if "p \<in> set A" for p
    using ring_region [OF A(3) _ A(6) that] assms(3) A(5) by simp
  have rB: "unat (os_block os 1) \<le> unat p \<and> unat p < unat (os_block os 1) + 64 * 99" if "p \<in> set B" for p
    using ring_region [OF B(3) _ B(6) that] assms(4) B(5) by simp
  have pos: "0 < unat (os_block os 0)" "0 < unat (os_block os 1)" using m(8,9) by (simp_all add: unat_gt_0)
  have "pools A B"
    unfolding pools_def using dA A(1) B(1) rA rB pos assms(5) by fastforce
  moreover have q: "queues (sv ?S) A [] B [] []" using A(4) B(4) m(6,7) by (simp add: queues_def booted_def hist_repr_def)
  moreover have "owned A B ?S A [] B [] [] []" by (simp add: owned_def booted_def)
  moreover have "contents A ?S [] []"
    using assms(6-8) by (simp add: contents_def booted_def)
  ultimately have "sys_inv A B ?S" by (intro sys_invI) auto
  with cl A(1) B(1) q show ?thesis by blast
qed

text \<open>
  C33: When \<open>start_udp_service\<close> returns 0 and the two blocks of
  memory do not overlap, the state in which the threads start running satisfies the invariant
  of the system, with 63 buffers in each of the two free queues; so does every later state.
\<close>

theorem startup_establishes_invariant:
  assumes "start_udp_service hubpp os globals_0 = Some (Inr (g, 0))" "os_pipe_size os = 8 * 8192"
    and "unat (os_block os 0) + 64 * 99 \<le> 2 ^ 64" "unat (os_block os 1) + 64 * 99 \<le> 2 ^ 64"
    and "unat (os_block os 0) + 64 * 99 \<le> unat (os_block os 1) \<or> unat (os_block os 1) + 64 * 99 \<le> unat (os_block os 0)"
    and "\<forall>p. wf_Msg_Buf (mem p)" "length stack = 1500" "wf_Msg_Buf msg"
  shows "\<exists>cl A B. cluster_of g = Some cl \<and> length A = 63 \<and> length B = 63
    \<and> queues (sv (booted mem stack msg ct g cl)) A [] B [] []
    \<and> sys_inv A B (booted mem stack msg ct g cl)"
  by (rule start_invariant [OF assms])

theorem startup_establishes_invariant_witness:
  "\<exists>g cl A B. start_udp_service True os_example globals_0 = Some (Inr (g, 0)) \<and> cluster_of g = Some cl \<and> length A = 63 \<and> length B = 63
    \<and> queues (sv (booted (\<lambda>_. zero_Msg_Buf) (replicate 1500 0) zero_Msg_Buf \<lparr> service_disabled = False, stats = zero_stats \<rparr> g cl)) A [] B [] []
    \<and> sys_inv A B (booted (\<lambda>_. zero_Msg_Buf) (replicate 1500 0) zero_Msg_Buf \<lparr> service_disabled = False, stats = zero_stats \<rparr> g cl)"
proof -
  obtain g where g: "start_udp_service True os_example globals_0 = Some (Inr (g, 0))"
    using start_willing [OF os_example_willing os_example_configuration] by blast
  have "\<exists>cl A B. cluster_of g = Some cl \<and> length A = 63 \<and> length B = 63
    \<and> queues (sv (booted (\<lambda>_. zero_Msg_Buf) (replicate 1500 0) zero_Msg_Buf \<lparr> service_disabled = False, stats = zero_stats \<rparr> g cl)) A [] B [] []
    \<and> sys_inv A B (booted (\<lambda>_. zero_Msg_Buf) (replicate 1500 0) zero_Msg_Buf \<lparr> service_disabled = False, stats = zero_stats \<rparr> g cl)"
    by (rule startup_establishes_invariant [OF g]) (simp_all add: os_example_def)
  with g show ?thesis by blast
qed

section \<open>\<open>main\<close> on a willing machine\<close>

lemma parse_options_files:
  "\<forall>f \<in> set fs. length f < 256 \<Longrightarrow> parse_options (map (Pair (CHR ''i'')) fs) f = Inr (Some (last (f # fs)))"
  by (induction fs arbitrary: f) (auto simp: SetConfigFileName_def)

lemma main_start_willing:
  assumes "\<forall>f \<in> set fs. length f < 256" "os_willing os" "0 \<le> l" "b control_address = 0"
    and "get_configuration (files (last (CONFIGURATION_FILE # fs))) (g_ports globals_0) = (ps, 0)"
  defines "os' \<equiv> os\<lparr>os_file := files (last (CONFIGURATION_FILE # fs))\<rparr>"
  shows "\<exists>g. main_start hubpp (map (Pair (CHR ''i'')) fs) (l, b, 0) 0 files os st = Some (Inr (st\<lparr>service_disabled := False\<rparr>, g, 0))
    \<and> start_udp_service hubpp os' globals_0 = Some (Inr (g, 0)) \<and> g_ports g = ps
    \<and> map fst (g_threads g) = filter (\<lambda>t. os_thread os t = 0) [IotReceive, IotTransmit, FusionTransmit, FusionReceive, RUdp, RUdpReq]"
proof -
  have "os_willing os'" using assms(2) by (simp add: os_willing_def os'_def)
  from start_willing [OF this, of ps hubpp] assms(5) obtain g where
    "start_udp_service hubpp os' globals_0 = Some (Inr (g, 0))"
    "g_ports g = ps" "map fst (g_threads g) = filter (\<lambda>t. os_thread os t = 0) [IotReceive, IotTransmit, FusionTransmit, FusionReceive, RUdp, RUdpReq]"
    by (auto simp: os'_def)
  then show ?thesis using assms(3,4) parse_options_files [OF assms(1), of CONFIGURATION_FILE]
    by (simp add: main_start_def Let_def start_service_check_def fails_def read_spi_conf_def SERVICE_ID_BLE_def SERVICE_ID_UDP_def os'_def)
qed

end
