(* ===== verification/Thread_Loops.thy ===== *)
theory Thread_Loops
  imports Network Startup
begin

text \<open>
  The loops around the four data threads of \<open>src/hs_udp_service.c\<close>: each makes an epoll instance,
  adds its socket and then waits before every round until the socket is ready.  What the epoll
  calls answer is an argument, \<open>err\<close> is the text of \<open>errno\<close>.  On these loops rests a system in
  which threads can be missing from the start and can end.
\<close>

section \<open>The loops\<close>

definition EPOLLIN :: u32 where "EPOLLIN = 0x001"
definition EPOLLOUT :: u32 where "EPOLLOUT = 0x004"

text \<open>
  A thread has to make its epoll instance, or waits for it, or runs the body of its loop, or has
  returned.
\<close>

datatype phase = Starting | Polling | Running | Ended

text \<open>
  The statements before the loop: \<open>add\<close> is what \<open>epoll_ctl\<close> answers to the events asked for.  The
  instance is not closed when the thread returns.
\<close>

definition iot_receive_start :: "string \<Rightarrow> int \<Rightarrow> (u32 \<Rightarrow> int) \<Rightarrow> phase \<times> log_call list" where
  "iot_receive_start err epollFd add =
     (if epollFd = -1 then (Ended, [Log_error (''Failed to create epoll instance. Error - '' @ err)])
      else if add EPOLLIN = -1
      then (Ended, [Log_error (''Failed to add listening socket for read events. Error - '' @ err)])
      else (Polling, []))"

definition iot_transmit_start :: "string \<Rightarrow> int \<Rightarrow> (u32 \<Rightarrow> int) \<Rightarrow> phase \<times> log_call list" where
  "iot_transmit_start err epollFd add =
     (if epollFd = -1 then (Ended, [Log_error (''Failed to create epoll instance. Error - '' @ err)])
      else if add EPOLLOUT = -1
      then (Ended, [Log_error (''Failed to add listening socket for read events. Error - '' @ err)])
      else (Polling, []))"

definition fusion_transmit_start :: "string \<Rightarrow> int \<Rightarrow> (u32 \<Rightarrow> int) \<Rightarrow> phase \<times> log_call list" where
  "fusion_transmit_start err epollTxFd add =
     (if epollTxFd = -1 then (Ended, [Log_error (''Failed to create epoll instance. Error - '' @ err)])
      else if add EPOLLOUT = -1
      then (Ended, [Log_error (''Failed to add listening socket for read events. Error - '' @ err)])
      else (Polling, []))"

definition fusion_receive_start :: "string \<Rightarrow> int \<Rightarrow> (u32 \<Rightarrow> int) \<Rightarrow> phase \<times> log_call list" where
  "fusion_receive_start err epollRxFd add =
     (if epollRxFd = -1 then (Ended, [Log_error (''Failed to create epoll instance. Error - '' @ err)])
      else if add EPOLLIN = -1
      then (Ended, [Log_error (''Failed to add listening socket for read events. Error - '' @ err)])
      else (Polling, []))"

text \<open>
  The head of the loop on the result of \<open>epoll_wait\<close>; \<open>iot_receive_routine\<close> sleeps after a timeout,
  for the microseconds given.  Every failure ends the thread, \<open>EINTR\<close> included.
\<close>

definition iot_receive_wait :: "string \<Rightarrow> int \<Rightarrow> phase \<times> nat \<times> log_call list" where
  "iot_receive_wait err waitFds =
     (if waitFds = -1 then (Ended, 0, [Log_error (''Listen on receive socket failed.Error - '' @ err)])
      else if waitFds = 0 then (Polling, 10000, [])
      else (Running, 0, []))"

definition iot_transmit_wait :: "string \<Rightarrow> int \<Rightarrow> phase \<times> log_call list" where
  "iot_transmit_wait err waitFds =
     (if waitFds = -1 then (Ended, [Log_error (''Listen on transmit socket failed.Error - '' @ err)])
      else if waitFds = 0 then (Polling, [])
      else (Running, []))"

definition fusion_transmit_wait :: "string \<Rightarrow> int \<Rightarrow> phase \<times> log_call list" where
  "fusion_transmit_wait err waitFds =
     (if waitFds = -1 then (Ended, [Log_error (''Listen on receive socket failed.Error - '' @ err)])
      else if waitFds = 0 then (Polling, [])
      else (Running, []))"

definition fusion_receive_wait :: "string \<Rightarrow> int \<Rightarrow> phase \<times> log_call list" where
  "fusion_receive_wait err waitFds =
     (if waitFds = -1 then (Ended, [Log_error (''Listen on receive socket failed.Error - '' @ err)])
      else if waitFds = 0 then (Polling, [])
      else (Running, []))"

lemmas loop_defs = iot_receive_start_def iot_transmit_start_def fusion_transmit_start_def fusion_receive_start_def
  iot_receive_wait_def iot_transmit_wait_def fusion_transmit_wait_def fusion_receive_wait_def

text \<open>\<open>debug_buffer\<close>, which nothing calls: one call of the log for each byte.\<close>

definition fmt_02x :: "byte \<Rightarrow> string" where
  "fmt_02x b = (if b < 16 then CHR ''0'' # hex (unat b) else hex (unat b))"

definition debug_buffer :: "string \<Rightarrow> byte list \<Rightarrow> int \<Rightarrow> c_error + log_call list" where
  "debug_buffer msg buffer bufLen =
     (if int (length buffer) < bufLen then Inl OutOfBounds
      else Inr (Log_error (msg @ '' - '') # map (\<lambda>b. Log_info (''0x'' @ fmt_02x b @ '' '')) (take (nat bufLen) buffer)))"

section \<open>The system with its loops\<close>

record polled =
  psys :: system
  ph :: "thread_id \<Rightarrow> phase"

text \<open>A data thread is back at the head of its loop.\<close>

fun at_head :: "thread_id \<Rightarrow> system \<Rightarrow> bool" where
  "at_head IotReceive S \<longleftrightarrow> rx_pc (trx S) = RxWait"
| "at_head IotTransmit S \<longleftrightarrow> tx_pc (ttx S) = TxGet"
| "at_head FusionTransmit S \<longleftrightarrow> ft_pc (tft S) = FtGet"
| "at_head FusionReceive S \<longleftrightarrow> fr_pc (tfr S) = FrRecv"
| "at_head RUdp S \<longleftrightarrow> False"
| "at_head RUdpReq S \<longleftrightarrow> False"

text \<open>What a thread does before its loop and at its head; the background threads have no epoll.\<close>

inductive loop_step :: "thread_id \<Rightarrow> phase \<Rightarrow> phase \<Rightarrow> bool" where
  "iot_receive_start err fd add = (f, logs) \<Longrightarrow> loop_step IotReceive Starting f"
| "iot_transmit_start err fd add = (f, logs) \<Longrightarrow> loop_step IotTransmit Starting f"
| "fusion_transmit_start err fd add = (f, logs) \<Longrightarrow> loop_step FusionTransmit Starting f"
| "fusion_receive_start err fd add = (f, logs) \<Longrightarrow> loop_step FusionReceive Starting f"
| "iot_receive_wait err n = (f, us, logs) \<Longrightarrow> loop_step IotReceive Polling f"
| "iot_transmit_wait err n = (f, logs) \<Longrightarrow> loop_step IotTransmit Polling f"
| "fusion_transmit_wait err n = (f, logs) \<Longrightarrow> loop_step FusionTransmit Polling f"
| "fusion_receive_wait err n = (f, logs) \<Longrightarrow> loop_step FusionReceive Polling f"

inductive polled_step :: "polled \<Rightarrow> sent list \<Rightarrow> polled \<Rightarrow> bool" where
  loop: "loop_step i (ph P i) f \<Longrightarrow> polled_step P [] (P\<lparr>ph := (ph P)(i := f)\<rparr>)"
| body: "ph P i = Running \<Longrightarrow> thread_step (Thread i) (psys P) out S'
    \<Longrightarrow> polled_step P out (P\<lparr>psys := S', ph := (ph P)(i := if at_head i S' then Polling else Running)\<rparr>)"
| start_history: "ph P RUdp = Starting
    \<Longrightarrow> polled_step P [] (P\<lparr>psys := (psys P)\<lparr>sv := r_udp_start (sv (psys P))\<rparr>, ph := (ph P)(RUdp := Running)\<rparr>)"
| start_sweep: "ph P RUdpReq = Starting
    \<Longrightarrow> polled_step P [] (P\<lparr>psys := (psys P)\<lparr>sv := r_udp_req_start (sv (psys P))\<rparr>, ph := (ph P)(RUdpReq := Running)\<rparr>)"
| control: "thread_step ControlThread (psys P) out S' \<Longrightarrow> polled_step P out (P\<lparr>psys := S'\<rparr>)"

inductive_cases loop_stepE: "loop_step i f f'"

inductive polled_run :: "polled \<Rightarrow> sent list \<Rightarrow> polled \<Rightarrow> bool" where
  stop: "polled_run P [] P"
| step: "polled_step P out P' \<Longrightarrow> polled_run P' outs P'' \<Longrightarrow> polled_run P (out @ outs) P''"

text \<open>The threads that \<open>start_udp_service\<close> could create are about to start; the others never run.\<close>

definition launched :: "globals \<Rightarrow> system \<Rightarrow> polled" where
  "launched g S = \<lparr> psys = S, ph = (\<lambda>i. if i \<in> set (map fst (g_threads g)) then Starting else Ended) \<rparr>"

section \<open>What every run of the loops keeps\<close>

lemma polled_step_sys:
  "polled_step P out P' \<Longrightarrow> psys P' = psys P \<and> out = [] \<or> sys_step (psys P) out (psys P')"
proof (induction rule: polled_step.induct)
  case (start_history P)
  show ?case using sys_step.any [OF thread_step.r_udp_start [of "psys P"]] by simp
next
  case (start_sweep P)
  show ?case using sys_step.any [OF thread_step.r_udp_req_start [of "psys P"]] by simp
qed (auto intro: sys_step.any)

lemma polled_run_inv: "polled_run P outs P' \<Longrightarrow> sys_inv A B (psys P) \<Longrightarrow> sys_inv A B (psys P')"
proof (induction rule: polled_run.induct)
  case (step P out P' outs P'')
  then show ?case using polled_step_sys [OF step.hyps(1)] by (auto dest: sys_step_inv)
qed

lemma polled_run_reachable:
  assumes "polled_run P outs P'" "reachable S0 (psys P)" shows "reachable S0 (psys P')"
  using assms
proof (induction rule: polled_run.induct)
  case (step P out P' outs P'')
  then show ?case using polled_step_sys [OF step.hyps(1)] by (auto intro: reachable.step)
qed

text \<open>A step of one thread does not move the others.\<close>

lemma at_head_other: "thread_step a S out S' \<Longrightarrow> a \<noteq> Thread j \<Longrightarrow> at_head j S' = at_head j S"
  by (erule thread_step.cases; cases j) simp_all

lemma sockTx_kept: "thread_step a S out S' \<Longrightarrow> sockTx (sv S) \<Longrightarrow> sockTx (sv S')"
proof (induction rule: thread_step.induct)
  case (fr_recv S bs w s)
  then show ?case by (auto simp: fusion_rx_recv_def hist_find_frag_def hist_linger_def store_upd_def Let_def split: option.splits if_splits)
next
  case (fr_reply S w s out)
  then show ?case by (auto simp: fusion_rx_reply_def send_reply_def store_upd_def Let_def split: sum.splits if_splits)
next
  case (tx_lookup S env u s out)
  then show ?case using tx_frame_steps(1) by (auto simp: tx_frame_def)
next
  case (tx_store S env u s out)
  then show ?case using tx_frame_steps(2) by (auto simp: tx_frame_def)
next
  case (tx_send S u s out)
  then show ?case using tx_frame_steps(3) by (auto simp: tx_frame_def)
next
  case (r_udp clock S s)
  then show ?case using r_udp_round_frame by (auto simp: history_frame_def)
qed (auto simp: iot_rx_recv_def iot_rx_get_def iot_rx_put_def iot_tx_get_def iot_tx_put_def fusion_tx_get_def fusion_tx_push_def
    hist_push_frag_def fusion_rx_get_def fusion_rx_put_def r_udp_start_def r_udp_req_start_def r_udp_req_round_def control_round_def
    store_upd_def Let_def split: prod.splits if_splits option.splits sum.splits)

text \<open>
  A thread outside of its body is at the head of its loop, a missing or ended one stays so, and
  the history thread has set its socket once it runs.
\<close>

definition loop_inv :: "polled \<Rightarrow> bool" where
  "loop_inv P \<longleftrightarrow> (\<forall>i. i \<noteq> RUdp \<and> i \<noteq> RUdpReq \<and> ph P i \<noteq> Running \<longrightarrow> at_head i (psys P))
     \<and> ph P RUdp \<noteq> Polling \<and> ph P RUdpReq \<noteq> Polling \<and> (ph P RUdp = Running \<longrightarrow> sockTx (sv (psys P)))"

lemma loop_step_threads: "loop_step i f f' \<Longrightarrow> i \<noteq> RUdp \<and> i \<noteq> RUdpReq \<and> f \<noteq> Running \<and> f \<noteq> Ended"
  by (cases rule: loop_step.cases) auto

lemma polled_step_loop_inv:
  assumes "polled_step P out P'" "loop_inv P"
  shows "loop_inv P'"
  using assms
proof (induction rule: polled_step.induct)
  case (loop i P f)
  then show ?case using loop_step_threads [OF loop(1)] by (auto simp: loop_inv_def)
next
  case (body P i out S')
  then show ?case using at_head_other [OF body(2)] sockTx_kept [OF body(2)]
    by (cases i) (auto simp: loop_inv_def)
next
  case (control P out S')
  then show ?case using at_head_other [OF control(1)] sockTx_kept [OF control(1)]
    by (auto simp: loop_inv_def)
qed (auto simp: loop_inv_def r_udp_start_def r_udp_req_start_def elim!: at_head.elims)

lemma polled_step_ended: "polled_step P out P' \<Longrightarrow> ph P i = Ended \<Longrightarrow> ph P' i = Ended"
  by (induction rule: polled_step.induct) (auto dest: loop_step_threads)

lemma polled_run_loop_inv:
  "polled_run P outs P' \<Longrightarrow> loop_inv P \<Longrightarrow> loop_inv P' \<and> (\<forall>i. ph P i = Ended \<longrightarrow> ph P' i = Ended)"
  by (induction rule: polled_run.induct) (auto dest: polled_step_loop_inv polled_step_ended)

section \<open>From boot\<close>

lemma launched_inv: "loop_inv (launched g (booted mem stack msg ct g cl))"
proof -
  have "at_head i (booted mem stack msg ct g cl)" if "i \<noteq> RUdp" "i \<noteq> RUdpReq" for i
    using that by (cases i) (simp_all add: booted_def)
  then show ?thesis by (simp add: loop_inv_def launched_def)
qed

text \<open>
  C34: After a successful \<open>start_udp_service\<close>, in whatever order the threads that were
  created run, and wherever their epoll calls fail, the invariant of the system holds; a thread
  that was not created never runs; a thread that is not in the body of its loop, one that has
  returned included, is at its head and holds no buffer; and once \<open>r_udp_routine\<close> has started none
  of the threads around the queues runs into undefined behaviour.
\<close>

theorem threads_from_boot:
  assumes "start_udp_service hubpp os globals_0 = Some (Inr (g, 0))" "os_pipe_size os = 8 * 8192"
    and "unat (os_block os 0) + 64 * 99 \<le> 2 ^ 64" "unat (os_block os 1) + 64 * 99 \<le> 2 ^ 64"
    and "unat (os_block os 0) + 64 * 99 \<le> unat (os_block os 1) \<or> unat (os_block os 1) + 64 * 99 \<le> unat (os_block os 0)"
    and "\<forall>p. wf_Msg_Buf (mem p)" "length stack = 1500" "wf_Msg_Buf msg" "cluster_of g = Some cl"
    and run: "polled_run (launched g (booted mem stack msg ct g cl)) outs P"
  shows "(\<exists>A B. length A = 63 \<and> length B = 63 \<and> sys_inv A B (psys P))
    \<and> (\<forall>i. i \<notin> set (map fst (g_threads g)) \<longrightarrow> ph P i = Ended)
    \<and> (\<forall>i \<in> {IotReceive, IotTransmit, FusionTransmit, FusionReceive}. ph P i \<noteq> Running \<longrightarrow> at_head i (psys P))
    \<and> (ph P RUdp = Running \<longrightarrow> \<not> sender_fault (psys P))"
proof -
  obtain A B where AB: "length A = 63" "length B = 63" "sys_inv A B (booted mem stack msg ct g cl)"
    using start_invariant [OF assms(1-8), of ct] assms(9) by fastforce
  have inv: "sys_inv A B (psys P)" by (rule polled_run_inv [OF run]) (simp add: launched_def AB(3))
  note l = polled_run_loop_inv [OF run launched_inv]
  have "\<forall>i. i \<notin> set (map fst (g_threads g)) \<longrightarrow> ph P i = Ended" using l by (auto simp: launched_def)
  moreover have "\<forall>i \<in> {IotReceive, IotTransmit, FusionTransmit, FusionReceive}. ph P i \<noteq> Running \<longrightarrow> at_head i (psys P)"
    using l by (auto simp: loop_inv_def)
  moreover have "ph P RUdp = Running \<longrightarrow> \<not> sender_fault (psys P)"
    using l sender_fault_iff [OF inv] by (auto simp: loop_inv_def)
  ultimately show ?thesis using AB(1,2) inv by blast
qed

theorem threads_from_boot_witness:
  "\<exists>g cl P. start_udp_service True os_example globals_0 = Some (Inr (g, 0)) \<and> ph P IotReceive = Ended
    \<and> polled_run (launched g (booted (\<lambda>_. zero_Msg_Buf) (replicate 1500 0) zero_Msg_Buf
          \<lparr> service_disabled = False, stats = zero_stats \<rparr> g cl)) [] P
    \<and> (\<exists>A B. length A = 63 \<and> length B = 63 \<and> sys_inv A B (psys P)) \<and> at_head IotReceive (psys P)"
proof -
  obtain g where g: "start_udp_service True os_example globals_0 = Some (Inr (g, 0))"
    "map fst (g_threads g) = filter (\<lambda>t. os_thread os_example t = 0) [IotReceive, IotTransmit, FusionTransmit, FusionReceive, RUdp, RUdpReq]"
    using start_willing [OF os_example_willing os_example_configuration] by blast
  have o: "os_pipe_size os_example = 8 * 8192" "unat (os_block os_example 0) + 64 * 99 \<le> 2 ^ 64" "unat (os_block os_example 1) + 64 * 99 \<le> 2 ^ 64"
    "unat (os_block os_example 0) + 64 * 99 \<le> unat (os_block os_example 1) \<or> unat (os_block os_example 1) + 64 * 99 \<le> unat (os_block os_example 0)"
    "os_thread os_example IotReceive = 0"
    by (simp_all add: os_example_def)
  have w: "\<forall>p :: ptr. wf_Msg_Buf zero_Msg_Buf" "length (replicate 1500 (0 :: byte)) = 1500" "wf_Msg_Buf zero_Msg_Buf"
    by simp_all
  obtain cl where cl: "cluster_of g = Some cl" using start_invariant [OF g(1) o(1-4) w] by blast
  let ?P = "launched g (booted (\<lambda>_. zero_Msg_Buf) (replicate 1500 0) zero_Msg_Buf \<lparr> service_disabled = False, stats = zero_stats \<rparr> g cl)"
  have "ph ?P IotReceive = Starting" using g(2) o(5) by (simp add: launched_def)
  moreover have "loop_step IotReceive Starting Ended"
    by (rule loop_step.intros(1) [of "[]" "-1" "\<lambda>_. 0"]) (simp add: iot_receive_start_def)
  ultimately have "polled_step ?P [] (?P\<lparr>ph := (ph ?P)(IotReceive := Ended)\<rparr>)"
    using polled_step.loop [of IotReceive ?P Ended] by simp
  from polled_run.step [OF this polled_run.stop]
  have run: "polled_run ?P [] (?P\<lparr>ph := (ph ?P)(IotReceive := Ended)\<rparr>)" by simp
  from threads_from_boot [OF g(1) o(1-4) w cl run] g(1) run show ?thesis
    by (intro exI [of _ g] exI [of _ cl] exI [of _ "?P\<lparr>ph := (ph ?P)(IotReceive := Ended)\<rparr>"]) auto
qed

section \<open>A thread that has returned\<close>

text \<open>The messages \<open>iot_transmit_routine\<close> may still hand to the device: those queued and the one in its hands.\<close>

definition in_hand :: "iot_tx \<Rightarrow> nat" where
  "in_hand t = (if tx_pc t \<in> {TxLookup, TxStore, TxSend} then 1 else 0)"

definition deliverable :: "system \<Rightarrow> nat \<Rightarrow> bool" where
  "deliverable S n \<longleftrightarrow> (\<exists>ps. fifo_repr 8192 (fusionThrOutFifo (cluster (sv S))) ps \<and> length ps + in_hand (ttx S) = n)"

lemma deliverableI:
  "fifo_repr 8192 (fusionThrOutFifo (cluster (sv S))) ps \<Longrightarrow> deliverable S (length ps + in_hand (ttx S))"
  by (auto simp: deliverable_def)

lemma deliverable_transmit:
  assumes "thread_step (Thread IotTransmit) S out S'" "deliverable S n"
  shows "\<exists>n'. deliverable S' n' \<and> n' + length (to_device out) \<le> n"
proof -
  obtain ps where ps: "fifo_repr 8192 (fusionThrOutFifo (cluster (sv S))) ps" "length ps + in_hand (ttx S) = n"
    using assms(2) by (auto simp: deliverable_def)
  have keeps: ?thesis if "tx_frame (ttx S) (sv S) u s" "S' = S\<lparr>ttx := u, sv := s\<rparr>"
    "length (to_device out) + in_hand u \<le> in_hand (ttx S)" for u s
    using that ps deliverableI [of S' ps] by (intro exI [of _ "length ps + in_hand u"]) (simp add: tx_frame_def)
  show ?thesis using assms(1)
  proof (cases rule: thread_step.cases)
    case (tx_get u s)
    then obtain f r p where g: "Fifo_get (fusionThrOutFifo (cluster (sv S))) (tx_dataPayLoad (ttx S)) = Some (f, r, p)"
      by (auto simp: iot_tx_get_def split: option.splits)
    obtain qs where q: "ps = p # qs" "fifo_repr 8192 f qs" using Fifo_get_SomeD [OF ps(1) g] by blast
    have "fifo_repr 8192 (fusionThrOutFifo (cluster (sv S'))) qs" "in_hand (ttx S') = 1" "in_hand (ttx S) = 0" "out = []"
      using tx_get g q(2) by (auto simp: iot_tx_get_def in_hand_def split: if_splits)
    then show ?thesis using deliverableI [of S' qs] q(1) ps(2) by auto
  next
    case (tx_lookup env u s)
    then show ?thesis
      by (intro keeps [OF tx_frame_steps(1)]) (auto simp: iot_tx_lookup_def in_hand_def Let_def split: if_splits sum.splits)
  next
    case (tx_store env u s)
    then show ?thesis
      by (intro keeps [OF tx_frame_steps(2)]) (auto simp: iot_tx_store_def iot_tx_sent_def in_hand_def Let_def split: if_splits sum.splits)
  next
    case (tx_send u s)
    then show ?thesis
      by (intro keeps [OF tx_frame_steps(3)]) (auto simp: iot_tx_send_def iot_tx_sent_def in_hand_def Let_def split: sum.splits prod.splits)
  next
    case (tx_put u s)
    then have "fusionThrOutFifo (cluster (sv S')) = fusionThrOutFifo (cluster (sv S))" "in_hand (ttx S') = 0" "in_hand (ttx S) = 0" "out = []"
      by (auto simp: iot_tx_put_def in_hand_def split: option.splits)
    then show ?thesis using deliverableI [of S' ps] ps by auto
  qed
qed

lemma deliverable_actor:
  assumes "thread_step a S out S'" "a \<noteq> Thread FusionReceive" "deliverable S n"
  shows "\<exists>n'. deliverable S' n' \<and> n' + length (to_device out) \<le> n"
proof (cases "a = Thread IotTransmit")
  case True
  then show ?thesis using deliverable_transmit assms by blast
next
  case False
  from bystander_frame [OF assms(1,2) this] assms(3) show ?thesis
    by (intro exI [of _ n]) (simp add: deliverable_def)
qed

lemma deliverable_step:
  assumes "polled_step P out P'" "ph P FusionReceive = Ended" "deliverable (psys P) n"
  shows "\<exists>n'. deliverable (psys P') n' \<and> n' + length (to_device out) \<le> n"
  using assms
proof (cases rule: polled_step.cases)
  case (body i S')
  then have "Thread i \<noteq> Thread FusionReceive" using assms(2) by auto
  from deliverable_actor [OF body(3) this assms(3)] body(1) show ?thesis by simp
next
  case (control S')
  then show ?thesis using deliverable_actor [OF control(2) _ assms(3)] by simp
next
  case start_history
  then show ?thesis using assms(3) by (intro exI [of _ n]) (simp add: deliverable_def r_udp_start_def)
next
  case start_sweep
  then show ?thesis using assms(3) by (intro exI [of _ n]) (simp add: deliverable_def r_udp_req_start_def)
qed (auto intro: exI [of _ n])

text \<open>
  C35: \<open>fusion_receive_routine\<close> returns when an epoll call fails, or was
  never created, and nothing notices.  From then on the device gets at most one more datagram for
  each message that was queued, and one for the message \<open>iot_transmit_routine\<close> was working on,
  however long the other threads run.
\<close>

theorem ended_receiver_bounds_delivery:
  assumes "polled_run P outs P'" "ph P FusionReceive = Ended" "queues (sv (psys P)) ins outq fin fout hs"
  shows "length (to_device outs) \<le> length fout + in_hand (ttx (psys P))"
proof -
  have "\<exists>n'. deliverable (psys P') n' \<and> n' + length (to_device outs) \<le> n"
    if "deliverable (psys P) n" for n
    using assms(1,2) that
  proof (induction arbitrary: n rule: polled_run.induct)
    case (step P out P' outs P'')
    obtain n1 where n1: "deliverable (psys P') n1" "n1 + length (to_device out) \<le> n"
      using deliverable_step [OF step.hyps(1) step.prems] by blast
    have "ph P' FusionReceive = Ended" using polled_step_ended [OF step.hyps(1) step.prems(1)] .
    from step.IH [OF this n1(1)] n1(2) show ?case by force
  qed auto
  moreover have "deliverable (psys P) (length fout + in_hand (ttx (psys P)))"
    by (rule deliverableI) (use assms(3) in \<open>simp add: queues_def\<close>)
  ultimately show ?thesis by fastforce
qed

text \<open>All threads have returned but \<open>iot_transmit_routine\<close>; one message is queued for it.\<close>

definition last_message :: polled where
  "last_message = \<lparr> psys = system_1\<lparr>sv := (sv system_1)\<lparr>cluster := cluster_example\<lparr>fusionThrOutFifo := one_pointer 200\<rparr>\<rparr>\<rparr>,
     ph = (\<lambda>i. if i = IotTransmit then Running else Ended) \<rparr>"

lemma last_message_queues: "queues (sv (psys last_message)) [] [] [] [200] []"
  by (simp add: queues_def last_message_def system_1_def fifo_repr_def one_pointer_def service_3_def cluster_example_def hist_repr_def Let_def)

theorem ended_receiver_bounds_delivery_witness:
  "\<exists>P'. polled_run last_message [] P' \<and> tx_pc (ttx (psys P')) = TxLookup
     \<and> length (to_device []) \<le> length [200 :: ptr] + in_hand (ttx (psys last_message))"
proof -
  let ?S = "psys last_message"
  have p: "ph last_message IotTransmit = Running" "ph last_message FusionReceive = Ended" "tx_pc (ttx ?S) = TxGet"
    by (simp_all add: last_message_def system_1_def)
  have "fifo_repr 8192 (fusionThrOutFifo (cluster (sv ?S))) (200 # [])" using last_message_queues by (simp add: queues_def)
  from Fifo_get_repr [OF this, of "tx_dataPayLoad (ttx ?S)"] obtain f where
    f: "Fifo_get (fusionThrOutFifo (cluster (sv ?S))) (tx_dataPayLoad (ttx ?S)) = Some (f, 0, 200)" by blast
  let ?u = "(ttx ?S)\<lparr>tx_dataPayLoad := 200, tx_msgHandle := None, tx_pc := TxLookup\<rparr>"
    and ?s = "(sv ?S)\<lparr>cluster := (cluster (sv ?S))\<lparr>fusionThrOutFifo := f\<rparr>\<rparr>"
  have "thread_step (Thread IotTransmit) ?S [] (?S\<lparr>ttx := ?u, sv := ?s\<rparr>)"
    by (rule thread_step.tx_get [OF p(3)]) (simp add: iot_tx_get_def f)
  from polled_step.body [OF p(1) this] obtain P' where
    P': "polled_step last_message [] P'" "ttx (psys P') = ?u" by fastforce
  from polled_run.step [OF P'(1) polled_run.stop] have run: "polled_run last_message [] P'" by simp
  have "length (to_device []) \<le> length [200 :: ptr] + in_hand (ttx ?S)"
    by (rule ended_receiver_bounds_delivery [OF run p(2) last_message_queues])
  with run P'(2) show ?thesis by (intro exI [of _ P']) simp
qed

end
