(* ===== verification/Lock_Spec.thy ===== *)
theory Lock_Spec
  imports Main
begin

text \<open>
  The contract of a lock that its holder may take again.  \<open>holds t s d\<close>: thread \<open>t\<close> has the lock
  of state \<open>s\<close> taken \<open>d\<close> times and no other thread has it.  \<open>rest\<close> is the part of the state that
  locking leaves alone.
\<close>

text \<open>A body run between taking and giving back the lock; \<open>None\<close> when the caller has to wait.\<close>

definition bracket :: "('t \<Rightarrow> 's \<Rightarrow> ('e + 's) option) \<Rightarrow> ('t \<Rightarrow> 's \<Rightarrow> 'e + 's) \<Rightarrow> 't
    \<Rightarrow> ('s \<Rightarrow> 'e + ('s \<times> 'a)) \<Rightarrow> 's \<Rightarrow> ('e + ('s \<times> 'a)) option" where
  "bracket lock unlock t f s =
     (case lock t s of None \<Rightarrow> None
      | Some r \<Rightarrow> Some (case r of Inl e \<Rightarrow> Inl e
         | Inr s1 \<Rightarrow> (case f s1 of Inl e \<Rightarrow> Inl e
            | Inr (s2, x) \<Rightarrow> (case unlock t s2 of Inl e \<Rightarrow> Inl e | Inr s3 \<Rightarrow> Inr (s3, x)))))"

locale recursive_lock =
  fixes holds :: "'t \<Rightarrow> 's \<Rightarrow> nat \<Rightarrow> bool"
    and lock :: "'t \<Rightarrow> 's \<Rightarrow> ('e + 's) option"
    and unlock :: "'t \<Rightarrow> 's \<Rightarrow> 'e + 's"
    and rest :: "'s \<Rightarrow> 'r"
  assumes lock_holds: "holds t s d \<Longrightarrow> \<exists>s'. lock t s = Some (Inr s') \<and> holds t s' (Suc d) \<and> rest s' = rest s"
    and unlock_holds: "holds t s (Suc d) \<Longrightarrow> \<exists>s'. unlock t s = Inr s' \<and> holds t s' d \<and> rest s' = rest s"
begin

text \<open>
  A body that keeps the lock and turns the rest of the state into one related by \<open>Q\<close>, or fails
  with an error in \<open>E\<close>, does the same under the lock, which is given back.
\<close>

lemma bracket_holds:
  assumes h: "holds t s d"
    and body: "\<And>s1. holds t s1 (Suc d) \<Longrightarrow> rest s1 = rest s \<Longrightarrow>
      (case f s1 of Inl e \<Rightarrow> E e | Inr (s2, x) \<Rightarrow> holds t s2 (Suc d) \<and> Q (rest s2) x)"
  shows "\<exists>r. bracket lock unlock t f s = Some r
    \<and> (case r of Inl e \<Rightarrow> E e | Inr (s', x) \<Rightarrow> holds t s' d \<and> Q (rest s') x)"
proof -
  obtain s1 where s1: "lock t s = Some (Inr s1)" "holds t s1 (Suc d)" "rest s1 = rest s"
    using lock_holds [OF h] by blast
  show ?thesis
  proof (cases "f s1")
    case (Inl e)
    then show ?thesis using s1(1) body [OF s1(2,3)] by (simp add: bracket_def)
  next
    case (Inr r)
    then obtain s2 x where r: "f s1 = Inr (s2, x)" by (cases r) simp
    with body [OF s1(2,3)] have q: "holds t s2 (Suc d)" "Q (rest s2) x" by simp_all
    obtain s3 where "unlock t s2 = Inr s3" "holds t s3 d" "rest s3 = rest s2"
      using unlock_holds [OF q(1)] by blast
    with s1(1) r q(2) show ?thesis by (simp add: bracket_def)
  qed
qed

text \<open>Taking the lock and giving it back are inverse, at any depth.\<close>

lemma lock_unlock:
  assumes "holds t s d"
  shows "\<exists>s1 s2. lock t s = Some (Inr s1) \<and> unlock t s1 = Inr s2 \<and> holds t s2 d \<and> rest s2 = rest s"
  using lock_holds [OF assms] unlock_holds by fastforce

end

end
