(* ===== verification/Hslog.thy ===== *)
theory Hslog
  imports C_Text Lock_Spec
begin

text \<open>
  The log of the service: \<open>src/hslog/hslog.c\<close> and the senders of \<open>src/hslog/hslog-multicast.c\<close>.
  The lock is a recursive mutex whose users are threads; the calls of the time and file
  functions are answered by a record.  Strings are C strings, without their final NUL.
\<close>

section \<open>The lock\<close>

type_synonym tid = nat

text \<open>
  \<open>exit(EXIT_FAILURE)\<close> ends the program; using a mutex that was never made is undefined.
\<close>

datatype log_stop = ExitFailure | MutexNotMade | Memory c_error

record mutex =
  m_live :: bool
  m_owner :: "tid option"
  m_depth :: nat

definition mutex_0 :: mutex where
  "mutex_0 = \<lparr> m_live = False, m_owner = None, m_depth = 0 \<rparr>"

text \<open>\<open>pthread_mutex_init\<close> overwrites whatever the mutex was.\<close>

definition mutex_init :: "mutex \<Rightarrow> mutex" where
  "mutex_init m = \<lparr> m_live = True, m_owner = None, m_depth = 0 \<rparr>"

text \<open>A recursive mutex: \<open>None\<close> when the caller waits for another thread.\<close>

definition mutex_lock :: "tid \<Rightarrow> mutex \<Rightarrow> (log_stop + mutex) option" where
  "mutex_lock t m =
     (if \<not> m_live m then Some (Inl MutexNotMade)
      else if m_owner m = None \<or> m_owner m = Some t
      then Some (Inr (m\<lparr>m_owner := Some t, m_depth := m_depth m + 1\<rparr>))
      else None)"

text \<open>Unlocking a mutex that another thread holds, or nobody, is refused.\<close>

definition mutex_unlock :: "tid \<Rightarrow> mutex \<Rightarrow> log_stop + mutex" where
  "mutex_unlock t m =
     (if \<not> m_live m then Inl MutexNotMade
      else if m_owner m \<noteq> Some t then Inl ExitFailure
      else Inr (m\<lparr>m_owner := (if m_depth m = 1 then None else Some t), m_depth := m_depth m - 1\<rparr>))"

definition mutex_destroy :: "mutex \<Rightarrow> log_stop + mutex" where
  "mutex_destroy m =
     (if \<not> m_live m then Inl MutexNotMade
      else if m_depth m \<noteq> 0 then Inl ExitFailure
      else Inr (m\<lparr>m_live := False\<rparr>))"

section \<open>Configuration and state\<close>

text \<open>\<open>HSlogConfig\<close>: the fields declared with \<open>:1\<close> hold one bit.\<close>

record HSlogConfig =
  sFileName :: string
  sModuleName :: string
  nLogFileSize :: u64
  nFileLevel :: u16
  nLogLevel :: u16
  nToFile :: bool
  nPretty :: bool
  nTdSafe :: bool
  nErrLog :: bool
  nSilent :: bool
  nSync :: bool

record HSlogDate =
  year :: int
  mon :: int
  day :: int
  hour :: int
  minute :: int
  sec :: int
  usec :: int

record HSlogTag =
  nType :: int
  pDesc :: "string option"
  pColor :: "string option"

record Multicast_logger =
  ml_seq :: u32
  networkLoggingEnabled :: bool
  unicastLoggingEnabled :: bool

type_synonym prepare_func = "HSlogConfig \<Rightarrow> string \<Rightarrow> HSlogDate \<Rightarrow> int \<Rightarrow> bool \<Rightarrow> nat \<Rightarrow> c_error + string"

record log_state =
  cfg :: HSlogConfig
  hslogLock :: mutex
  prepare_output_func :: prepare_func
  net :: Multicast_logger
  files :: "string \<Rightarrow> string option"

record tm =
  tm_year :: int
  tm_mon :: int
  tm_mday :: int
  tm_hour :: int
  tm_min :: int
  tm_sec :: int

text \<open>Answers of the system: the time, and whether opening a file and making a mutex succeed.\<close>

record log_env =
  e_tm :: tm
  e_nsec :: int
  e_fopen :: bool
  e_mutex :: bool

text \<open>What leaves the process: a line on the console, a datagram to the group or to the local port.\<close>

datatype log_out = Console string | Multicast string | Unicast "byte list"

section \<open>Locking\<close>

definition hslog_sync_lock :: "tid \<Rightarrow> log_state \<Rightarrow> (log_stop + log_state) option" where
  "hslog_sync_lock t st =
     (if nTdSafe (cfg st)
      then (case mutex_lock t (hslogLock st) of None \<Rightarrow> None
            | Some r \<Rightarrow> (case r of Inl e \<Rightarrow> Some (Inl e) | Inr m \<Rightarrow> Some (Inr (st\<lparr>hslogLock := m\<rparr>))))
      else Some (Inr st))"

definition hslog_sync_unlock :: "tid \<Rightarrow> log_state \<Rightarrow> log_stop + log_state" where
  "hslog_sync_unlock t st =
     (if nTdSafe (cfg st)
      then (case mutex_unlock t (hslogLock st) of Inl e \<Rightarrow> Inl e | Inr m \<Rightarrow> Inr (st\<lparr>hslogLock := m\<rparr>))
      else Inr st)"

text \<open>After a failure \<open>nSync\<close> is set all the same: the assignment stands behind the failure branch.\<close>

definition hslog_sync_init :: "log_env \<Rightarrow> log_state \<Rightarrow> log_state" where
  "hslog_sync_init env st =
     (if nTdSafe (cfg st)
      then (let st1 = (if e_mutex env then st\<lparr>hslogLock := mutex_init (hslogLock st)\<rparr>
                       else st\<lparr>cfg := (cfg st)\<lparr>nTdSafe := False, nSync := False\<rparr>\<rparr>)
            in st1\<lparr>cfg := (cfg st1)\<lparr>nSync := True\<rparr>\<rparr>)
      else st)"

definition hslog_sync_destroy :: "log_state \<Rightarrow> log_stop + log_state" where
  "hslog_sync_destroy st =
     (case mutex_destroy (hslogLock st) of Inl e \<Rightarrow> Inl e
      | Inr m \<Rightarrow> Inr (st\<lparr>hslogLock := m, cfg := (cfg st)\<lparr>nSync := False, nTdSafe := False\<rparr>\<rparr>))"

text \<open>A body run between \<open>hslog_sync_lock\<close> and \<open>hslog_sync_unlock\<close>.\<close>

definition with_lock :: "tid \<Rightarrow> (log_state \<Rightarrow> log_stop + (log_state \<times> 'a)) \<Rightarrow> log_state
    \<Rightarrow> (log_stop + (log_state \<times> 'a)) option" where
  "with_lock = bracket hslog_sync_lock hslog_sync_unlock"

section \<open>Formatting\<close>

definition MAXMSG :: nat where "MAXMSG = 8196"

definition HSLOG_NONE :: int where "HSLOG_NONE = 0"
definition HSLOG_LIVE :: int where "HSLOG_LIVE = 1"
definition HSLOG_INFO :: int where "HSLOG_INFO = 2"
definition HSLOG_WARN :: int where "HSLOG_WARN = 3"
definition HSLOG_DEBUG :: int where "HSLOG_DEBUG = 4"
definition HSLOG_ERROR :: int where "HSLOG_ERROR = 5"
definition HSLOG_FATAL :: int where "HSLOG_FATAL = 6"
definition HSLOG_PANIC :: int where "HSLOG_PANIC = 7"

lemmas hslog_levels = HSLOG_NONE_def HSLOG_LIVE_def HSLOG_INFO_def HSLOG_WARN_def HSLOG_DEBUG_def HSLOG_ERROR_def
  HSLOG_FATAL_def HSLOG_PANIC_def

definition CLR :: "string \<Rightarrow> string" where "CLR n = CHR 0x1B # CHR ''['' # n @ ''m''"
definition CLR_NORMAL :: string where "CLR_NORMAL = CLR ''0''"
definition CLR_RED :: string where "CLR_RED = CLR ''31''"
definition CLR_GREEN :: string where "CLR_GREEN = CLR ''32''"
definition CLR_YELLOW :: string where "CLR_YELLOW = CLR ''33''"
definition CLR_BLUE :: string where "CLR_BLUE = CLR ''34''"
definition CLR_NAGENTA :: string where "CLR_NAGENTA = CLR ''35''"
definition CLR_CYAN :: string where "CLR_CYAN = CLR ''36''"
definition CLR_WHITE :: string where "CLR_WHITE = CLR ''37''"
definition CLR_RESET :: string where "CLR_RESET = CLR ''0''"

definition g_HSlogTags :: "HSlogTag list" where
  "g_HSlogTags =
     [\<lparr> nType = 0, pDesc = Some ''NONE'', pColor = None \<rparr>,
      \<lparr> nType = 1, pDesc = Some ''LIVE'', pColor = Some CLR_NORMAL \<rparr>,
      \<lparr> nType = 2, pDesc = Some ''INFO'', pColor = Some CLR_GREEN \<rparr>,
      \<lparr> nType = 3, pDesc = Some ''WARN'', pColor = Some CLR_YELLOW \<rparr>,
      \<lparr> nType = 4, pDesc = Some ''DEBUG'', pColor = Some CLR_BLUE \<rparr>,
      \<lparr> nType = 5, pDesc = Some ''ERROR'', pColor = Some CLR_RED \<rparr>,
      \<lparr> nType = 6, pDesc = Some ''FATAL'', pColor = Some CLR_RED \<rparr>,
      \<lparr> nType = 7, pDesc = Some ''PANIC'', pColor = Some CLR_WHITE \<rparr>]"

text \<open>The contents of a buffer of \<open>n\<close> bytes after \<open>snprintf\<close>.\<close>

definition snprintf :: "nat \<Rightarrow> string \<Rightarrow> string" where
  "snprintf n s = take (n - 1) s"

text \<open>\<open>%02d\<close>\<close>

definition fmt02d :: "int \<Rightarrow> string" where
  "fmt02d x =
     (if x < 0 then CHR ''-'' # decimal (nat (- x))
      else if x < 10 then CHR ''0'' # decimal (nat x) else decimal (nat x))"

definition hslog_get_date :: "log_env \<Rightarrow> HSlogDate" where
  "hslog_get_date env = (let t = e_tm env in
     \<lparr> year = tm_year t + 1900, mon = tm_mon t + 1, day = tm_mday t, hour = tm_hour t, minute = tm_min t,
       sec = tm_sec t, usec = e_nsec env div 10000000 \<rparr>)"

text \<open>
  The replacement for \<open>clock_gettime\<close> on Darwin, for the value \<open>CLOCK_REALTIME\<close> has there and the seconds
  and microseconds \<open>gettimeofday\<close> gives, if it does: the time written, the error number set, and
  the result.  \<open>hslog_get_date\<close> asks for another clock and does not look at the result.
\<close>

definition EINVAL :: int where "EINVAL = 22"

definition clock_gettime :: "int \<Rightarrow> (int \<times> int) option \<Rightarrow> int \<Rightarrow> (int \<times> int) option \<times> int option \<times> int" where
  "clock_gettime CLOCK_REALTIME tv clock_id =
     (if clock_id \<noteq> CLOCK_REALTIME then (None, Some EINVAL, -1)
      else (case tv of None \<Rightarrow> (None, None, -1)
            | Some (s, us) \<Rightarrow> (Some (s, us * 1000), None, 0)))"

lemma clock_gettime_other_clock:
  "CLOCK_MONOTONIC \<noteq> CLOCK_REALTIME \<Longrightarrow> fst (clock_gettime CLOCK_REALTIME tv CLOCK_MONOTONIC) = None"
  by (simp add: clock_gettime_def)

lemma clock_gettime_ranges:
  assumes "clock_gettime rt (Some (s, us)) rt = (Some (s', ns), e, r)" "0 \<le> us" "us < 1000000"
  shows "s' = s \<and> 0 \<le> ns \<and> ns < 1000000000 \<and> ns div 1000 = us"
  using assms by (auto simp: clock_gettime_def)

definition date_text :: "HSlogDate \<Rightarrow> string" where
  "date_text d = snprintf 32 (fmt02d (year d) @ ''.'' @ fmt02d (mon d) @ ''.'' @ fmt02d (day d) @ ''-'' @ fmt02d (hour d)
     @ '':'' @ fmt02d (minute d) @ '':'' @ fmt02d (sec d) @ ''.'' @ fmt02d (usec d))"

text \<open>The walk through the table of tags has no end of its own.\<close>

fun find_tag :: "int \<Rightarrow> HSlogTag list \<Rightarrow> c_error + HSlogTag" where
  "find_tag n [] = Inl OutOfBounds"
| "find_tag n (g # gs) =
     (if n = HSLOG_NONE \<and> nType g = 0 \<and> pDesc g = None then Inr g
      else if n \<noteq> HSLOG_NONE \<and> nType g = n \<and> pDesc g \<noteq> None then Inr g
      else find_tag n gs)"

definition text_of :: "string option \<Rightarrow> string" where
  "text_of s = (case s of None \<Rightarrow> [] | Some x \<Rightarrow> x)"

definition hslog_prepare_output :: prepare_func where
  "hslog_prepare_output c pStr date n color nSize =
     (case find_tag n g_HSlogTags of
        Inl e \<Rightarrow> Inl e
      | Inr g \<Rightarrow>
          (let modu = (if 0 < length (sModuleName c) then '' - '' @ sModuleName c else []);
               d = text_of (pDesc g); col = text_of (pColor g);
               tag = (if n = HSLOG_NONE then []
                      else if color then ''['' @ col @ d @ CLR_RESET @ ''] '' else ''['' @ d @ ''] '')
           in Inr (snprintf nSize (date_text date @ modu @ '' - '' @ tag @ pStr))))"

definition hslog_prepare_output_xml_format :: prepare_func where
  "hslog_prepare_output_xml_format c pStr date n color nSize =
     (case find_tag n g_HSlogTags of
        Inl e \<Rightarrow> Inl e
      | Inr g \<Rightarrow>
          (let modu = (if 0 < length (sModuleName c) then ''<Module>'' @ sModuleName c @ ''</Module>'' else []);
               d = text_of (pDesc g); col = text_of (pColor g);
               tag = (if n = HSLOG_NONE then []
                      else if color then ''<Severity>['' @ col @ d @ CLR_RESET @ '']</Severity>''
                      else ''<Severity>['' @ d @ '']</Severity>'')
           in Inr (snprintf nSize (''<logmessage><Date>'' @ date_text date @ ''</Date>'' @ modu @ tag
                @ ''<message>'' @ pStr @ ''</message></logmessage>''))))"

definition hslog_set_output_func :: "prepare_func \<Rightarrow> log_state \<Rightarrow> log_state" where
  "hslog_set_output_func f st = st\<lparr>prepare_output_func := f\<rparr>"

definition hslog_set_module :: "string option \<Rightarrow> log_state \<Rightarrow> c_error + log_state" where
  "hslog_set_module str st =
     (case str of None \<Rightarrow> Inr st
      | Some s \<Rightarrow> if 64 \<le> length s then Inl OutOfBounds else Inr (st\<lparr>cfg := (cfg st)\<lparr>sModuleName := s\<rparr>\<rparr>))"

text \<open>\<open>hslog_to_file\<close> appends a line to the file, which is made when it is missing.\<close>

definition log_file :: "string \<Rightarrow> string" where
  "log_file f = f @ ''.log''"

definition hslog_to_file :: "log_env \<Rightarrow> string \<Rightarrow> string \<Rightarrow> log_state \<Rightarrow> log_state" where
  "hslog_to_file env pStr pFile st =
     (if e_fopen env
      then st\<lparr>files := (files st)(log_file pFile \<mapsto> text_of (files st (log_file pFile)) @ pStr @ [nl])\<rparr>
      else st)"

text \<open>\<open>hslog_version\<close>; \<open>build_date\<close> is the compiler's \<open>__DATE__\<close>.\<close>

definition HSLOGVERSION_MAJOR :: nat where "HSLOGVERSION_MAJOR = 1"
definition HSLOGVERSION_MINOR :: nat where "HSLOGVERSION_MINOR = 0"
definition HSLOGBUILD_NUM :: nat where "HSLOGBUILD_NUM = 1"

definition hslog_version :: "int \<Rightarrow> string \<Rightarrow> string" where
  "hslog_version nMin build_date =
     (if nMin \<noteq> 0
      then decimal HSLOGVERSION_MAJOR @ ''.'' @ decimal HSLOGVERSION_MINOR @ ''.'' @ decimal HSLOGBUILD_NUM
      else decimal HSLOGVERSION_MAJOR @ ''.'' @ decimal HSLOGVERSION_MINOR @ '' build '' @ decimal HSLOGBUILD_NUM
        @ '' ('' @ build_date @ '')'')"

section \<open>Sending to the network\<close>

definition HSMODEM :: u8 where "HSMODEM = 1"
definition UDP_SRV :: u8 where "UDP_SRV = 2"
definition BLE_SRV :: u8 where "BLE_SRV = 3"

text \<open>\<open>struct icd_hslog_hdr\<close>, 8 packed bytes.\<close>

record icd_hslog_hdr =
  icd_seq :: u32
  icd_len :: u16
  icd_module :: u8
  icd_loglevel :: u8

definition icd_hslog_hdr_bytes :: "icd_hslog_hdr \<Rightarrow> byte list" where
  "icd_hslog_hdr_bytes h = le_bytes 4 (unat (icd_seq h)) @ le_bytes 2 (unat (icd_len h)) @ [icd_module h, icd_loglevel h]"

definition icd_hslog_hdr_of_bytes :: "byte list \<Rightarrow> icd_hslog_hdr" where
  "icd_hslog_hdr_of_bytes bs =
     \<lparr> icd_seq = of_nat (le_nat (take 4 bs)), icd_len = of_nat (le_nat (take 2 (drop 4 bs))),
       icd_module = bs ! 6, icd_loglevel = bs ! 7 \<rparr>"

definition logSeverity :: "string list" where
  "logSeverity = [''LIVE'', ''INFO'', ''WARNING'', ''DEBUG'', ''ERROR'', ''FATAL'', ''PANIC'']"

definition text_bytes :: "string \<Rightarrow> byte list" where
  "text_bytes s = map of_char s"

text \<open>
  The text is printed behind the header into the 1400 bytes of \<open>msg\<close>, but with a limit of 1399.
\<close>

definition hslog_to_network :: "string \<Rightarrow> int \<Rightarrow> string \<Rightarrow> Multicast_logger \<Rightarrow> c_error + (Multicast_logger \<times> log_out list)" where
  "hslog_to_network pStr n modu ml =
     (if n < 0 \<or> int (length logSeverity) \<le> n then Inl OutOfBounds
      else (let txt = snprintf 1399 (''<'' @ logSeverity ! nat n @ ''> ['' @ modu @ ''] - '' @ pStr) in
        if 1400 < 8 + length txt + 1 then Inl OutOfBounds
        else (let ml' = ml\<lparr>ml_seq := ml_seq ml + 1\<rparr>;
                  hdr = \<lparr> icd_seq = ml_seq ml', icd_len = of_nat (length txt + 8), icd_module = UDP_SRV, icd_loglevel = of_int n \<rparr>
              in Inr (ml', (if networkLoggingEnabled ml' then [Multicast txt] else [])
                         @ (if unicastLoggingEnabled ml'
                            then [Unicast (take (unat (icd_len hdr)) (icd_hslog_hdr_bytes hdr @ text_bytes txt))] else [])))))"

definition enable_network_logging :: "Multicast_logger \<Rightarrow> Multicast_logger" where
  "enable_network_logging ml = ml\<lparr>networkLoggingEnabled := True\<rparr>"
definition disable_network_logging :: "Multicast_logger \<Rightarrow> Multicast_logger" where
  "disable_network_logging ml = ml\<lparr>networkLoggingEnabled := False\<rparr>"
definition enable_unicast_logging :: "Multicast_logger \<Rightarrow> Multicast_logger" where
  "enable_unicast_logging ml = ml\<lparr>unicastLoggingEnabled := True\<rparr>"
definition disable_unicast_logging :: "Multicast_logger \<Rightarrow> Multicast_logger" where
  "disable_unicast_logging ml = ml\<lparr>unicastLoggingEnabled := False\<rparr>"

definition is_network_logging_enabled :: "Multicast_logger \<Rightarrow> bool" where
  "is_network_logging_enabled ml = networkLoggingEnabled ml"
definition is_unicast_logging_enabled :: "Multicast_logger \<Rightarrow> bool" where
  "is_unicast_logging_enabled ml = unicastLoggingEnabled ml"

definition MAXLEN :: nat where "MAXLEN = 1024"

text \<open>
  One round of \<open>process_network_logging_commands\<close> on the datagram taken: the terminating NUL is
  written behind it, and the comparison stops at the first NUL.
\<close>

definition process_network_command :: "string \<Rightarrow> Multicast_logger \<Rightarrow> c_error + Multicast_logger" where
  "process_network_command d ml =
     (let message = take MAXLEN d in
      if MAXLEN \<le> length message then Inl OutOfBounds
      else (let s = takeWhile (\<lambda>c. c \<noteq> nul) message in
            if s = ''START_LOGGING'' then Inr (enable_network_logging ml)
            else if s = ''STOP_LOGGING'' then Inr (disable_network_logging ml)
            else Inr ml))"

text \<open>
  The loop of \<open>process_network_logging_commands\<close> on what the first calls of \<open>recvfrom\<close> give, \<open>None\<close>
  for an error.  An error ends the whole program.
\<close>

fun process_network_logging_commands :: "string option list \<Rightarrow> Multicast_logger \<Rightarrow> log_stop + Multicast_logger" where
  "process_network_logging_commands [] ml = Inr ml"
| "process_network_logging_commands (None # ds) ml = Inl ExitFailure"
| "process_network_logging_commands (Some d # ds) ml =
     (case process_network_command d ml of
        Inl e \<Rightarrow> Inl (Memory e)
      | Inr ml' \<Rightarrow> process_network_logging_commands ds ml')"

text \<open>What the commands among the datagrams set the switch to, in order.\<close>

definition log_switches :: "string list \<Rightarrow> bool list" where
  "log_switches ds = List.map_filter (\<lambda>d. let s = takeWhile (\<lambda>c. c \<noteq> nul) d in
     if s = ''START_LOGGING'' then Some True else if s = ''STOP_LOGGING'' then Some False else None) ds"

lemma log_commands_run:
  assumes "\<forall>d \<in> set ds. length d < MAXLEN"
  shows "process_network_logging_commands (map Some ds @ rest) ml
    = process_network_logging_commands rest
        (ml\<lparr>networkLoggingEnabled := (if log_switches ds = [] then networkLoggingEnabled ml else last (log_switches ds))\<rparr>)"
  using assms
proof (induction ds arbitrary: ml)
  case (Cons d ds)
  have "process_network_command d ml = Inr (case log_switches [d] of [] \<Rightarrow> ml | b # _ \<Rightarrow> ml\<lparr>networkLoggingEnabled := b\<rparr>)"
    using Cons.prems by (simp add: process_network_command_def log_switches_def map_filter_simps
        enable_network_logging_def disable_network_logging_def Let_def)
  with Cons show ?case by (auto simp: log_switches_def map_filter_simps Let_def split: if_splits)
qed (simp add: log_switches_def map_filter_simps)

text \<open>
  Short datagrams are applied in order; the first error of \<open>recvfrom\<close> ends the program, and a datagram
  that fills the buffer is terminated one byte behind it.
\<close>

lemma log_commands_stop:
  assumes "\<forall>d \<in> set ds. length d < MAXLEN"
  shows "process_network_logging_commands (map Some ds @ None # rest) ml = Inl ExitFailure"
    "MAXLEN \<le> length d \<Longrightarrow> process_network_logging_commands (map Some ds @ Some d # rest) ml = Inl (Memory OutOfBounds)"
  by (simp_all add: log_commands_run [OF assms] process_network_command_def Let_def)

section \<open>\<open>hslog\<close>\<close>

text \<open>
  \<open>sInput\<close> is the message after its arguments have been put in; \<open>vsprintf\<close> does not look at the
  size of the buffer.
\<close>

definition hslog_body :: "log_env \<Rightarrow> int \<Rightarrow> string \<Rightarrow> log_state \<Rightarrow> log_stop + (log_state \<times> log_out list)" where
  "hslog_body env nFlag sInput st =
     (let c = cfg st; lvl = int (unat (nLogLevel c)); flvl = int (unat (nFileLevel c)) in
      if nSilent c \<and> (nFlag = HSLOG_DEBUG \<or> nFlag = HSLOG_LIVE) then Inr (st, [])
      else if MAXMSG \<le> length sInput then Inl (Memory OutOfBounds)
      else if lvl \<le> nFlag \<or> flvl \<le> nFlag
      then (case prepare_output_func st c sInput (hslog_get_date env) nFlag (nPretty c) MAXMSG of
              Inl e \<Rightarrow> Inl (Memory e)
            | Inr sMessage \<Rightarrow>
                (let out = (if lvl \<le> nFlag then [Console sMessage] else []);
                     st1 = (if nToFile c \<and> flvl \<le> nFlag then hslog_to_file env sMessage (sFileName c) st else st)
                 in case hslog_to_network sInput nFlag (sModuleName c) (net st1) of
                      Inl e \<Rightarrow> Inl (Memory e)
                    | Inr (ml, outs) \<Rightarrow> Inr (st1\<lparr>net := ml\<rparr>, out @ outs)))
      else Inr (st, []))"

definition hslog :: "log_env \<Rightarrow> tid \<Rightarrow> int \<Rightarrow> string \<Rightarrow> log_state \<Rightarrow> (log_stop + (log_state \<times> log_out list)) option" where
  "hslog env t nFlag sInput = with_lock t (hslog_body env nFlag sInput)"

text \<open>
  The macros of \<open>hslog.h\<close>: the plain ones name the level, the others also put the place in the
  source in front of the text; \<open>file\<close> and \<open>ln\<close> are the compiler's \<open>__FILE__\<close> and \<open>__LINE__\<close>.
\<close>

type_synonym log_macro = "log_env \<Rightarrow> tid \<Rightarrow> string \<Rightarrow> log_state \<Rightarrow> (log_stop + (log_state \<times> log_out list)) option"

definition SOURCE_THROW_LOCATION :: "string \<Rightarrow> nat \<Rightarrow> string" where
  "SOURCE_THROW_LOCATION file ln = ''<'' @ file @ '':'' @ decimal ln @ ''> -- ''"

definition hslog_none :: log_macro where
  "hslog_none env t msg = hslog env t HSLOG_NONE msg"

definition hslog_live :: log_macro where
  "hslog_live env t msg = hslog env t HSLOG_LIVE msg"

definition hslog_info :: log_macro where
  "hslog_info env t msg = hslog env t HSLOG_INFO msg"

definition hslog_warn :: log_macro where
  "hslog_warn env t msg = hslog env t HSLOG_WARN msg"

definition hslog_debug :: log_macro where
  "hslog_debug env t msg = hslog env t HSLOG_DEBUG msg"

definition hslog_none_loc :: "string \<Rightarrow> nat \<Rightarrow> log_macro" where
  "hslog_none_loc file ln env t msg = hslog env t HSLOG_NONE (SOURCE_THROW_LOCATION file ln @ msg)"

definition hslog_live_loc :: "string \<Rightarrow> nat \<Rightarrow> log_macro" where
  "hslog_live_loc file ln env t msg = hslog env t HSLOG_LIVE (SOURCE_THROW_LOCATION file ln @ msg)"

definition hslog_info_loc :: "string \<Rightarrow> nat \<Rightarrow> log_macro" where
  "hslog_info_loc file ln env t msg = hslog env t HSLOG_INFO (SOURCE_THROW_LOCATION file ln @ msg)"

definition hslog_warn_loc :: "string \<Rightarrow> nat \<Rightarrow> log_macro" where
  "hslog_warn_loc file ln env t msg = hslog env t HSLOG_WARN (SOURCE_THROW_LOCATION file ln @ msg)"

definition hslog_debug_loc :: "string \<Rightarrow> nat \<Rightarrow> log_macro" where
  "hslog_debug_loc file ln env t msg = hslog env t HSLOG_DEBUG (SOURCE_THROW_LOCATION file ln @ msg)"

definition hslog_error :: "string \<Rightarrow> nat \<Rightarrow> log_macro" where
  "hslog_error file ln env t msg = hslog env t HSLOG_ERROR (SOURCE_THROW_LOCATION file ln @ msg)"

definition hslog_fatal :: "string \<Rightarrow> nat \<Rightarrow> log_macro" where
  "hslog_fatal file ln env t msg = hslog env t HSLOG_FATAL (SOURCE_THROW_LOCATION file ln @ msg)"

definition hslog_panic :: "string \<Rightarrow> nat \<Rightarrow> log_macro" where
  "hslog_panic file ln env t msg = hslog env t HSLOG_PANIC (SOURCE_THROW_LOCATION file ln @ msg)"

text \<open>\<open>pCfg\<close> is what the caller's record holds before: its \<open>nSync\<close> is not written.\<close>

definition hslog_config_get :: "tid \<Rightarrow> HSlogConfig \<Rightarrow> log_state \<Rightarrow> (log_stop + (log_state \<times> HSlogConfig)) option" where
  "hslog_config_get t pCfg = with_lock t (\<lambda>st. Inr (st, (cfg st)\<lparr>nSync := nSync pCfg\<rparr>))"

text \<open>All fields but \<open>nSync\<close> are copied; then the lock is made or destroyed when \<open>nTdSafe\<close> changed.\<close>

definition hslog_config_set :: "log_env \<Rightarrow> tid \<Rightarrow> HSlogConfig \<Rightarrow> log_state \<Rightarrow> (log_stop + log_state) option" where
  "hslog_config_set env t p st =
     (case hslog_sync_lock t st of None \<Rightarrow> None
      | Some (Inl e) \<Rightarrow> Some (Inl e)
      | Some (Inr st1) \<Rightarrow>
          (let st2 = st1\<lparr>cfg := p\<lparr>nSync := nSync (cfg st1)\<rparr>\<rparr> in
           if nTdSafe (cfg st2) \<and> \<not> nSync (cfg st2)
           then (case hslog_sync_lock t (hslog_sync_init env st2) of None \<Rightarrow> None
                 | Some (Inl e) \<Rightarrow> Some (Inl e)
                 | Some (Inr st3) \<Rightarrow> Some (hslog_sync_unlock t st3))
           else if \<not> nTdSafe (cfg st2) \<and> nSync (cfg st2)
           then Some (case hslog_sync_unlock t (st2\<lparr>cfg := (cfg st2)\<lparr>nTdSafe := True\<rparr>\<rparr>) of Inl e \<Rightarrow> Inl e
                 | Inr st3 \<Rightarrow> (case hslog_sync_destroy st3 of Inl e \<Rightarrow> Inl e
                    | Inr st4 \<Rightarrow> hslog_sync_unlock t st4))
           else Some (hslog_sync_unlock t st2)))"

section \<open>The lock is a recursive lock\<close>

text \<open>
  The lock is in use exactly when \<open>nTdSafe\<close> is set, \<open>nSync\<close> says so too, and thread \<open>t\<close> holds it \<open>d\<close> times.
\<close>

definition holds :: "tid \<Rightarrow> log_state \<Rightarrow> nat \<Rightarrow> bool" where
  "holds t st d \<longleftrightarrow> nSync (cfg st) = nTdSafe (cfg st) \<and> m_live (hslogLock st) = nTdSafe (cfg st)
     \<and> (nTdSafe (cfg st) \<longrightarrow> m_depth (hslogLock st) = d \<and> m_owner (hslogLock st) = (if d = 0 then None else Some t))"

definition log_rest :: "log_state \<Rightarrow> log_state" where
  "log_rest st = st\<lparr>hslogLock := mutex_0\<rparr>"

lemma log_rest_simps:
  "log_rest s = log_rest st \<Longrightarrow> cfg s = cfg st \<and> net s = net st \<and> files s = files st \<and> prepare_output_func s = prepare_output_func st"
  by (cases s; cases st) (simp add: log_rest_def)

interpretation hl: recursive_lock holds hslog_sync_lock hslog_sync_unlock log_rest
proof
  fix t s d
  assume "holds t s d"
  then show "\<exists>s'. hslog_sync_lock t s = Some (Inr s') \<and> holds t s' (Suc d) \<and> log_rest s' = log_rest s"
    by (auto simp: holds_def hslog_sync_lock_def mutex_lock_def log_rest_def split: if_splits)
next
  fix t s d
  assume "holds t s (Suc d)"
  then show "\<exists>s'. hslog_sync_unlock t s = Inr s' \<and> holds t s' d \<and> log_rest s' = log_rest s"
    by (auto simp: holds_def hslog_sync_unlock_def mutex_unlock_def log_rest_def split: if_splits)
qed

lemma holds_cong:
  "cfg s = cfg st \<Longrightarrow> hslogLock s = hslogLock st \<Longrightarrow> holds t s d = holds t st d"
  by (simp add: holds_def)

section \<open>The table of tags\<close>

text \<open>The walk through the table against the plain function from levels to names.\<close>

definition level_name :: "int \<Rightarrow> string" where
  "level_name n = text_of (pDesc (g_HSlogTags ! nat n))"

lemma find_tag_eq:
  "find_tag n g_HSlogTags = (if 1 \<le> n \<and> n \<le> 7 then Inr (g_HSlogTags ! nat n) else Inl OutOfBounds)"
proof (cases "1 \<le> n \<and> n \<le> 7")
  case True
  then have "n = 1 \<or> n = 2 \<or> n = 3 \<or> n = 4 \<or> n = 5 \<or> n = 6 \<or> n = 7" by arith
  then show ?thesis by (elim disjE) (simp_all add: g_HSlogTags_def HSLOG_NONE_def)
next
  case False
  then show ?thesis by (auto simp: g_HSlogTags_def HSLOG_NONE_def)
qed

section \<open>What reaches the network\<close>

definition bytes_text :: "byte list \<Rightarrow> string" where
  "bytes_text bs = map (\<lambda>b. char_of (unat b)) bs"

lemma bytes_text_bytes: "bytes_text (text_bytes s) = s"
proof -
  have "char_of (unat (of_char c :: byte)) = c" for c
  proof -
    have "(of_char c :: nat) mod 256 = of_char c" by simp
    then have "(of_char c :: nat) < 256" by (metis mod_less_divisor zero_less_numeral)
    then have "unat (of_nat (of_char c) :: byte) = of_char c" by (intro unat_of_nat_small) simp
    then show ?thesis by (metis of_nat_of_char char_of_char)
  qed
  then show ?thesis by (simp add: bytes_text_def text_bytes_def comp_def)
qed

definition network_text :: "int \<Rightarrow> string \<Rightarrow> string \<Rightarrow> string" where
  "network_text n modu s = ''<'' @ logSeverity ! nat n @ ''> ['' @ modu @ ''] - '' @ s"

definition network_outs :: "int \<Rightarrow> string \<Rightarrow> string \<Rightarrow> Multicast_logger \<Rightarrow> log_out list" where
  "network_outs n modu s ml =
     (if networkLoggingEnabled ml then [Multicast (network_text n modu s)] else [])
     @ (if unicastLoggingEnabled ml
        then [Unicast (icd_hslog_hdr_bytes \<lparr> icd_seq = ml_seq ml + 1, icd_len = of_nat (length (network_text n modu s) + 8),
                icd_module = UDP_SRV, icd_loglevel = of_int n \<rparr> @ text_bytes (network_text n modu s))]
        else [])"

lemma hslog_to_network_eq:
  "hslog_to_network s n modu ml =
     (if 0 \<le> n \<and> n < 7 \<and> length (network_text n modu s) \<le> 1391
      then Inr (ml\<lparr>ml_seq := ml_seq ml + 1\<rparr>, network_outs n modu s ml) else Inl OutOfBounds)"
proof -
  have l: "length logSeverity = 7" by (simp add: logSeverity_def)
  have t: "snprintf 1399 x = x \<and> \<not> 1400 < 8 + length (snprintf 1399 x) + 1" if "length x \<le> 1391" for x
    using that by (simp add: snprintf_def)
  have t': "1400 < 8 + length (snprintf 1399 x) + 1" if "\<not> length x \<le> 1391" for x
    using that by (simp add: snprintf_def)
  have u: "unat (of_nat (length x + 8) :: u16) = length x + 8" if "length x \<le> 1391" for x :: string
    by (rule unat_of_nat_small) (use that in simp)
  have h: "length (icd_hslog_hdr_bytes h) = 8" for h by (simp add: icd_hslog_hdr_bytes_def)
  show ?thesis
    unfolding hslog_to_network_def Let_def network_text_def [symmetric] l
    using t [of "network_text n modu s"] t' [of "network_text n modu s"] u [of "network_text n modu s"]
    by (cases "length (network_text n modu s) \<le> 1391") (auto simp: network_outs_def text_bytes_def h)
qed

text \<open>
  Sending a message to the network goes wrong exactly when the level is
  outside 0 to 6, so always for PANIC, or when the text with its severity and module is longer
  than 1391 characters: the limit given to \<open>snprintf\<close> forgets the header.
\<close>

theorem network_message_limits:
  "hslog_to_network s n modu ml = Inl OutOfBounds
   \<longleftrightarrow> n < 0 \<or> n = HSLOG_PANIC \<or> HSLOG_PANIC < n \<or> 1391 < length (network_text n modu s)"
  by (auto simp: hslog_to_network_eq HSLOG_PANIC_def)

text \<open>
  With unicast logging on, a message that fits is sent as one packed
  header and its text: decoding the datagram gives the next sequence number, its own length, the
  module and the level, and the text, which names the severity one level above.
\<close>

theorem unicast_log_roundtrip:
  assumes "unicastLoggingEnabled ml" "1 \<le> n" "n \<le> 6" "length (network_text n modu s) \<le> 1391"
  shows "\<exists>d pre. hslog_to_network s n modu ml = Inr (ml\<lparr>ml_seq := ml_seq ml + 1\<rparr>, pre @ [Unicast d])
    \<and> icd_hslog_hdr_of_bytes d = \<lparr> icd_seq = ml_seq ml + 1, icd_len = of_nat (length d), icd_module = UDP_SRV, icd_loglevel = of_int n \<rparr>
    \<and> bytes_text (drop 8 d) = ''<'' @ logSeverity ! nat n @ ''> ['' @ modu @ ''] - '' @ s
    \<and> pre = (if networkLoggingEnabled ml then [Multicast (bytes_text (drop 8 d))] else [])
    \<and> logSeverity ! nat n \<noteq> level_name n"
proof -
  let ?t = "network_text n modu s"
  let ?h = "\<lparr> icd_seq = ml_seq ml + 1, icd_len = of_nat (length ?t + 8), icd_module = UDP_SRV, icd_loglevel = of_int n \<rparr>"
  let ?d = "icd_hslog_hdr_bytes ?h @ text_bytes ?t"
  have len: "length ?d = length ?t + 8" by (simp add: icd_hslog_hdr_bytes_def text_bytes_def)
  have hdr: "icd_hslog_hdr_of_bytes ?d = \<lparr> icd_seq = ml_seq ml + 1, icd_len = of_nat (length ?d), icd_module = UDP_SRV, icd_loglevel = of_int n \<rparr>"
    unfolding len by (simp add: icd_hslog_hdr_of_bytes_def icd_hslog_hdr_bytes_def nth_append of_nat_le_nat_le_bytes)
  have tx: "bytes_text (drop 8 ?d) = ?t" by (simp add: icd_hslog_hdr_bytes_def bytes_text_bytes)
  have "n = 1 \<or> n = 2 \<or> n = 3 \<or> n = 4 \<or> n = 5 \<or> n = 6" using assms(2,3) by arith
  then have sev: "logSeverity ! nat n \<noteq> level_name n"
    by (elim disjE) (simp_all add: logSeverity_def level_name_def g_HSlogTags_def text_of_def)
  have "hslog_to_network s n modu ml = Inr (ml\<lparr>ml_seq := ml_seq ml + 1\<rparr>,
      (if networkLoggingEnabled ml then [Multicast (bytes_text (drop 8 ?d))] else []) @ [Unicast ?d])"
    using assms by (simp only: hslog_to_network_eq network_outs_def tx) simp
  with hdr tx sev show ?thesis by (intro exI [of _ ?d] exI conjI) (assumption | simp add: network_text_def)+
qed

theorem unicast_log_roundtrip_witness:
  "\<exists>d pre. hslog_to_network ''up'' 5 ''UDP-service'' \<lparr> ml_seq = 6, networkLoggingEnabled = True, unicastLoggingEnabled = True \<rparr>
      = Inr (\<lparr> ml_seq = 7, networkLoggingEnabled = True, unicastLoggingEnabled = True \<rparr>, pre @ [Unicast d])
    \<and> icd_hslog_hdr_of_bytes d = \<lparr> icd_seq = 7, icd_len = of_nat (length d), icd_module = UDP_SRV, icd_loglevel = 5 \<rparr>
    \<and> bytes_text (drop 8 d) = ''<FATAL> [UDP-service] - up''"
  using unicast_log_roundtrip [of "\<lparr> ml_seq = 6, networkLoggingEnabled = True, unicastLoggingEnabled = True \<rparr>" 5 "''UDP-service''" "''up''"]
  by (auto simp: network_text_def logSeverity_def)

section \<open>What a call of \<open>hslog\<close> does\<close>

text \<open>The line a message becomes.\<close>

definition log_line :: "log_env \<Rightarrow> HSlogConfig \<Rightarrow> int \<Rightarrow> string \<Rightarrow> string" where
  "log_line env c n msg = take 8195 (date_text (hslog_get_date env) @ (if sModuleName c = [] then [] else '' - '' @ sModuleName c)
     @ '' - ['' @ (if nPretty c then text_of (pColor (g_HSlogTags ! nat n)) @ level_name n @ CLR_RESET else level_name n) @ ''] '' @ msg)"

lemma hslog_prepare_output_line:
  assumes "1 \<le> n" "n \<le> 7"
  shows "hslog_prepare_output c msg (hslog_get_date env) n (nPretty c) MAXMSG = Inr (log_line env c n msg)"
proof -
  have "find_tag n g_HSlogTags = Inr (g_HSlogTags ! nat n)" using assms by (simp add: find_tag_eq)
  then show ?thesis using assms
    by (simp add: hslog_prepare_output_def log_line_def snprintf_def MAXMSG_def level_name_def HSLOG_NONE_def Let_def)
qed

lemma hslog_message:
  assumes "holds t st d" "1 \<le> n" "n \<le> 6" "prepare_output_func st = hslog_prepare_output" "\<not> (nSilent (cfg st) \<and> (n = HSLOG_DEBUG \<or> n = HSLOG_LIVE))"
    and "length (network_text n (sModuleName (cfg st)) msg) \<le> 1391" "e_fopen env"
  shows "\<exists>st'. hslog env t n msg st = Some (Inr (st',
      (if int (unat (nLogLevel (cfg st))) \<le> n then [Console (log_line env (cfg st) n msg)] else [])
      @ (if int (unat (nLogLevel (cfg st))) \<le> n \<or> int (unat (nFileLevel (cfg st))) \<le> n
         then network_outs n (sModuleName (cfg st)) msg (net st) else [])))
    \<and> holds t st' d \<and> cfg st' = cfg st
    \<and> files st' = (if nToFile (cfg st) \<and> int (unat (nFileLevel (cfg st))) \<le> n
         then (files st)(log_file (sFileName (cfg st)) \<mapsto>
           text_of (files st (log_file (sFileName (cfg st)))) @ log_line env (cfg st) n msg @ [nl])
         else files st)"
proof -
  let ?c = "cfg st"
  let ?outs = "(if int (unat (nLogLevel ?c)) \<le> n then [Console (log_line env ?c n msg)] else [])
      @ (if int (unat (nLogLevel ?c)) \<le> n \<or> int (unat (nFileLevel ?c)) \<le> n then network_outs n (sModuleName ?c) msg (net st) else [])"
  let ?fs = "if nToFile ?c \<and> int (unat (nFileLevel ?c)) \<le> n
         then (files st)(log_file (sFileName ?c) \<mapsto> text_of (files st (log_file (sFileName ?c))) @ log_line env ?c n msg @ [nl])
         else files st"
  have short: "\<not> MAXMSG \<le> length msg" using assms(6) by (simp add: network_text_def MAXMSG_def)
  have line: "hslog_prepare_output ?c msg (hslog_get_date env) n (nPretty ?c) MAXMSG = Inr (log_line env ?c n msg)"
    by (rule hslog_prepare_output_line) (use assms(2,3) in simp_all)
  have sent: "hslog_to_network msg n (sModuleName ?c) ml = Inr (ml\<lparr>ml_seq := ml_seq ml + 1\<rparr>, network_outs n (sModuleName ?c) msg ml)" for ml
    using assms(2,3,6) by (simp add: hslog_to_network_eq)
  have "case hslog_body env n msg s1 of Inl e \<Rightarrow> False | Inr (s2, x) \<Rightarrow> holds t s2 (Suc d)
      \<and> cfg (log_rest s2) = ?c \<and> files (log_rest s2) = ?fs \<and> x = ?outs"
    if "holds t s1 (Suc d)" "log_rest s1 = log_rest st" for s1
    using that(1) log_rest_simps [OF that(2)] assms(4,5,7) short line sent
    by (auto simp: hslog_body_def Let_def hslog_to_file_def log_rest_def holds_def)
  from hl.bracket_holds [where f = "hslog_body env n msg" and E = "\<lambda>e. False" and Q = "\<lambda>r x. cfg r = ?c \<and> files r = ?fs \<and> x = ?outs", OF assms(1) this]
  obtain r where "hslog env t n msg st = Some r" "case r of Inl e \<Rightarrow> False | Inr (s', x) \<Rightarrow> holds t s' d \<and>
      (cfg (log_rest s') = ?c \<and> files (log_rest s') = ?fs \<and> x = ?outs)"
    unfolding hslog_def with_lock_def by blast
  then show ?thesis by (cases r) (auto simp: log_rest_def)
qed

text \<open>
  \<open>hslog_panic\<close> always fails: no severity name is left for its level.  \<open>hslog_error\<close> is the call
  with the place in the source in front.
\<close>

lemma hslog_panic_fails:
  assumes "holds t st d" "\<not> nSilent (cfg st)" "nLogLevel (cfg st) \<le> 7" "prepare_output_func st = hslog_prepare_output"
    and "length (SOURCE_THROW_LOCATION file ln @ msg) < MAXMSG"
  shows "hslog_panic file ln env t msg st = Some (Inl (Memory OutOfBounds))"
proof -
  let ?m = "SOURCE_THROW_LOCATION file ln @ msg"
  have l: "int (unat (nLogLevel (cfg st))) \<le> 7" using assms(3) by (simp add: word_le_def)
  have "hslog_body env HSLOG_PANIC ?m s1 = Inl (Memory OutOfBounds)" if "log_rest s1 = log_rest st" for s1
    using assms(2,4,5) l log_rest_simps [OF that] hslog_prepare_output_line [of 7 "cfg s1" ?m env]
    by (simp add: hslog_body_def HSLOG_PANIC_def HSLOG_DEBUG_def HSLOG_LIVE_def hslog_to_network_def logSeverity_def Let_def
        split: sum.splits)
  then have b: "case hslog_body env HSLOG_PANIC ?m s1 of Inl e \<Rightarrow> e = Memory OutOfBounds | Inr (s2, x) \<Rightarrow> holds t s2 (Suc d) \<and> False"
    if "holds t s1 (Suc d)" "log_rest s1 = log_rest st" for s1 using that by simp
  from hl.bracket_holds [where f = "hslog_body env HSLOG_PANIC ?m" and E = "\<lambda>e. e = Memory OutOfBounds" and Q = "\<lambda>r x. False", OF assms(1) b]
  obtain r where "hslog env t HSLOG_PANIC ?m st = Some r" "case r of Inl e \<Rightarrow> e = Memory OutOfBounds | Inr (s', x) \<Rightarrow> holds t s' d \<and> False"
    unfolding hslog_def with_lock_def by blast
  then show ?thesis by (cases r) (auto simp: hslog_panic_def)
qed

text \<open>With \<open>nSilent\<close> set, messages of level LIVE and DEBUG come to nothing.\<close>

lemma hslog_silenced:
  assumes "holds t st d" "nSilent (cfg st)" "n = HSLOG_DEBUG \<or> n = HSLOG_LIVE"
  shows "\<exists>st'. hslog env t n msg st = Some (Inr (st', [])) \<and> holds t st' d \<and> cfg st' = cfg st \<and> files st' = files st"
proof -
  have "case hslog_body env n msg s1 of Inl e \<Rightarrow> False | Inr (s2, x) \<Rightarrow> holds t s2 (Suc d)
      \<and> cfg (log_rest s2) = cfg st \<and> files (log_rest s2) = files st \<and> x = []"
    if "holds t s1 (Suc d)" "log_rest s1 = log_rest st" for s1
    using that(1) log_rest_simps [OF that(2)] assms(2,3) by (auto simp: hslog_body_def Let_def log_rest_def)
  from hl.bracket_holds [where f = "hslog_body env n msg" and E = "\<lambda>e. False"
      and Q = "\<lambda>r x. cfg r = cfg st \<and> files r = files st \<and> x = []", OF assms(1) this]
  obtain r where "hslog env t n msg st = Some r" "case r of Inl e \<Rightarrow> False | Inr (s', x) \<Rightarrow> holds t s' d \<and>
      (cfg (log_rest s') = cfg st \<and> files (log_rest s') = files st \<and> x = [])"
    unfolding hslog_def with_lock_def by blast
  then show ?thesis by (cases r) (auto simp: log_rest_def)
qed

text \<open>
  C27: A message of level LIVE to FATAL that fits.  When \<open>nSilent\<close> is set and
  the level is LIVE or DEBUG it leaves no trace.  Otherwise it is printed exactly when its level
  reaches \<open>nLogLevel\<close>, appended to the file exactly when files are on and it reaches \<open>nFileLevel\<close>
  (the file can be opened), and sent to the network when it reaches either.  The lock and the
  configuration are as before.
\<close>

theorem hslog_routes_message:
  assumes "holds t st d" "1 \<le> n" "n \<le> 6" "prepare_output_func st = hslog_prepare_output"
    and "length (network_text n (sModuleName (cfg st)) msg) \<le> 1391" "e_fopen env"
    and "quiet = (nSilent (cfg st) \<and> n \<in> {HSLOG_LIVE, HSLOG_DEBUG})"
  shows "\<exists>st'. hslog env t n msg st = Some (Inr (st',
      (if \<not> quiet \<and> int (unat (nLogLevel (cfg st))) \<le> n then [Console (log_line env (cfg st) n msg)] else [])
      @ (if \<not> quiet \<and> (int (unat (nLogLevel (cfg st))) \<le> n \<or> int (unat (nFileLevel (cfg st))) \<le> n)
         then network_outs n (sModuleName (cfg st)) msg (net st) else [])))
    \<and> holds t st' d \<and> cfg st' = cfg st
    \<and> files st' = (if \<not> quiet \<and> nToFile (cfg st) \<and> int (unat (nFileLevel (cfg st))) \<le> n
         then (files st)(log_file (sFileName (cfg st)) \<mapsto>
           text_of (files st (log_file (sFileName (cfg st)))) @ log_line env (cfg st) n msg @ [nl])
         else files st)"
proof (cases quiet)
  case True
  with assms(7) hslog_silenced [OF assms(1)] show ?thesis by auto
next
  case False
  with assms(7) have "\<not> (nSilent (cfg st) \<and> (n = HSLOG_DEBUG \<or> n = HSLOG_LIVE))" by blast
  from hslog_message [OF assms(1-4) this assms(5,6)] False show ?thesis by simp
qed

text \<open>A log like that of the service after \<open>main\<close> has set it up.\<close>

definition log_example :: log_state where
  "log_example = \<lparr> cfg = \<lparr> sFileName = ''udp-service.log'', sModuleName = ''UDP-service'', nLogFileSize = 5242880, nFileLevel = 0,
       nLogLevel = 3, nToFile = True, nPretty = False, nTdSafe = True, nErrLog = False, nSilent = False, nSync = True \<rparr>,
     hslogLock = \<lparr> m_live = True, m_owner = None, m_depth = 0 \<rparr>, prepare_output_func = hslog_prepare_output,
     net = \<lparr> ml_seq = 0, networkLoggingEnabled = True, unicastLoggingEnabled = False \<rparr>, files = (\<lambda>_. None) \<rparr>"

definition env_noon :: log_env where
  "env_noon = \<lparr> e_tm = \<lparr> tm_year = 119, tm_mon = 4, tm_mday = 7, tm_hour = 12, tm_min = 0, tm_sec = 9 \<rparr>, e_nsec = 50000000,
     e_fopen = True, e_mutex = True \<rparr>"

lemma holds_log_example: "holds t log_example 0"
  by (simp add: holds_def log_example_def)

theorem hslog_routes_message_witness:
  "\<exists>st'. hslog env_noon 1 2 ''up'' log_example = Some (Inr (st', [Multicast ''<WARNING> [UDP-service] - up'']))
    \<and> holds 1 st' 0 \<and> cfg st' = cfg log_example \<and> files st' (log_file ''udp-service.log'') = Some (log_line env_noon (cfg log_example) 2 ''up'' @ [nl])"
proof -
  have c: "cfg log_example = \<lparr> sFileName = ''udp-service.log'', sModuleName = ''UDP-service'', nLogFileSize = 5242880, nFileLevel = 0,
       nLogLevel = 3, nToFile = True, nPretty = False, nTdSafe = True, nErrLog = False, nSilent = False, nSync = True \<rparr>"
    "prepare_output_func log_example = hslog_prepare_output" "files log_example = (\<lambda>_. None)"
    "net log_example = \<lparr> ml_seq = 0, networkLoggingEnabled = True, unicastLoggingEnabled = False \<rparr>"
    by (simp_all add: log_example_def)
  have tx: "network_text 2 ''UDP-service'' ''up'' = ''<WARNING> [UDP-service] - up''" by (simp add: network_text_def logSeverity_def)
  have "length (network_text 2 (sModuleName (cfg log_example)) ''up'') \<le> 1391" using tx by (simp add: c)
  from hslog_routes_message [where t = 1 and env = env_noon, OF holds_log_example _ _ c(2) this _ refl]
  obtain st' where "hslog env_noon 1 2 ''up'' log_example = Some (Inr (st', [Multicast ''<WARNING> [UDP-service] - up'']))"
    "holds 1 st' 0" "cfg st' = cfg log_example"
    "files st' = [log_file ''udp-service.log'' \<mapsto> text_of None @ log_line env_noon (cfg log_example) 2 ''up'' @ [nl]]"
    using tx by (auto simp: c network_outs_def env_noon_def)
  then show ?thesis by (auto simp: text_of_def)
qed

section \<open>Every call gives the lock back\<close>

lemma hslog_body_holds:
  assumes "holds t s d"
  shows "case hslog_body env n msg s of Inl e \<Rightarrow> \<exists>m. e = Memory m | Inr (s', x) \<Rightarrow> holds t s' d"
  using assms
  by (auto simp: hslog_body_def Let_def hslog_to_file_def holds_def split: sum.splits)

lemma hslog_config_get_keeps:
  assumes "holds t st d"
  shows "\<exists>st'. hslog_config_get t p st = Some (Inr (st', (cfg st)\<lparr>nSync := nSync p\<rparr>)) \<and> holds t st' d \<and> cfg st' = cfg st
    \<and> net st' = net st"
proof -
  let ?f = "\<lambda>s1. Inr (s1, (cfg s1)\<lparr>nSync := nSync p\<rparr>)"
  let ?Q = "\<lambda>r x. x = (cfg st)\<lparr>nSync := nSync p\<rparr> \<and> cfg r = cfg st \<and> net r = net st"
  have "case ?f s1 of Inl e \<Rightarrow> False | Inr (s2, x) \<Rightarrow> holds t s2 (Suc d) \<and> ?Q (log_rest s2) x"
    if "holds t s1 (Suc d)" "log_rest s1 = log_rest st" for s1
    using that log_rest_simps [OF that(2)] by (simp add: log_rest_def)
  from hl.bracket_holds [where f = ?f and E = "\<lambda>e. False" and Q = ?Q, OF assms this]
  obtain r where "hslog_config_get t p st = Some r" "case r of Inl e \<Rightarrow> False | Inr (s', x) \<Rightarrow> holds t s' d \<and> ?Q (log_rest s') x"
    unfolding hslog_config_get_def with_lock_def by blast
  then show ?thesis by (cases r) (auto simp: log_rest_def)
qed

lemma hslog_config_set_unlocked:
  assumes "holds t st 0" "e_mutex env"
  shows "\<exists>st'. hslog_config_set env t p st = Some (Inr st') \<and> holds t st' 0 \<and> cfg st' = p\<lparr>nSync := nTdSafe p\<rparr>"
proof (cases "nTdSafe (cfg st)"; cases "nTdSafe p")
qed (use assms in \<open>simp_all add: holds_def hslog_config_set_def hslog_sync_lock_def mutex_lock_def hslog_sync_unlock_def
    mutex_unlock_def hslog_sync_init_def mutex_init_def hslog_sync_destroy_def mutex_destroy_def Let_def\<close>)

text \<open>
  C26: From any state in which the caller may hold the lock \<open>d\<close> times, a call of
  \<open>hslog\<close> or \<open>hslog_config_get\<close> neither waits nor fails on the lock and leaves it held \<open>d\<close> times; so
  does \<open>hslog_config_set\<close> from \<open>d = 0\<close>, whether it makes the lock (the mutex can be made), destroys it or keeps it, and
  the configuration asked for is then in force.
\<close>

theorem log_calls_give_lock_back:
  assumes "holds t st d" "holds t st0 0" "e_mutex env"
  shows "(\<exists>r. hslog env t n msg st = Some r \<and> (case r of Inl e \<Rightarrow> \<exists>m. e = Memory m | Inr (st', outs) \<Rightarrow> holds t st' d))
    \<and> (\<exists>st'. hslog_config_get t p st = Some (Inr (st', (cfg st)\<lparr>nSync := nSync p\<rparr>)) \<and> holds t st' d)
    \<and> (\<exists>st'. hslog_config_set env t p st0 = Some (Inr st') \<and> holds t st' 0 \<and> cfg st' = p\<lparr>nSync := nTdSafe p\<rparr>)"
proof (intro conjI)
  show "\<exists>r. hslog env t n msg st = Some r \<and> (case r of Inl e \<Rightarrow> \<exists>m. e = Memory m | Inr (st', outs) \<Rightarrow> holds t st' d)"
  proof -
    have "case hslog_body env n msg s1 of Inl e \<Rightarrow> \<exists>m. e = Memory m | Inr (s2, x) \<Rightarrow> holds t s2 (Suc d) \<and> True"
      if "holds t s1 (Suc d)" for s1
      using hslog_body_holds [OF that, of env n msg] by (simp split: sum.splits prod.splits)
    from hl.bracket_holds [where f = "hslog_body env n msg" and E = "\<lambda>e. \<exists>m. e = Memory m" and Q = "\<lambda>r x. True",
        OF assms(1) this] show ?thesis unfolding hslog_def with_lock_def simp_thms .
  qed
  show "\<exists>st'. hslog_config_get t p st = Some (Inr (st', (cfg st)\<lparr>nSync := nSync p\<rparr>)) \<and> holds t st' d"
    using hslog_config_get_keeps [OF assms(1)] by blast
qed (rule hslog_config_set_unlocked [OF assms(2,3)])

theorem log_calls_give_lock_back_witness:
  "\<exists>st'. hslog_config_set env_noon 1 ((cfg log_example)\<lparr>nTdSafe := False\<rparr>) log_example = Some (Inr st') \<and> holds 1 st' 0
    \<and> cfg st' = (cfg log_example)\<lparr>nTdSafe := False, nSync := False\<rparr>"
proof -
  have "e_mutex env_noon" by (simp add: env_noon_def)
  from log_calls_give_lock_back [OF holds_log_example holds_log_example this, where p = "(cfg log_example)\<lparr>nTdSafe := False\<rparr>"]
  show ?thesis by auto
qed

text \<open>
  When the lock could not be made, \<open>nSync\<close> claims that it was: the next request for locking finds
  no lock to make and gives back one that does not exist.
\<close>

lemma failed_lock_recorded_as_made:
  assumes "holds t st 0" "\<not> nTdSafe (cfg st)" "nTdSafe p" "\<not> e_mutex env" "nTdSafe q"
  shows "\<exists>st'. hslog_config_set env t p st = Some (Inr st') \<and> \<not> nTdSafe (cfg st') \<and> nSync (cfg st')
    \<and> hslog_config_set env' t q st' = Some (Inl MutexNotMade)"
  using assms by (simp add: holds_def hslog_config_set_def hslog_sync_lock_def hslog_sync_unlock_def hslog_sync_init_def
      mutex_unlock_def Let_def)

end
