(* ===== verification/Log_Config.thy ===== *)
theory Log_Config
  imports Hslog
begin

text \<open>
  How the log is configured and kept: \<open>hslog_parse_config\<close> and \<open>hslog_init\<close> of
  \<open>src/hslog/hslog.c\<close>, \<open>src/hslog/hslog-rotate.c\<close>, and
  \<open>init_network_log\<close> of \<open>src/hslog/hslog-multicast.c\<close>.  A file is its contents.
\<close>

section \<open>\<open>hslog_parse_config\<close>\<close>

text \<open>\<open>atoi\<close>: \<open>strtol\<close>, which saturates at 64 bits, cut down to an \<open>int\<close>.\<close>

definition atoi :: "string \<Rightarrow> int" where
  "atoi s =
     (let t = dropWhile is_space s;
          neg = (t \<noteq> [] \<and> hd t = CHR ''-'');
          u = (if t \<noteq> [] \<and> (hd t = CHR ''-'' \<or> hd t = CHR ''+'') then tl t else t);
          v = int (digits_val (takeWhile is_digit u));
          x = (if neg then - v else v)
      in sint (of_int (max (- (2 ^ 63)) (min (2 ^ 63 - 1) x)) :: u32))"

text \<open>
  One \<open>fscanf\<close> with \<open>%s %[^\n]\<close>, into 32 and 256 bytes: \<open>None\<close> when it does not fill both.
\<close>

definition scan_entry :: "string \<Rightarrow> (c_error + (string \<times> string \<times> string)) option" where
  "scan_entry xs =
     (let t = dropWhile is_space xs;
          sName = takeWhile (\<lambda>c. \<not> is_space c) t;
          u = dropWhile is_space (dropWhile (\<lambda>c. \<not> is_space c) t);
          sArg = takeWhile (\<lambda>c. c \<noteq> nl) u;
          rest = dropWhile is_space (dropWhile (\<lambda>c. c \<noteq> nl) u)
      in if sName = [] then None
         else if 32 \<le> length sName then Some (Inl OutOfBounds)
         else if sArg = [] then None
         else if 256 \<le> length sArg then Some (Inl OutOfBounds)
         else Some (Inr (sName, sArg, rest)))"

text \<open>A value assigned to a field of one bit keeps its lowest bit.\<close>

definition apply_entry :: "string \<Rightarrow> string \<Rightarrow> log_state \<Rightarrow> log_state" where
  "apply_entry sName sArg st =
     (let c = cfg st; v = atoi sArg in
      if sName = ''LOGLEVEL'' then st\<lparr>cfg := c\<lparr>nLogLevel := of_int v\<rparr>\<rparr>
      else if sName = ''LOGFILELEVEL'' then st\<lparr>cfg := c\<lparr>nFileLevel := of_int v\<rparr>\<rparr>
      else if sName = ''LOGTOFILE'' then st\<lparr>cfg := c\<lparr>nToFile := odd v\<rparr>\<rparr>
      else if sName = ''ERRORLOG'' then st\<lparr>cfg := c\<lparr>nErrLog := odd v\<rparr>\<rparr>
      else if sName = ''PRETTYLOG'' then st\<lparr>cfg := c\<lparr>nPretty := odd v\<rparr>\<rparr>
      else if sName = ''LOGFILESIZE'' then st\<lparr>cfg := c\<lparr>nLogFileSize := of_int v\<rparr>\<rparr>
      else if sName = ''MULTICAST''
      then st\<lparr>net := (if v \<noteq> 0 then enable_network_logging (net st) else disable_network_logging (net st))\<rparr>
      else if sName = ''UNICAST''
      then st\<lparr>net := (if v \<noteq> 0 then enable_unicast_logging (net st) else disable_unicast_logging (net st))\<rparr>
      else st)"

lemma scan_entry_shorter: "scan_entry xs = Some (Inr (k, v, rest)) \<Longrightarrow> length rest < length xs"
proof -
  assume s: "scan_entry xs = Some (Inr (k, v, rest))"
  let ?t = "dropWhile is_space xs"
  have k: "takeWhile (\<lambda>c. \<not> is_space c) ?t \<noteq> []"
    and r: "rest = dropWhile is_space (dropWhile (\<lambda>c. c \<noteq> nl) (dropWhile is_space (dropWhile (\<lambda>c. \<not> is_space c) ?t)))"
    using s by (auto simp: scan_entry_def Let_def split: if_splits)
  have "length rest \<le> length (dropWhile (\<lambda>c. \<not> is_space c) ?t)"
    unfolding r by (metis length_dropWhile_le le_trans)
  also have "\<dots> < length (takeWhile (\<lambda>c. \<not> is_space c) ?t) + length (dropWhile (\<lambda>c. \<not> is_space c) ?t)"
    using k by (simp only: length_greater_0_conv less_add_same_cancel2 not_False_eq_True)
  also have "\<dots> = length ?t" by (metis length_append takeWhile_dropWhile_id)
  also have "\<dots> \<le> length xs" by (rule length_dropWhile_le)
  finally show ?thesis .
qed

function parse_loop :: "string \<Rightarrow> log_state \<Rightarrow> c_error + log_state" where
  "parse_loop xs st =
     (case scan_entry xs of
        None \<Rightarrow> Inr st
      | Some r \<Rightarrow> (case r of Inl e \<Rightarrow> Inl e
         | Inr (sName, sArg, rest) \<Rightarrow>
             if hd sName = CHR ''#'' then parse_loop rest st
             else parse_loop rest (apply_entry sName sArg st)))"
  by pat_completeness auto
termination
  by (relation "measure (\<lambda>(xs, st). length xs)") (auto dest: scan_entry_shorter)

declare parse_loop.simps [simp del]

definition hslog_parse_config :: "string option \<Rightarrow> log_state \<Rightarrow> c_error + (log_state \<times> int)" where
  "hslog_parse_config file st =
     (case file of None \<Rightarrow> Inr (st, 0)
      | Some xs \<Rightarrow> (case parse_loop xs st of Inl e \<Rightarrow> Inl e | Inr st' \<Rightarrow> Inr (st', 1)))"

section \<open>\<open>hslog_init\<close>\<close>

definition hslog_init :: "log_env \<Rightarrow> string \<Rightarrow> string option \<Rightarrow> int \<Rightarrow> int \<Rightarrow> log_state \<Rightarrow> c_error + log_state" where
  "hslog_init env pName conf lvl tdSafe st =
     (if 64 \<le> length pName then Inl OutOfBounds
      else (let st1 = hslog_sync_init env (st\<lparr>cfg :=
                  \<lparr> sFileName = pName, sModuleName = [], nLogFileSize = 1024 * 1024 * 5, nFileLevel = 0, nLogLevel = of_int lvl,
                    nToFile = False, nPretty = False, nTdSafe = odd tdSafe, nErrLog = False, nSilent = False, nSync = False \<rparr>\<rparr>)
            in case hslog_parse_config conf st1 of Inl e \<Rightarrow> Inl e | Inr (st2, r) \<Rightarrow> Inr st2))"

definition UDP_SERVICE_LOG :: string where "UDP_SERVICE_LOG = ''udp-service.log''"
definition SERVICE_LOG_CFG :: string where "SERVICE_LOG_CFG = ''udpservice_log.cfg''"

section \<open>Setting up the log in \<open>main\<close>\<close>

text \<open>
  The calls at the start of \<open>main\<close>, by its thread \<open>t\<close>, on the file \<open>conf\<close>.  \<open>slgCfg\<close> is the local
  record, not initialised before it is filled in.
\<close>

definition main_log_setup :: "log_env \<Rightarrow> tid \<Rightarrow> HSlogConfig \<Rightarrow> string option \<Rightarrow> log_state \<Rightarrow> (log_stop + log_state) option" where
  "main_log_setup env t slgCfg conf st =
     (case hslog_init env UDP_SERVICE_LOG conf 0 1 st of
        Inl e \<Rightarrow> Some (Inl (Memory e))
      | Inr st1 \<Rightarrow>
          (case hslog_set_module (Some ''UDP-service'') st1 of
             Inl e \<Rightarrow> Some (Inl (Memory e))
           | Inr st2 \<Rightarrow>
               (case hslog_config_get t slgCfg st2 of
                  None \<Rightarrow> None
                | Some (Inl e) \<Rightarrow> Some (Inl e)
                | Some (Inr (st3, slgCfg')) \<Rightarrow> hslog_config_set env t (slgCfg'\<lparr>nToFile := False, nPretty := True\<rparr>) st3)))"

section \<open>Rotation: \<open>hslog-rotate.c\<close>\<close>

definition fmt04d :: "int \<Rightarrow> string" where
  "fmt04d x = (if x < 0 then CHR ''-'' # replicate (3 - length (decimal (nat (- x)))) (CHR ''0'') @ decimal (nat (- x))
     else replicate (4 - length (decimal (nat x))) (CHR ''0'') @ decimal (nat x))"

text \<open>\<open>GetTimestamp\<close> with a buffer of \<open>len\<close> bytes; \<open>None\<close> for the time when it cannot be read.\<close>

definition GetTimestamp :: "tm option \<Rightarrow> nat \<Rightarrow> string" where
  "GetTimestamp now len =
     (if 19 < len
      then (case now of None \<Rightarrow> []
            | Some t \<Rightarrow>
                (let s = fmt04d (tm_year t + 1900) @ ''-'' @ fmt02d (tm_mon t + 1) @ ''-'' @ fmt02d (tm_mday t) @ ''-''
                       @ fmt02d (tm_hour t) @ ''-'' @ fmt02d (tm_min t) @ ''-'' @ fmt02d (tm_sec t)
                 in if length s \<noteq> 19 then [] else snprintf len s))
      else [])"

text \<open>\<open>get_logfilesize\<close> returns an \<open>int\<close>; compared with an unsigned 64-bit size it is sign-extended.\<close>

definition get_logfilename :: "HSlogConfig \<Rightarrow> string" where
  [simp]: "get_logfilename c = sFileName c"

definition get_logfilesize :: "HSlogConfig \<Rightarrow> u64" where
  "get_logfilesize c = scast (ucast (nLogFileSize c) :: u32)"

definition archive_name :: "HSlogConfig \<Rightarrow> string \<Rightarrow> string" where
  "archive_name c stamp = snprintf 256 (get_logfilename c @ ''-'' @ stamp @ ''.log'')"

definition hslog_rotatelogfile :: "log_env \<Rightarrow> bool \<Rightarrow> tid \<Rightarrow> log_state \<Rightarrow> (log_stop + (log_state \<times> log_out list)) option" where
  "hslog_rotatelogfile env fstat_ok t st =
     (case hslog_sync_lock t st of None \<Rightarrow> None
      | Some (Inl e) \<Rightarrow> Some (Inl e)
      | Some (Inr st1) \<Rightarrow>
          (let c = cfg st1; f = log_file (get_logfilename c);
               unlock = (\<lambda>s outs. Some (case hslog_sync_unlock t s of Inl e \<Rightarrow> Inl e | Inr s' \<Rightarrow> Inr (s', outs)))
           in if \<not> e_fopen env then unlock st1 []
              else (let text = text_of (files st1 f); st2 = st1\<lparr>files := (files st1)(f \<mapsto> text)\<rparr>
                in if \<not> fstat_ok then unlock st2 []
                   else if get_logfilesize c < of_nat (length text)
                   then (let arch = archive_name c (GetTimestamp (Some (e_tm env)) 32);
                             st3 = st2\<lparr>files := (files st2)(f := None, arch \<mapsto> text)\<rparr>
                         in case hslog env t HSLOG_INFO ''Logfile archived.'' st3 of None \<Rightarrow> None
                            | Some (Inl e) \<Rightarrow> Some (Inl e)
                            | Some (Inr (st4, outs)) \<Rightarrow> unlock st4 outs)
                   else unlock st2 [])))"

section \<open>\<open>init_network_log\<close>\<close>

text \<open>
  Answers of the system to the calls in their order: three sockets, four options, \<open>bind\<close>,
  \<open>uname\<close> and the two thread calls.  \<open>addr\<close> is what \<open>inet_addr\<close> makes of the group, \<open>ttl_arg\<close> the
  number read from the argument \<open>ttl\<close> when it is not NULL.
\<close>

record net_answers =
  n_send :: int
  n_ttl_opt :: int
  n_loop_opt :: int
  n_recv :: int
  n_reuse_opt :: int
  n_bind :: int
  n_member_opt :: int
  n_unicast :: int
  n_uname :: int
  n_attr :: int
  n_thread :: int

record net_sockets =
  send_s :: int
  recv_s :: int
  sock_unicast :: int
  ttl :: u8
  group_addr :: u32
  group_port :: u16

definition init_network_log :: "u32 \<Rightarrow> int option \<Rightarrow> u16 \<Rightarrow> net_answers \<Rightarrow> log_stop + (net_sockets \<times> int)" where
  "init_network_log addr ttl_arg port a =
     (if n_send a < 0 then Inl ExitFailure
      else (let tt = (case ttl_arg of Some s \<Rightarrow> of_int s | None \<Rightarrow> 1) in
        if n_ttl_opt a < 0 \<or> n_loop_opt a < 0 \<or> n_recv a < 0 \<or> n_reuse_opt a < 0 \<or> n_bind a < 0
           \<or> n_member_opt a < 0 \<or> n_unicast a < 0 \<or> n_uname a < 0 then Inl ExitFailure
        else (let s = \<lparr> send_s = n_send a, recv_s = n_recv a, sock_unicast = n_unicast a, ttl = tt, group_addr = addr, group_port = port \<rparr>
              in if n_attr a \<noteq> 0 then Inr (s, n_attr a)
                 else if n_thread a < 0 then Inr (s, n_thread a)
                 else Inr (s, 0))))"

section \<open>Files of settings\<close>

text \<open>A name of a setting: no white space, not a comment, short enough for the buffer.\<close>

definition setting_ok :: "string \<times> nat \<Rightarrow> bool" where
  "setting_ok e \<longleftrightarrow> fst e \<noteq> [] \<and> (\<forall>c \<in> set (fst e). \<not> is_space c) \<and> hd (fst e) \<noteq> CHR ''#'' \<and> length (fst e) < 32
     \<and> snd e < 2 ^ 31"

definition setting_text :: "string \<times> nat \<Rightarrow> string" where
  "setting_text e = fst e @ '' '' @ decimal (snd e) @ [nl]"

definition settings_text :: "(string \<times> nat) list \<Rightarrow> string" where
  "settings_text es = concat (map setting_text es)"

lemma decimal_no_space: "\<forall>c \<in> set (decimal n). \<not> is_space c \<and> c \<noteq> nl"
proof
  fix c
  assume "c \<in> set (decimal n)"
  then obtain d where "d < 10" "c = char_of (48 + d :: nat)" using decimal_chars(2) by blast
  then have "\<not> is_space c" using digit_char(3) by blast
  moreover have "is_space nl" by (simp add: is_space_def)
  ultimately show "\<not> is_space c \<and> c \<noteq> nl" by metis
qed

lemma decimal_length: "n < 10 ^ k \<Longrightarrow> 0 < k \<Longrightarrow> length (decimal n) \<le> k"
proof (induction n arbitrary: k rule: decimal.induct)
  case (1 n)
  show ?case
  proof (cases "n < 10")
    case True then show ?thesis using 1(3) by (subst decimal.simps) simp
  next
    case False
    then obtain j where k: "k = Suc j" "0 < j" using 1(2) by (cases k; cases "k - 1") auto
    then have "n div 10 < 10 ^ j" using 1(2) by (simp add: less_mult_imp_div_less mult.commute)
    then have "length (decimal (n div 10)) \<le> j" using 1(1) False k(2) by blast
    then show ?thesis using False k(1) by (subst decimal.simps) simp
  qed
qed

lemma atoi_decimal: assumes "n < 2 ^ 31" shows "atoi (decimal n) = int n"
proof -
  have "hd (decimal n) \<in> set (decimal n)" using decimal_chars(1) by simp
  then obtain d where d: "d < 10" "hd (decimal n) = char_of (48 + d :: nat)" using decimal_chars(2) by blast
  have "\<not> is_space (hd (decimal n))" unfolding d(2) by (rule digit_char(3) [OF d(1)])
  then have sp: "dropWhile is_space (decimal n) = decimal n"
    using decimal_chars(1) [of n] by (cases "decimal n") simp_all
  have "\<forall>c \<in> set (decimal n). is_digit c" using decimal_chars(2) [of n] by (metis digit_char(1))
  then have tw: "takeWhile is_digit (decimal n) = decimal n" by simp
  have sg: "(hd (decimal n) = CHR ''-'') = False" "(hd (decimal n) = CHR ''+'') = False"
    unfolding d(2) using digit_char(4,5) [OF d(1)] by blast+
  have "max (- (2 ^ 63)) (min (2 ^ 63 - 1) (int n)) = int n" using assms by simp
  then have a: "atoi (decimal n) = sint (of_int (int n) :: u32)"
    unfolding atoi_def Let_def sp sg simp_thms if_False tw digits_val_decimal by (simp only:)
  have "signed_take_bit 31 (int n) = int n"
    by (rule signed_take_bit_int_eq_self) (use assms in simp_all)
  then show ?thesis unfolding a by (simp add: signed_of_nat)
qed

lemma dropWhile_space_idem: "parse_loop (dropWhile is_space xs) st = parse_loop xs st"
proof -
  have "scan_entry (dropWhile is_space xs) = scan_entry xs" by (simp add: scan_entry_def)
  then show ?thesis by (simp add: parse_loop.simps [of xs] parse_loop.simps [of "dropWhile is_space xs"])
qed

text \<open>A word, one blank and the rest of a line.\<close>

lemma scan_entry_line:
  assumes "k \<noteq> []" "\<forall>c \<in> set k. \<not> is_space c" "length k < 32"
    and "v \<noteq> []" "\<not> is_space (hd v)" "\<forall>c \<in> set v. c \<noteq> nl" "length v < 256" "is_space b"
  shows "scan_entry (k @ b # v @ nl # xs) = Some (Inr (k, v, dropWhile is_space xs))"
proof -
  obtain a k' where k: "k = a # k'" "\<not> is_space a" using assms(1,2) by (cases k) auto
  have t: "dropWhile is_space (k @ b # v @ nl # xs) = k @ b # v @ nl # xs" using k by simp
  have nm: "takeWhile (\<lambda>c. \<not> is_space c) (k @ b # v @ nl # xs) = k" "dropWhile (\<lambda>c. \<not> is_space c) (k @ b # v @ nl # xs) = b # v @ nl # xs"
    using assms(2,8) by (simp_all add: takeWhile_append2 dropWhile_append2)
  have u: "dropWhile is_space (b # v @ nl # xs) = v @ nl # xs" using assms(4,5,8) by (cases v) simp_all
  have a: "takeWhile (\<lambda>c. c \<noteq> nl) (v @ nl # xs) = v" "dropWhile (\<lambda>c. c \<noteq> nl) (v @ nl # xs) = nl # xs"
    using assms(6) by (simp_all add: takeWhile_append2 dropWhile_append2)
  have "is_space nl" by (simp add: is_space_def)
  then have r: "dropWhile is_space (nl # xs) = dropWhile is_space xs" by simp
  show ?thesis unfolding scan_entry_def Let_def t nm u a r using assms(1,3,4,7) by simp
qed

lemma parse_loop_setting:
  assumes "setting_ok e"
  shows "parse_loop (setting_text e @ xs) st = parse_loop xs (apply_entry (fst e) (decimal (snd e)) st)"
proof -
  let ?v = "decimal (snd e)"
  have v: "?v \<noteq> []" "\<not> is_space (hd ?v)" "\<forall>c \<in> set ?v. c \<noteq> nl"
    using decimal_chars(1) [of "snd e"] decimal_no_space [of "snd e"] hd_in_set by blast+
  have "length ?v \<le> 10" by (rule decimal_length) (use assms in \<open>simp_all add: setting_ok_def\<close>)
  then have l: "length ?v < 256" by simp
  have b: "is_space CHR '' ''" by (simp add: is_space_def)
  have "scan_entry (setting_text e @ xs) = Some (Inr (fst e, ?v, dropWhile is_space xs))"
    using scan_entry_line [OF _ _ _ v l b, of "fst e" xs] assms by (simp add: setting_text_def setting_ok_def)
  then show ?thesis using assms by (simp add: parse_loop.simps [of "setting_text e @ xs"] setting_ok_def dropWhile_space_idem)
qed

lemma parse_loop_settings:
  assumes "\<forall>e \<in> set es. setting_ok e"
  shows "parse_loop (settings_text es) st = Inr (fold (\<lambda>e. apply_entry (fst e) (decimal (snd e))) es st)"
  using assms
proof (induction es arbitrary: st)
  case Nil
  then show ?case by (simp add: settings_text_def parse_loop.simps [of "[]"] scan_entry_def)
next
  case (Cons e es)
  then have "parse_loop (setting_text e @ settings_text es) st = parse_loop (settings_text es) (apply_entry (fst e) (decimal (snd e)) st)"
    by (intro parse_loop_setting) simp
  with Cons show ?case by (simp add: settings_text_def)
qed

lemma apply_entry_fields:
  assumes "n < 2 ^ 31"
  shows
    "nLogLevel (cfg (apply_entry k (decimal n) st)) = (if k = ''LOGLEVEL'' then of_nat n else nLogLevel (cfg st))"
    "nFileLevel (cfg (apply_entry k (decimal n) st)) = (if k = ''LOGFILELEVEL'' then of_nat n else nFileLevel (cfg st))"
    "nToFile (cfg (apply_entry k (decimal n) st)) = (if k = ''LOGTOFILE'' then odd n else nToFile (cfg st))"
    "nErrLog (cfg (apply_entry k (decimal n) st)) = (if k = ''ERRORLOG'' then odd n else nErrLog (cfg st))"
    "nPretty (cfg (apply_entry k (decimal n) st)) = (if k = ''PRETTYLOG'' then odd n else nPretty (cfg st))"
    "nLogFileSize (cfg (apply_entry k (decimal n) st)) = (if k = ''LOGFILESIZE'' then of_nat n else nLogFileSize (cfg st))"
    "networkLoggingEnabled (net (apply_entry k (decimal n) st)) = (if k = ''MULTICAST'' then n \<noteq> 0 else networkLoggingEnabled (net st))"
    "unicastLoggingEnabled (net (apply_entry k (decimal n) st)) = (if k = ''UNICAST'' then n \<noteq> 0 else unicastLoggingEnabled (net st))"
  by (simp_all add: apply_entry_def Let_def atoi_decimal [OF assms] enable_network_logging_def disable_network_logging_def
      enable_unicast_logging_def disable_unicast_logging_def)

lemma apply_entry_frame:
  "hslogLock (apply_entry k v st) = hslogLock st" "files (apply_entry k v st) = files st"
  "nTdSafe (cfg (apply_entry k v st)) = nTdSafe (cfg st)" "nSync (cfg (apply_entry k v st)) = nSync (cfg st)"
  "sModuleName (cfg (apply_entry k v st)) = sModuleName (cfg st)" "sFileName (cfg (apply_entry k v st)) = sFileName (cfg st)"
  "ml_seq (net (apply_entry k v st)) = ml_seq (net st)"
  by (simp_all add: apply_entry_def Let_def enable_network_logging_def disable_network_logging_def
      enable_unicast_logging_def disable_unicast_logging_def)

text \<open>The value of a setting in a file: the last one written under its name.\<close>

definition setting :: "(string \<times> nat) list \<Rightarrow> string \<Rightarrow> (nat \<Rightarrow> 'a) \<Rightarrow> 'a \<Rightarrow> 'a" where
  "setting es k f old = (case map_of (rev es) k of None \<Rightarrow> old | Some n \<Rightarrow> f n)"

lemma setting_simps:
  "setting [] k f old = old" "setting (es @ [(k', n)]) k f old = (if k' = k then f n else setting es k f old)"
  by (simp_all add: setting_def)

definition in_force :: "(string \<times> nat) list \<Rightarrow> log_state \<Rightarrow> log_state \<Rightarrow> bool" where
  "in_force es st st' \<longleftrightarrow>
     nLogLevel (cfg st') = setting es ''LOGLEVEL'' of_nat (nLogLevel (cfg st))
     \<and> nFileLevel (cfg st') = setting es ''LOGFILELEVEL'' of_nat (nFileLevel (cfg st))
     \<and> nToFile (cfg st') = setting es ''LOGTOFILE'' odd (nToFile (cfg st))
     \<and> nErrLog (cfg st') = setting es ''ERRORLOG'' odd (nErrLog (cfg st))
     \<and> nPretty (cfg st') = setting es ''PRETTYLOG'' odd (nPretty (cfg st))
     \<and> nLogFileSize (cfg st') = setting es ''LOGFILESIZE'' of_nat (nLogFileSize (cfg st))
     \<and> networkLoggingEnabled (net st') = setting es ''MULTICAST'' (\<lambda>n. n \<noteq> 0) (networkLoggingEnabled (net st))
     \<and> unicastLoggingEnabled (net st') = setting es ''UNICAST'' (\<lambda>n. n \<noteq> 0) (unicastLoggingEnabled (net st))
     \<and> hslogLock st' = hslogLock st \<and> files st' = files st \<and> sFileName (cfg st') = sFileName (cfg st)
     \<and> sModuleName (cfg st') = sModuleName (cfg st) \<and> nTdSafe (cfg st') = nTdSafe (cfg st)"

lemma settings_in_force:
  assumes "\<forall>e \<in> set es. setting_ok e"
  shows "in_force es st (fold (\<lambda>e. apply_entry (fst e) (decimal (snd e))) es st)"
  using assms
proof (induction es rule: rev_induct)
  case Nil
  show ?case by (simp add: in_force_def setting_simps)
next
  case (snoc e es)
  obtain k n where e: "e = (k, n)" by (cases e)
  have n: "n < 2 ^ 31" using snoc.prems e by (simp add: setting_ok_def)
  have "in_force es st (fold (\<lambda>e. apply_entry (fst e) (decimal (snd e))) es st)" using snoc by simp
  then show ?case unfolding e
    by (simp add: in_force_def setting_simps apply_entry_fields [OF n] apply_entry_frame)
qed

text \<open>
  C28: A file of lines with a name, a blank and a decimal number is read to its
  end, and afterwards every setting has the last value written under its name, cut down to the width of its
  field (one bit for the switches), or its old value; nothing else changes.
\<close>

theorem log_settings_in_force:
  assumes "\<forall>e \<in> set es. setting_ok e"
  shows "\<exists>st'. hslog_parse_config (Some (settings_text es)) st = Inr (st', 1) \<and> in_force es st st'"
  using parse_loop_settings [OF assms, of st] settings_in_force [OF assms, of st] by (simp add: hslog_parse_config_def)

theorem log_settings_in_force_witness:
  "\<exists>st'. hslog_parse_config (Some (settings_text [(''LOGLEVEL'', 3), (''LOGTOFILE'', 2), (''LOGLEVEL'', 5)])) log_example = Inr (st', 1)
    \<and> nLogLevel (cfg st') = 5 \<and> \<not> nToFile (cfg st') \<and> nFileLevel (cfg st') = 0"
proof -
  have "\<forall>e \<in> set [(''LOGLEVEL'', 3), (''LOGTOFILE'', 2), (''LOGLEVEL'', 5)]. setting_ok e"
    by (simp add: setting_ok_def is_space_def)
  from log_settings_in_force [OF this, of log_example] show ?thesis
    by (auto simp: in_force_def setting_def log_example_def)
qed

text \<open>
  A comment of a single word takes the next line with it: the blank
  of the format matches the end of the line, so the setting that follows is read as part of the comment.
\<close>

theorem lone_comment_swallows_line:
  assumes "\<forall>c \<in> set w. \<not> is_space c" "length w < 31" "l \<noteq> []" "\<not> is_space (hd l)" "\<forall>c \<in> set l. c \<noteq> nl" "length l < 256"
  shows "hslog_parse_config (Some (CHR ''#'' # w @ nl # l @ nl # xs)) st = hslog_parse_config (Some xs) st"
proof -
  have sp: "is_space nl" "\<not> is_space CHR ''#''" by (simp_all add: is_space_def)
  have "scan_entry ((CHR ''#'' # w) @ nl # l @ nl # xs) = Some (Inr (CHR ''#'' # w, l, dropWhile is_space xs))"
    by (rule scan_entry_line) (use assms sp in auto)
  then have "parse_loop (CHR ''#'' # w @ nl # l @ nl # xs) st = parse_loop xs st"
    by (subst parse_loop.simps) (simp add: dropWhile_space_idem)
  then show ?thesis by (simp add: hslog_parse_config_def)
qed

theorem lone_comment_swallows_line_witness:
  "hslog_parse_config (Some (CHR ''#'' # ''levels'' @ nl # ''LOGLEVEL 5'' @ nl # [])) log_example = hslog_parse_config (Some []) log_example"
  by (rule lone_comment_swallows_line) (simp_all add: is_space_def)

section \<open>What parsing and initialising leave alone\<close>

lemma parse_loop_frame:
  "parse_loop xs st = Inr st' \<Longrightarrow> hslogLock st' = hslogLock st \<and> nTdSafe (cfg st') = nTdSafe (cfg st) \<and> nSync (cfg st') = nSync (cfg st)
    \<and> sModuleName (cfg st') = sModuleName (cfg st) \<and> sFileName (cfg st') = sFileName (cfg st) \<and> files st' = files st"
proof (induction xs st rule: parse_loop.induct)
  case (1 xs st)
  show ?case
  proof (cases "scan_entry xs")
    case None
    then show ?thesis using 1(3) by (simp add: parse_loop.simps [of xs])
  next
    case (Some r)
    then obtain k v rest where r: "scan_entry xs = Some (Inr (k, v, rest))"
      using 1(3) by (cases r) (auto simp: parse_loop.simps [of xs])
    then show ?thesis using 1 by (cases "hd k = CHR ''#''") (simp_all add: parse_loop.simps [of xs] apply_entry_frame)
  qed
qed

lemma hslog_init_fresh:
  assumes "hslog_init env UDP_SERVICE_LOG conf 0 1 st = Inr st'" "e_mutex env"
  shows "hslogLock st' = \<lparr> m_live = True, m_owner = None, m_depth = 0 \<rparr>" "nTdSafe (cfg st')" "nSync (cfg st')"
    "sModuleName (cfg st') = []" "sFileName (cfg st') = UDP_SERVICE_LOG" "files st' = files st"
  using assms
  by (auto simp: hslog_init_def Let_def hslog_sync_init_def mutex_init_def hslog_parse_config_def UDP_SERVICE_LOG_def
      split: if_splits option.splits sum.splits dest: parse_loop_frame)

section \<open>Rotation\<close>

lemma unat_get_logfilesize:
  assumes "n = unat (nLogFileSize c) mod 2 ^ 32"
  shows "unat (get_logfilesize c) = (if n < 2 ^ 31 then n else 2 ^ 64 - 2 ^ 32 + n)"
proof -
  define w :: u32 where "w = ucast (nLogFileSize c)"
  have w: "unat w = n" using assms by (simp add: w_def unsigned_ucast_eq take_bit_eq_mod)
  have s: "sint w = (if n < 2 ^ 31 then int n else int n - 2 ^ 32)"
  proof -
    have b: "unat w < 2 ^ 32" using unsigned_less [of w] by simp
    have "uint w = int n" using arg_cong [OF w, of int] by simp
    then have "sint w = signed_take_bit 31 (int n)" by (simp add: sint_uint)
    also have "\<dots> = (int n + 2 ^ 31) mod 2 ^ 32 - 2 ^ 31" by (simp add: signed_take_bit_eq_take_bit_shift take_bit_eq_mod)
    also have "\<dots> = (if n < 2 ^ 31 then int n else int n - 2 ^ 32)"
    proof (cases "n < 2 ^ 31")
      case True
      then show ?thesis by (simp add: mod_pos_pos_trivial)
    next
      case False
      have "int n + 2 ^ 31 = (int n - 2 ^ 31) + 2 ^ 32" by simp
      then have "(int n + 2 ^ 31) mod 2 ^ 32 = ((int n - 2 ^ 31) + 2 ^ 32) mod 2 ^ 32" by (simp only:)
      also have "\<dots> = (int n - 2 ^ 31) mod 2 ^ 32" by (rule mod_add_self2)
      also have "\<dots> = int n - 2 ^ 31" using False b w by (intro mod_pos_pos_trivial) simp_all
      finally show ?thesis using False by simp
    qed
    finally show ?thesis .
  qed
  have "(scast w :: u64) = of_int (sint w)" by simp
  then have "get_logfilesize c = of_int (sint w)" by (simp add: get_logfilesize_def w_def)
  moreover have "unat (of_int (int n) :: u64) = n" if "n < 2 ^ 31" using that by (simp add: unat_of_nat_small)
  moreover have "unat (of_int (int n - 2 ^ 32) :: u64) = 2 ^ 64 - 2 ^ 32 + n" if "\<not> n < 2 ^ 31"
  proof -
    have "(of_int (int n - 2 ^ 32) :: u64) = of_int (int n - 2 ^ 32) + of_int (2 ^ 64)" by simp
    also have "\<dots> = of_nat (2 ^ 64 - 2 ^ 32 + n)" by simp
    finally have eq: "(of_int (int n - 2 ^ 32) :: u64) = of_nat (2 ^ 64 - 2 ^ 32 + n)" .
    have "n < 2 ^ 32" using assms by simp
    then show ?thesis unfolding eq by (intro unat_of_nat_small) simp
  qed
  ultimately show ?thesis unfolding s by presburger
qed

text \<open>The archive has another name than the log file.\<close>

lemma archive_name_differs:
  assumes "length (sFileName c) < 64"
  shows "archive_name c (GetTimestamp (Some m) 32) \<noteq> log_file (sFileName c)"
proof
  assume "archive_name c (GetTimestamp (Some m) 32) = log_file (sFileName c)"
  then have "length (archive_name c (GetTimestamp (Some m) 32)) = length (log_file (sFileName c))" by simp
  moreover have "length (GetTimestamp (Some m) 32) \<le> 19" by (simp add: GetTimestamp_def Let_def snprintf_def)
  ultimately show False using assms by (simp add: archive_name_def snprintf_def log_file_def)
qed

text \<open>The two ways through the rotation: below the limit nothing changes, above it the text moves.\<close>

lemma rotation_below:
  assumes "holds t st d" "files st (log_file (sFileName (cfg st))) = Some tx" "e_fopen env"
    and "\<not> get_logfilesize (cfg st) < of_nat (length tx)"
  shows "\<exists>st'. hslog_rotatelogfile env True t st = Some (Inr (st', [])) \<and> holds t st' d \<and> files st' = files st"
proof -
  obtain st1 where 1: "hslog_sync_lock t st = Some (Inr st1)" "holds t st1 (Suc d)" "log_rest st1 = log_rest st"
    using hl.lock_holds [OF assms(1)] by blast
  note r1 = log_rest_simps [OF 1(3)]
  let ?s = "st1\<lparr>files := (files st1)(log_file (sFileName (cfg st)) \<mapsto> tx)\<rparr>"
  have "files ?s = files st" using r1 assms(2) by (simp add: fun_upd_idem)
  moreover have "holds t ?s (Suc d)" using 1(2) holds_cong [of ?s st1] by simp
  then obtain s2 where "hslog_sync_unlock t ?s = Inr s2" "holds t s2 d" "log_rest s2 = log_rest ?s"
    using hl.unlock_holds by blast
  ultimately have "hslog_rotatelogfile env True t st = Some (Inr (s2, []))" "holds t s2 d" "files s2 = files st"
    using 1(1) r1 assms(2-4) log_rest_simps [of s2 ?s]
    by (simp_all add: hslog_rotatelogfile_def Let_def text_of_def)
  then show ?thesis by blast
qed

lemma rotation_above:
  assumes "holds t st d" "files st (log_file (sFileName (cfg st))) = Some tx" "e_fopen env"
    and "prepare_output_func st = hslog_prepare_output" "\<not> nSilent (cfg st)" "length (sFileName (cfg st)) < 64"
    and "length (sModuleName (cfg st)) < 64" "get_logfilesize (cfg st) < of_nat (length tx)"
  shows "\<exists>st' outs. hslog_rotatelogfile env True t st = Some (Inr (st', outs)) \<and> holds t st' d
    \<and> files st' (archive_name (cfg st) (GetTimestamp (Some (e_tm env)) 32)) = Some tx
    \<and> files st' (log_file (sFileName (cfg st))) \<in> {None, Some (log_line env (cfg st) HSLOG_INFO ''Logfile archived.'' @ [nl])}"
proof -
  let ?c = "cfg st" and ?f = "log_file (sFileName (cfg st))" and ?a = "archive_name (cfg st) (GetTimestamp (Some (e_tm env)) 32)"
  note ne = archive_name_differs [OF assms(6), of "e_tm env"]
  obtain st1 where 1: "hslog_sync_lock t st = Some (Inr st1)" "holds t st1 (Suc d)" "log_rest st1 = log_rest st"
    using hl.lock_holds [OF assms(1)] by blast
  note r1 = log_rest_simps [OF 1(3)]
  let ?s = "st1\<lparr>files := (files st1)(?f := None, ?a \<mapsto> tx)\<rparr>"
  have h: "holds t ?s (Suc d)" using 1(2) holds_cong [of ?s st1] by simp
  have l: "length (network_text HSLOG_INFO (sModuleName (cfg ?s)) ''Logfile archived.'') \<le> 1391"
    using assms(7) r1 by (simp add: network_text_def logSeverity_def HSLOG_INFO_def)
  obtain s2 outs where 2: "hslog env t HSLOG_INFO ''Logfile archived.'' ?s = Some (Inr (s2, outs))" "holds t s2 (Suc d)"
    "files s2 ?a = Some tx" "files s2 ?f \<in> {None, Some (log_line env ?c HSLOG_INFO ''Logfile archived.'' @ [nl])}"
    using hslog_message [OF h _ _ _ _ l assms(3)] r1 assms(4,5) ne
    by (fastforce simp: HSLOG_INFO_def text_of_def split: if_splits)
  obtain s3 where "hslog_sync_unlock t s2 = Inr s3" "holds t s3 d" "log_rest s3 = log_rest s2"
    using hl.unlock_holds [OF 2(2)] by blast
  then show ?thesis using 1(1) r1 assms(2,3,8) 2 log_rest_simps [of s3 s2]
    by (simp add: hslog_rotatelogfile_def Let_def text_of_def fun_upd_twist)
qed

text \<open>
  A log file within the limit is left alone.  A longer one is renamed: its
  text is then under the archive name, and the log file holds at most the line that reports it.
  The limit is the low 32 bits of \<open>nLogFileSize\<close>, read as a signed number, so with bit 31 set no
  file is ever rotated.
\<close>

theorem rotation_keeps_text:
  assumes "holds t st d" "files st (log_file (sFileName (cfg st))) = Some tx" "e_fopen env" "length tx < 2 ^ 63"
    and "prepare_output_func st = hslog_prepare_output" "\<not> nSilent (cfg st)" "length (sFileName (cfg st)) < 64"
    and "length (sModuleName (cfg st)) < 64" "lim = unat (nLogFileSize (cfg st)) mod 2 ^ 32"
  shows "\<exists>st' outs. hslog_rotatelogfile env True t st = Some (Inr (st', outs)) \<and> holds t st' d
    \<and> (if lim < length tx \<and> lim < 2 ^ 31
       then files st' (archive_name (cfg st) (GetTimestamp (Some (e_tm env)) 32)) = Some tx
         \<and> files st' (log_file (sFileName (cfg st))) \<in> {None, Some (log_line env (cfg st) HSLOG_INFO ''Logfile archived.'' @ [nl])}
       else files st' = files st \<and> outs = [])"
proof -
  have tl: "unat (of_nat (length tx) :: u64) = length tx" by (rule unat_of_nat_small) (use assms(4) in simp)
  have lim: "get_logfilesize (cfg st) < of_nat (length tx) \<longleftrightarrow> lim < length tx \<and> lim < 2 ^ 31"
    unfolding word_less_nat_alt tl unat_get_logfilesize [OF assms(9)] using assms(4) by simp
  show ?thesis
  proof (cases "lim < length tx \<and> lim < 2 ^ 31")
    case True
    from rotation_above [OF assms(1-3,5-8)] lim True show ?thesis by simp
  next
    case False
    from rotation_below [OF assms(1-3)] lim False show ?thesis unfolding if_not_P [OF False] by blast
  qed
qed

theorem rotation_keeps_text_witness:
  "\<exists>st' outs. hslog_rotatelogfile env_noon True 1
      (log_example\<lparr>cfg := (cfg log_example)\<lparr>nLogFileSize := 2\<rparr>, files := [log_file ''udp-service.log'' \<mapsto> ''abc'']\<rparr>) = Some (Inr (st', outs))
    \<and> holds 1 st' 0 \<and> files st' (archive_name (cfg log_example) (GetTimestamp (Some (e_tm env_noon)) 32)) = Some ''abc''"
proof -
  let ?st = "log_example\<lparr>cfg := (cfg log_example)\<lparr>nLogFileSize := 2\<rparr>, files := [log_file ''udp-service.log'' \<mapsto> ''abc'']\<rparr>"
  have h: "holds 1 ?st 0" by (simp add: holds_def log_example_def)
  have f: "files ?st (log_file (sFileName (cfg ?st))) = Some ''abc''" "e_fopen env_noon" "length ''abc'' < 2 ^ 63"
    "prepare_output_func ?st = hslog_prepare_output" "\<not> nSilent (cfg ?st)" "length (sFileName (cfg ?st)) < 64" "length (sModuleName (cfg ?st)) < 64"
    "(2 :: nat) = unat (nLogFileSize (cfg ?st)) mod 2 ^ 32"
    by (simp_all add: log_example_def env_noon_def)
  have "archive_name (cfg ?st) x = archive_name (cfg log_example) x" for x by (simp add: archive_name_def)
  with rotation_keeps_text [OF h f] show ?thesis by auto
qed

section \<open>The log after the start and after a reload\<close>

text \<open>The log as \<open>hslog_init\<close> makes it before it reads the file.\<close>

definition fresh_log :: "log_state \<Rightarrow> log_state" where
  "fresh_log st = st\<lparr>cfg := \<lparr> sFileName = UDP_SERVICE_LOG, sModuleName = [], nLogFileSize = 5242880, nFileLevel = 0,
     nLogLevel = 0, nToFile = False, nPretty = False, nTdSafe = True, nErrLog = False, nSilent = False, nSync = True \<rparr>,
     hslogLock := \<lparr> m_live = True, m_owner = None, m_depth = 0 \<rparr>\<rparr>"

lemma hslog_init_settings:
  assumes "e_mutex env" "\<forall>e \<in> set es. setting_ok e"
  shows "\<exists>st'. hslog_init env UDP_SERVICE_LOG (Some (settings_text es)) 0 1 st = Inr st' \<and> holds t st' 0
    \<and> in_force es (fresh_log st) st'"
proof -
  let ?st' = "fold (\<lambda>e. apply_entry (fst e) (decimal (snd e))) es (fresh_log st)"
  have p: "parse_loop (settings_text es) (fresh_log st) = Inr ?st'" by (rule parse_loop_settings [OF assms(2)])
  moreover have "hslog_sync_init env (st\<lparr>cfg := \<lparr> sFileName = UDP_SERVICE_LOG, sModuleName = [], nLogFileSize = 5242880, nFileLevel = 0,
        nLogLevel = 0, nToFile = False, nPretty = False, nTdSafe = True, nErrLog = False, nSilent = False, nSync = False \<rparr>\<rparr>) = fresh_log st"
    using assms(1) by (simp add: hslog_sync_init_def mutex_init_def Let_def fresh_log_def)
  ultimately have "hslog_init env UDP_SERVICE_LOG (Some (settings_text es)) 0 1 st = Inr ?st'"
    by (simp add: hslog_init_def hslog_parse_config_def UDP_SERVICE_LOG_def)
  moreover have "holds t ?st' 0" using parse_loop_frame [OF p] by (simp add: holds_def fresh_log_def)
  ultimately show ?thesis using settings_in_force [OF assms(2), of "fresh_log st"] by blast
qed

lemma main_log_setup_done:
  assumes "e_mutex env" "\<forall>e \<in> set es. setting_ok e" "conf = Some (settings_text es)"
  shows "\<exists>st' st''. main_log_setup env t slgCfg conf st = Some (Inr st') \<and> holds t st' 0
    \<and> sModuleName (cfg st') = ''UDP-service'' \<and> sFileName (cfg st') = UDP_SERVICE_LOG
    \<and> nLogLevel (cfg st') = setting es ''LOGLEVEL'' of_nat 0 \<and> nPretty (cfg st') \<and> \<not> nToFile (cfg st')
    \<and> hslog_init env UDP_SERVICE_LOG conf 0 1 st' = Inr st'' \<and> sModuleName (cfg st'') = []
    \<and> nPretty (cfg st'') = setting es ''PRETTYLOG'' odd False \<and> nToFile (cfg st'') = setting es ''LOGTOFILE'' odd False
    \<and> nLogLevel (cfg st'') = nLogLevel (cfg st')"
proof -
  obtain st1 where 1: "hslog_init env UDP_SERVICE_LOG conf 0 1 st = Inr st1" "holds t st1 0"
    "sFileName (cfg st1) = UDP_SERVICE_LOG" "nLogLevel (cfg st1) = setting es ''LOGLEVEL'' of_nat 0" "nTdSafe (cfg st1)"
    using hslog_init_settings [OF assms(1,2), of st t] assms(3) by (auto simp: in_force_def fresh_log_def)
  let ?st2 = "st1\<lparr>cfg := (cfg st1)\<lparr>sModuleName := ''UDP-service''\<rparr>\<rparr>"
  have 2: "hslog_set_module (Some ''UDP-service'') st1 = Inr ?st2" "holds t ?st2 0"
    using 1(2) by (simp_all add: hslog_set_module_def holds_def)
  obtain st3 where 3: "hslog_config_get t slgCfg ?st2 = Some (Inr (st3, (cfg ?st2)\<lparr>nSync := nSync slgCfg\<rparr>))" "holds t st3 0"
    using hslog_config_get_keeps [OF 2(2)] by blast
  let ?p = "(cfg ?st2)\<lparr>nSync := nSync slgCfg\<rparr>\<lparr>nToFile := False, nPretty := True\<rparr>"
  obtain st' where 4: "hslog_config_set env t ?p st3 = Some (Inr st')" "holds t st' 0" "cfg st' = ?p\<lparr>nSync := nTdSafe ?p\<rparr>"
    using hslog_config_set_unlocked [OF 3(2) assms(1), of ?p] by blast
  obtain st'' where "hslog_init env UDP_SERVICE_LOG conf 0 1 st' = Inr st''" "sModuleName (cfg st'') = []"
    "nPretty (cfg st'') = setting es ''PRETTYLOG'' odd False" "nToFile (cfg st'') = setting es ''LOGTOFILE'' odd False"
    "nLogLevel (cfg st'') = setting es ''LOGLEVEL'' of_nat 0"
    using hslog_init_settings [OF assms(1,2), of st' t] assms(3) by (auto simp: in_force_def fresh_log_def)
  moreover have "main_log_setup env t slgCfg conf st = Some (Inr st')" using 1(1) 2(1) 3(1) 4(1) by (simp add: main_log_setup_def)
  ultimately show ?thesis using 1 4 by (intro exI conjI) (assumption | simp)+
qed

text \<open>
  C29: On a file of settings \<open>main\<close> ends with a log that nobody holds, under the module
  name of the service, with the level of the file, colours on and the file output off whatever the file
  says.  A later reload of the same file undoes the last three.
\<close>

theorem main_sets_up_log:
  assumes "e_mutex env" "\<forall>e \<in> set es. setting_ok e" "conf = Some (settings_text es)"
  shows "\<exists>st' st''. main_log_setup env t slgCfg conf st = Some (Inr st') \<and> holds t st' 0
    \<and> sModuleName (cfg st') = ''UDP-service'' \<and> sFileName (cfg st') = UDP_SERVICE_LOG
    \<and> nLogLevel (cfg st') = setting es ''LOGLEVEL'' of_nat 0 \<and> nPretty (cfg st') \<and> \<not> nToFile (cfg st')
    \<and> hslog_init env UDP_SERVICE_LOG conf 0 1 st' = Inr st'' \<and> sModuleName (cfg st'') = []
    \<and> nPretty (cfg st'') = setting es ''PRETTYLOG'' odd False \<and> nToFile (cfg st'') = setting es ''LOGTOFILE'' odd False
    \<and> nLogLevel (cfg st'') = nLogLevel (cfg st')"
  by (rule main_log_setup_done [OF assms])

theorem main_sets_up_log_witness:
  "\<exists>st' st''. main_log_setup env_noon 1 (cfg log_example) (Some (settings_text [(''LOGLEVEL'', 2), (''LOGTOFILE'', 1)]))
      (log_example\<lparr>hslogLock := mutex_0\<rparr>) = Some (Inr st') \<and> nLogLevel (cfg st') = 2 \<and> \<not> nToFile (cfg st')
    \<and> hslog_init env_noon UDP_SERVICE_LOG (Some (settings_text [(''LOGLEVEL'', 2), (''LOGTOFILE'', 1)])) 0 1 st' = Inr st'' \<and> nToFile (cfg st'')"
proof -
  let ?es = "[(''LOGLEVEL'', 2), (''LOGTOFILE'', 1)]"
  have "\<forall>e \<in> set ?es. setting_ok e" "e_mutex env_noon" by (simp_all add: setting_ok_def is_space_def env_noon_def)
  from main_sets_up_log [OF this(2,1) refl, of 1 "cfg log_example" "log_example\<lparr>hslogLock := mutex_0\<rparr>"]
  show ?thesis by (auto simp: setting_def)
qed

end
