(* ===== verification/Inotify.thy ===== *)
theory Inotify
  imports Log_Config
begin

text \<open>
  \<open>src/inotify.c\<close>: a thread watches the directory of the log's settings and initialises the log anew
  when the file has been closed after writing.
\<close>

section \<open>Operations\<close>

definition IN_CLOSE_WRITE :: u32 where "IN_CLOSE_WRITE = 8"

text \<open>
  The events of one \<open>read\<close>: 16 bytes (watch, mask, cookie, length), then the name padded with
  NULs.  A match initialises the log anew from its file, which others write meanwhile: \<open>conf k\<close> is
  what is found in it when it is read for the \<open>k\<close>-th time, and the state is the number of times so
  far with the log.
\<close>

function handle_buffer :: "log_env \<Rightarrow> (nat \<Rightarrow> string option) \<Rightarrow> string \<Rightarrow> byte list \<Rightarrow> nat \<times> log_state
    \<Rightarrow> c_error + (nat \<times> log_state)" where
  "handle_buffer env conf filename bs ks =
     (if bs = [] then Inr ks
      else if length bs < 16 then Inl OutOfBounds
      else (let mask = of_nat (le_nat (take 4 (drop 4 bs))) :: u32;
                len = le_nat (take 4 (drop 12 bs));
                nm = takeWhile (\<lambda>b. b \<noteq> 0) (drop 16 bs);
                next = drop (16 + len) bs
            in if len \<noteq> 0 \<and> mask AND IN_CLOSE_WRITE \<noteq> 0 \<and> map (of_char :: char \<Rightarrow> byte) filename = nm
               then (case hslog_init env UDP_SERVICE_LOG (conf (fst ks)) 0 1 (snd ks) of Inl e \<Rightarrow> Inl e
                     | Inr st' \<Rightarrow> handle_buffer env conf filename next (Suc (fst ks), st'))
               else handle_buffer env conf filename next ks))"
  by pat_completeness auto
termination
  by (relation "measure (\<lambda>(env, conf, filename, bs, ks). length bs)") auto

declare handle_buffer.simps [simp del]

text \<open>
  \<open>handle_events\<close> on what the successive calls of \<open>read\<close> return, until there is nothing more;
  \<open>None\<close> is an error other than \<open>EAGAIN\<close>.
\<close>

fun handle_events :: "log_env \<Rightarrow> (nat \<Rightarrow> string option) \<Rightarrow> string \<Rightarrow> byte list option list \<Rightarrow> nat \<times> log_state
    \<Rightarrow> log_stop + (nat \<times> log_state)" where
  "handle_events env conf filename [] ks = Inr ks"
| "handle_events env conf filename (r # reads) ks =
     (case r of None \<Rightarrow> Inl ExitFailure
      | Some bs \<Rightarrow>
          if bs = [] then Inr ks
          else (case handle_buffer env conf filename bs ks of Inl e \<Rightarrow> Inl (Memory e)
                | Inr ks' \<Rightarrow> handle_events env conf filename reads ks'))"

text \<open>One round of \<open>watch_file\<close>: the result of \<open>poll\<close>, whether it was interrupted, its event bit, the reads.\<close>

record watch_round =
  w_poll :: int
  w_eintr :: bool
  w_pollin :: bool
  w_reads :: "byte list option list"

fun watch_rounds :: "log_env \<Rightarrow> (nat \<Rightarrow> string option) \<Rightarrow> string \<Rightarrow> watch_round list \<Rightarrow> nat \<times> log_state
    \<Rightarrow> log_stop + (nat \<times> log_state)" where
  "watch_rounds env conf filename [] ks = Inr ks"
| "watch_rounds env conf filename (w # ws) ks =
     (if w_poll w = -1
      then (if w_eintr w then watch_rounds env conf filename ws ks else Inl ExitFailure)
      else if 0 < w_poll w \<and> w_pollin w
      then (case handle_events env conf filename (w_reads w) ks of Inl e \<Rightarrow> Inl e
            | Inr ks' \<Rightarrow> watch_rounds env conf filename ws ks')
      else watch_rounds env conf filename ws ks)"

text \<open>
  \<open>watch_file\<close> on the result \<open>fd\<close> of \<open>inotify_init1\<close> and those of \<open>inotify_add_watch\<close>, for the rounds
  given; \<open>False\<close> when it has returned, because the directory cannot be watched.
\<close>

definition watch_file :: "int \<Rightarrow> (string \<Rightarrow> int) \<Rightarrow> log_env \<Rightarrow> (nat \<Rightarrow> string option) \<Rightarrow> string \<Rightarrow> string \<Rightarrow> watch_round list
    \<Rightarrow> nat \<times> log_state \<Rightarrow> log_stop + (bool \<times> nat \<times> log_state)" where
  "watch_file fd add_watch env conf dir filename ws ks =
     (if fd = -1 then Inl ExitFailure
      else if add_watch dir = -1 then Inr (False, ks)
      else (case watch_rounds env conf filename ws ks of Inl e \<Rightarrow> Inl e | Inr ks' \<Rightarrow> Inr (True, ks')))"

text \<open>The globals \<open>__dirname\<close> and \<open>__filename\<close>, which \<open>start_inotify_service\<close> sets for its thread.\<close>

record inotify_names =
  i_dirname :: string
  i_filename :: string

definition inotify_service :: "int \<Rightarrow> (string \<Rightarrow> int) \<Rightarrow> log_env \<Rightarrow> (nat \<Rightarrow> string option) \<Rightarrow> inotify_names \<Rightarrow> watch_round list
    \<Rightarrow> nat \<times> log_state \<Rightarrow> log_stop + (bool \<times> nat \<times> log_state)" where
  "inotify_service fd add_watch env conf g ws ks = watch_file fd add_watch env conf (i_dirname g) (i_filename g) ws ks"

definition start_inotify_service :: "string \<Rightarrow> string \<Rightarrow> int \<Rightarrow> inotify_names \<times> int" where
  "start_inotify_service dir file created =
     (\<lparr> i_dirname = dir, i_filename = file \<rparr>, if created = 0 then 0 else -1)"

section \<open>Buffers of events\<close>

text \<open>The events as the kernel delivers them: the name is padded with NULs.\<close>

record inotify_event =
  ev_wd :: u32
  ev_mask :: u32
  ev_cookie :: u32
  ev_name :: "byte list"
  ev_pad :: nat

definition event_ok :: "inotify_event \<Rightarrow> bool" where
  "event_ok e \<longleftrightarrow> 0 \<notin> set (ev_name e) \<and> (ev_name e = [] \<longleftrightarrow> ev_pad e = 0) \<and> length (ev_name e) + ev_pad e < 2 ^ 32"

definition event_bytes :: "inotify_event \<Rightarrow> byte list" where
  "event_bytes e = le_bytes 4 (unat (ev_wd e)) @ le_bytes 4 (unat (ev_mask e)) @ le_bytes 4 (unat (ev_cookie e))
     @ le_bytes 4 (length (ev_name e) + ev_pad e) @ ev_name e @ replicate (ev_pad e) 0"

definition event_matches :: "string \<Rightarrow> inotify_event \<Rightarrow> bool" where
  "event_matches filename e \<longleftrightarrow> ev_name e \<noteq> [] \<and> ev_mask e AND IN_CLOSE_WRITE \<noteq> 0 \<and> ev_name e = text_bytes filename"

definition reload :: "log_env \<Rightarrow> (nat \<Rightarrow> string option) \<Rightarrow> inotify_event \<Rightarrow> c_error + (nat \<times> log_state)
    \<Rightarrow> c_error + (nat \<times> log_state)" where
  "reload env conf e r =
     (case r of Inl x \<Rightarrow> Inl x
      | Inr (k, s) \<Rightarrow> (case hslog_init env UDP_SERVICE_LOG (conf k) 0 1 s of Inl x \<Rightarrow> Inl x | Inr s' \<Rightarrow> Inr (Suc k, s')))"

lemma fold_reload_Inl: "fold (reload env conf) es (Inl x) = Inl x"
  by (induction es) (simp_all add: reload_def)

text \<open>What a program reads at the start of a buffer that begins with an event.\<close>

lemma event_fields:
  assumes "event_ok e"
  shows "event_bytes e @ bs \<noteq> []" "\<not> length (event_bytes e @ bs) < 16"
    and "of_nat (le_nat (take 4 (event_bytes e @ bs))) = ev_wd e"
    and "of_nat (le_nat (take 4 (drop 4 (event_bytes e @ bs)))) = ev_mask e"
    and "le_nat (take 4 (drop 12 (event_bytes e @ bs))) = length (ev_name e) + ev_pad e"
    and "drop (16 + (length (ev_name e) + ev_pad e)) (event_bytes e @ bs) = bs"
    and "ev_name e \<noteq> [] \<Longrightarrow> takeWhile (\<lambda>b. b \<noteq> 0) (drop 16 (event_bytes e @ bs)) = ev_name e"
proof -
  let ?x = "event_bytes e @ bs"
  show "?x \<noteq> []" "\<not> length ?x < 16" by (simp_all add: event_bytes_def)
  show "of_nat (le_nat (take 4 ?x)) = ev_wd e" by (simp add: event_bytes_def of_nat_le_nat_le_bytes)
  show "of_nat (le_nat (take 4 (drop 4 ?x))) = ev_mask e" by (simp add: event_bytes_def of_nat_le_nat_le_bytes)
  show "le_nat (take 4 (drop 12 ?x)) = length (ev_name e) + ev_pad e"
    using assms by (simp add: event_bytes_def le_nat_le_bytes event_ok_def)
  have d: "drop 16 ?x = ev_name e @ replicate (ev_pad e) 0 @ bs" by (simp add: event_bytes_def)
  show "drop (16 + (length (ev_name e) + ev_pad e)) ?x = bs"
    unfolding add.commute [of 16] drop_drop [symmetric] d by simp
  assume "ev_name e \<noteq> []"
  then have "ev_pad e \<noteq> 0" using assms by (simp add: event_ok_def)
  then obtain k where "ev_pad e = Suc k" using not0_implies_Suc by blast
  moreover have "\<forall>b \<in> set (ev_name e). b \<noteq> 0" using assms by (metis event_ok_def)
  ultimately show "takeWhile (\<lambda>b. b \<noteq> 0) (drop 16 ?x) = ev_name e" unfolding d by (simp add: takeWhile_append2)
qed

lemma handle_buffer_event:
  assumes "event_ok e"
  shows "handle_buffer env conf filename (event_bytes e @ bs) (k, st) =
    (if event_matches filename e
     then (case hslog_init env UDP_SERVICE_LOG (conf k) 0 1 st of Inl x \<Rightarrow> Inl x | Inr s \<Rightarrow> handle_buffer env conf filename bs (Suc k, s))
     else handle_buffer env conf filename bs (k, st))"
proof -
  let ?x = "event_bytes e @ bs" and ?n = "length (ev_name e) + ev_pad e"
  note x = event_fields [OF assms, of bs]
  have c: "(?n \<noteq> 0 \<and> ev_mask e AND IN_CLOSE_WRITE \<noteq> 0 \<and> map of_char filename = takeWhile (\<lambda>b. b \<noteq> 0) (drop 16 ?x)) = event_matches filename e"
    using x(7) assms by (cases "ev_name e = []") (auto simp: event_matches_def text_bytes_def event_ok_def)
  show ?thesis
    by (subst handle_buffer.simps) (simp only: x(1-6) if_False Let_def c fst_conv snd_conv)
qed

lemma handle_buffer_events:
  assumes "\<forall>e \<in> set evs. event_ok e"
  shows "handle_buffer env conf filename (concat (map event_bytes evs)) (k, st)
    = fold (reload env conf) (filter (event_matches filename) evs) (Inr (k, st))"
  using assms
proof (induction evs arbitrary: k st)
  case Nil
  show ?case by (simp add: handle_buffer.simps)
next
  case (Cons e evs)
  then show ?case
    by (simp add: handle_buffer_event) (auto simp: reload_def [of _ _ e] fold_reload_Inl split: sum.splits)
qed

text \<open>
  C30: The reload does not take the lock but makes it anew.  If a thread is
  inside a call of the log at that time, the lock is free for any other thread, the module name
  is lost, and giving the lock back is refused, which ends the program.
\<close>

theorem reload_during_log_stops:
  assumes "event_ok e" "event_matches filename e" "e_mutex env"
    and "handle_buffer env conf filename (event_bytes e) (k, st) = Inr (k', st')"
  shows "(\<forall>t. hslog_sync_unlock t st' = Inl ExitFailure) \<and> (\<forall>t. \<exists>s. hslog_sync_lock t st' = Some (Inr s))
    \<and> sModuleName (cfg st') = []"
proof -
  have "hslog_init env UDP_SERVICE_LOG (conf k) 0 1 st = Inr st'"
    using handle_buffer_event [OF assms(1), of env conf filename "[]" k st] assms(2,4)
    by (simp add: handle_buffer.simps [of _ _ _ "[]"] split: sum.splits)
  from hslog_init_fresh [OF this assms(3)] show ?thesis
    by (simp add: hslog_sync_unlock_def mutex_unlock_def hslog_sync_lock_def mutex_lock_def)
qed

theorem reload_during_log_stops_witness:
  "\<exists>st1 st2. hslog_sync_lock 1 log_example = Some (Inr st1)
    \<and> handle_buffer env_noon (\<lambda>_. None) ''a'' (event_bytes \<lparr> ev_wd = 1, ev_mask = 8, ev_cookie = 0, ev_name = text_bytes ''a'', ev_pad = 3 \<rparr>) (0, st1) = Inr (1, st2)
    \<and> hslog_sync_unlock 1 st2 = Inl ExitFailure"
proof -
  let ?e = "\<lparr> ev_wd = 1, ev_mask = 8, ev_cookie = 0, ev_name = text_bytes ''a'', ev_pad = 3 \<rparr>"
  have e: "event_ok ?e" "event_matches ''a'' ?e" "e_mutex env_noon"
    by (simp_all add: event_ok_def event_matches_def text_bytes_def IN_CLOSE_WRITE_def env_noon_def)
  obtain st1 where 1: "hslog_sync_lock 1 log_example = Some (Inr st1)"
    using hl.lock_holds [OF holds_log_example] by blast
  obtain st2 where 2: "hslog_init env_noon UDP_SERVICE_LOG None 0 1 st1 = Inr st2"
    by (simp add: hslog_init_def UDP_SERVICE_LOG_def hslog_parse_config_def Let_def)
  have "handle_buffer env_noon (\<lambda>_. None) ''a'' (event_bytes ?e) (0, st1) = Inr (1, st2)"
    using handle_buffer_event [OF e(1), of env_noon "\<lambda>_. None" "''a''" "[]" 0 st1] e(2) 2
    by (simp add: handle_buffer.simps [of _ _ _ "[]"])
  with 1 reload_during_log_stops [OF e this] show ?thesis by blast
qed

section \<open>The thread\<close>

text \<open>The two switches of the network output, which a reload leaves as they are when its file does not name them.\<close>

definition with_switches :: "(string \<times> nat) list \<Rightarrow> log_state \<Rightarrow> log_state" where
  "with_switches es st = st\<lparr>net := (net st)\<lparr>
     networkLoggingEnabled := setting es ''MULTICAST'' (\<lambda>n. n \<noteq> 0) (networkLoggingEnabled (net st)),
     unicastLoggingEnabled := setting es ''UNICAST'' (\<lambda>n. n \<noteq> 0) (unicastLoggingEnabled (net st))\<rparr>\<rparr>"

lemma setting_append: "setting (es @ fs) k f old = setting fs k f (setting es k f old)"
  by (simp add: setting_def map_add_def split: option.split)

lemma in_force_then:
  assumes "in_force fs (fresh_log (with_switches es st)) s" "in_force gs (fresh_log s) s'"
  shows "in_force gs (fresh_log (with_switches (es @ fs) st)) s'"
  using assms by (simp add: in_force_def fresh_log_def with_switches_def setting_append)

lemma in_force_first: "in_force gs (fresh_log st) s' \<Longrightarrow> in_force gs (fresh_log (with_switches [] st)) s'"
  by (simp add: in_force_def fresh_log_def with_switches_def setting_def)

text \<open>
  The settings in force after some reloads: those of the file as it was read last, and for the two
  switches the last of all those read since.
\<close>

lemma reloads_in_force:
  assumes "e_mutex env" "\<forall>n. conf n = Some (settings_text (es n)) \<and> (\<forall>e \<in> set (es n). setting_ok e)"
  shows "\<exists>st'. fold (reload env conf) hits (Inr (k, st)) = Inr (k + length hits, st')
    \<and> (hits = [] \<longrightarrow> st' = st)
    \<and> (hits \<noteq> [] \<longrightarrow> (\<forall>t. holds t st' 0)
        \<and> in_force (es (k + length hits - 1)) (fresh_log (with_switches (concat (map es [k..<k + length hits - 1])) st)) st')"
proof (induction hits rule: rev_induct)
  case (snoc e hits)
  then obtain s where s: "fold (reload env conf) hits (Inr (k, st)) = Inr (k + length hits, s)" "hits = [] \<longrightarrow> s = st"
    "hits \<noteq> [] \<longrightarrow> in_force (es (k + length hits - 1)) (fresh_log (with_switches (concat (map es [k..<k + length hits - 1])) st)) s"
    by blast
  let ?n = "k + length hits"
  obtain s' where s': "hslog_init env UDP_SERVICE_LOG (conf ?n) 0 1 s = Inr s'" "in_force (es ?n) (fresh_log s) s'"
    using hslog_init_settings [OF assms(1), of "es ?n" s 0] assms(2) by auto
  have "holds t s' 0" for t
    using hslog_init_settings [OF assms(1), of "es ?n" s t] assms(2) s'(1) by auto
  moreover have "in_force (es ?n) (fresh_log (with_switches (concat (map es [k..<?n])) st)) s'"
  proof (cases "hits = []")
    case True
    with s(2) s'(2) in_force_first show ?thesis by simp
  next
    case False
    then have "concat (map es [k..<?n]) = concat (map es [k..<?n - 1]) @ es (?n - 1)"
      by (cases "length hits") (simp_all add: upt_Suc_append)
    with False s(3) s'(2) in_force_then show ?thesis by metis
  qed
  moreover have "fold (reload env conf) (hits @ [e]) (Inr (k, st)) = Inr (k + length (hits @ [e]), s')"
    using s(1) s'(1) by (simp add: reload_def)
  ultimately show ?case by simp
qed simp

text \<open>
  A round either brings no event (a timeout, an interruption, another bit), or its reads are buffers
  of well-formed events until there is nothing more.
\<close>

definition delivers :: "watch_round \<Rightarrow> inotify_event list \<Rightarrow> bool" where
  "delivers w evs \<longleftrightarrow>
     evs = [] \<and> (if w_poll w = -1 then w_eintr w else \<not> (0 < w_poll w \<and> w_pollin w))
     \<or> 0 < w_poll w \<and> w_pollin w \<and> (\<exists>bufs. w_reads w = map (\<lambda>b. Some (concat (map event_bytes b))) bufs @ [Some []]
         \<and> [] \<notin> set bufs \<and> evs = concat bufs \<and> (\<forall>e \<in> set evs. event_ok e))"

lemma handle_events_bufs:
  assumes "[] \<notin> set bufs" "\<forall>e \<in> set (concat bufs). event_ok e"
    and "fold (reload env conf) (filter (event_matches filename) (concat bufs)) (Inr (k, st)) = Inr ks'"
  shows "handle_events env conf filename (map (\<lambda>b. Some (concat (map event_bytes b))) bufs @ [Some []]) (k, st) = Inr ks'"
  using assms
proof (induction bufs arbitrary: k st)
  case (Cons b bufs)
  obtain r where r: "fold (reload env conf) (filter (event_matches filename) b) (Inr (k, st)) = Inr r"
    using Cons.prems(3) by (cases "fold (reload env conf) (filter (event_matches filename) b) (Inr (k, st))")
      (simp_all add: fold_reload_Inl)
  obtain k1 s1 where r1: "r = (k1, s1)" by fastforce
  have "concat (map event_bytes b) \<noteq> []" using Cons.prems(1) by (cases b) (auto simp: event_bytes_def)
  moreover have "handle_buffer env conf filename (concat (map event_bytes b)) (k, st) = Inr (k1, s1)"
    using handle_buffer_events [of b env conf filename k st] Cons.prems(2) r r1 by simp
  ultimately show ?case using Cons.IH [of k1 s1] Cons.prems r r1 by (simp del: concat_eq_Nil_conv)
qed simp

lemma watch_rounds_deliver:
  assumes "list_all2 delivers ws evss"
    and "fold (reload env conf) (filter (event_matches filename) (concat evss)) (Inr (k, st)) = Inr ks'"
  shows "watch_rounds env conf filename ws (k, st) = Inr ks'"
  using assms
proof (induction ws evss arbitrary: k st rule: list_all2_induct)
  case (Cons w ws evs evss)
  obtain r where r: "fold (reload env conf) (filter (event_matches filename) evs) (Inr (k, st)) = Inr r"
    using Cons.prems by (cases "fold (reload env conf) (filter (event_matches filename) evs) (Inr (k, st))")
      (simp_all add: fold_reload_Inl)
  obtain k1 s1 where r1: "r = (k1, s1)" by fastforce
  have rest: "watch_rounds env conf filename ws (k1, s1) = Inr ks'"
    using Cons.IH [of k1 s1] Cons.prems r r1 by simp
  from Cons.hyps(1) show ?case unfolding delivers_def
  proof (elim disjE conjE exE)
    fix bufs assume "w_reads w = map (\<lambda>b. Some (concat (map event_bytes b))) bufs @ [Some []]" "[] \<notin> set bufs"
      "evs = concat bufs" "\<forall>e \<in> set evs. event_ok e" "0 < w_poll w" "w_pollin w"
    with handle_events_bufs [of bufs env conf filename k st r] r rest r1 show ?thesis by simp
  qed (use r r1 rest in \<open>auto split: if_splits\<close>)
qed simp

text \<open>
  C31: As long as the system calls of the thread succeed, its loop amounts to one
  reload for each event that says that the named file was closed after writing, in order and
  however the events are spread over rounds and reads, and to nothing else.  When files of
  settings are found at those times, the thread goes on, the log is free, the settings in force
  are those of the last file, names it leaves out being at their defaults; only the two switches of the
  network output keep what an earlier file or the log had set when later files do not name them.
\<close>

theorem watcher_follows_file:
  assumes "e_mutex env" "\<forall>n. conf n = Some (settings_text (es n)) \<and> (\<forall>e \<in> set (es n). setting_ok e)"
    and "fd \<noteq> -1" "add_watch (i_dirname g) \<noteq> -1" "list_all2 delivers ws evss"
    and "hits = filter (event_matches (i_filename g)) (concat evss)" "n = length hits"
  shows "\<exists>st'. inotify_service fd add_watch env conf g ws (k, st) = Inr (True, k + n, st')
    \<and> fold (reload env conf) hits (Inr (k, st)) = Inr (k + n, st')
    \<and> (n = 0 \<longrightarrow> st' = st)
    \<and> (0 < n \<longrightarrow> (\<forall>t. holds t st' 0)
        \<and> in_force (es (k + n - 1)) (fresh_log (with_switches (concat (map es [k..<k + n - 1])) st)) st')"
proof -
  obtain st' where st': "fold (reload env conf) hits (Inr (k, st)) = Inr (k + n, st')" "hits = [] \<longrightarrow> st' = st"
    "hits \<noteq> [] \<longrightarrow> (\<forall>t. holds t st' 0) \<and> in_force (es (k + n - 1)) (fresh_log (with_switches (concat (map es [k..<k + n - 1])) st)) st'"
    using reloads_in_force [OF assms(1,2), of hits k st] unfolding assms(7) by blast
  have "watch_rounds env conf (i_filename g) ws (k, st) = Inr (k + n, st')"
    by (rule watch_rounds_deliver [OF assms(5)]) (use st'(1) assms(6) in simp)
  with st' assms(3,4,7) show ?thesis by (simp add: inotify_service_def watch_file_def)
qed

text \<open>Two writes of the file, the second with another level, and a timeout in between.\<close>

theorem watcher_follows_file_witness:
  "\<exists>st'. inotify_service 3 (\<lambda>_. 1) env_noon (\<lambda>n. Some (settings_text [(''LOGLEVEL'', n mod 8)])) \<lparr> i_dirname = ''/etc'', i_filename = ''a'' \<rparr>
      [\<lparr> w_poll = 1, w_eintr = False, w_pollin = True, w_reads = [Some (event_bytes \<lparr> ev_wd = 1, ev_mask = 8, ev_cookie = 0, ev_name = text_bytes ''a'', ev_pad = 3 \<rparr>), Some []] \<rparr>,
       \<lparr> w_poll = 0, w_eintr = False, w_pollin = False, w_reads = [] \<rparr>,
       \<lparr> w_poll = 1, w_eintr = False, w_pollin = True, w_reads = [Some (event_bytes \<lparr> ev_wd = 1, ev_mask = 8, ev_cookie = 0, ev_name = text_bytes ''a'', ev_pad = 3 \<rparr>), Some []] \<rparr>]
      (2, log_example) = Inr (True, 4, st')
    \<and> nLogLevel (cfg st') = 3 \<and> holds 1 st' 0"
proof -
  let ?e = "\<lparr> ev_wd = 1, ev_mask = 8, ev_cookie = 0, ev_name = text_bytes ''a'', ev_pad = 3 \<rparr>"
  let ?g = "\<lparr> i_dirname = ''/etc'', i_filename = ''a'' \<rparr>"
  let ?r = "\<lparr> w_poll = 1, w_eintr = False, w_pollin = True, w_reads = [Some (event_bytes ?e), Some []] \<rparr>"
  let ?q = "\<lparr> w_poll = 0, w_eintr = False, w_pollin = False, w_reads = [] \<rparr>"
  have e: "event_ok ?e" "event_matches ''a'' ?e"
    by (simp_all add: event_ok_def event_matches_def text_bytes_def IN_CLOSE_WRITE_def)
  have "delivers ?r [?e]" using e(1) by (auto simp: delivers_def intro!: exI [of _ "[[?e]]"])
  then have d: "list_all2 delivers [?r, ?q, ?r] [[?e], [], [?e]]" by (simp add: delivers_def)
  have c: "\<forall>n. (\<lambda>n. Some (settings_text [(''LOGLEVEL'', n mod 8)])) n = Some (settings_text ((\<lambda>n. [(''LOGLEVEL'', n mod 8)]) n))
    \<and> (\<forall>e \<in> set ((\<lambda>n. [(''LOGLEVEL'', n mod 8)]) n). setting_ok e)"
    by (auto simp: setting_ok_def is_space_def intro: less_trans [OF mod_less_divisor])
  from watcher_follows_file [OF _ c _ _ d refl refl, of env_noon 3 "\<lambda>_. 1" ?g 2 log_example] e show ?thesis
    by (auto simp: env_noon_def in_force_def setting_def)
qed

end
