(* ===== verification/Program.thy ===== *)
theory Program
  imports Startup Inotify
begin

text \<open>
  \<open>main\<close> of \<open>src/main.c\<close> as a whole: the log is set up, its network side opened, and then the
  service is started.  The messages logged on the way are left out: a call of \<open>hslog\<close> keeps the lock
  and the configuration, as proved for the log.
\<close>

section \<open>The order of the threads\<close>

text \<open>The threads are ordered as \<open>start_udp_service\<close> creates them.\<close>

fun thread_rank :: "thread_id \<Rightarrow> nat" where
  "thread_rank IotReceive = 0"
| "thread_rank IotTransmit = 1"
| "thread_rank FusionTransmit = 2"
| "thread_rank FusionReceive = 3"
| "thread_rank RUdp = 4"
| "thread_rank RUdpReq = 5"

lemma thread_rank_inj: "thread_rank s = thread_rank t \<longleftrightarrow> s = t"
  by (cases s; cases t) simp_all

instantiation thread_id :: linorder
begin

definition less_eq_thread_id :: "thread_id \<Rightarrow> thread_id \<Rightarrow> bool" where
  "less_eq_thread_id s t \<longleftrightarrow> thread_rank s \<le> thread_rank t"

definition less_thread_id :: "thread_id \<Rightarrow> thread_id \<Rightarrow> bool" where
  "less_thread_id s t \<longleftrightarrow> thread_rank s < thread_rank t"

instance
  by standard (auto simp: less_eq_thread_id_def less_thread_id_def thread_rank_inj)

end

text \<open>Whatever threads can be created, they are created once each and in their order.\<close>

lemma created_in_order:
  "sorted (filter P [IotReceive, IotTransmit, FusionTransmit, FusionReceive, RUdp, RUdpReq])
   \<and> distinct (filter P [IotReceive, IotTransmit, FusionTransmit, FusionReceive, RUdp, RUdpReq])"
  by (intro conjI sorted_wrt_filter distinct_filter) (simp_all add: less_eq_thread_id_def)

section \<open>\<open>main\<close>\<close>

text \<open>
  What \<open>main\<close> depends on: the answers to the log and its network side, those to
  \<open>start_service_check\<close>, to the creation of the inotify thread, and to \<open>start_udp_service\<close>; the
  record of the log configuration that \<open>main\<close> leaves uninitialised; the files by name.
\<close>

record surroundings =
  s_log :: log_env
  s_slgCfg :: HSlogConfig
  s_group :: u32
  s_net :: net_answers
  s_check :: "int \<times> (sockaddr_in \<Rightarrow> int) \<times> int"
  s_inotify :: int
  s_os :: os
  s_files :: "string \<Rightarrow> string option"

text \<open>
  The result of \<open>init_network_log\<close> is ignored; only its calls of \<open>exit\<close> end the program.  The
  outcome is \<open>Inl\<close> when the log stops the program, else the log, what the inotify thread is to watch
  (\<open>None\<close> while its globals are still \<open>NULL\<close>, as \<open>main\<close> ended before), and the outcome of the rest.
\<close>

definition main_program :: "bool \<Rightarrow> (char \<times> string) list \<Rightarrow> tid \<Rightarrow> surroundings \<Rightarrow> log_state \<Rightarrow> control_state
    \<Rightarrow> (log_stop + (log_state \<times> net_sockets \<times> inotify_names option \<times> (c_error + (control_state \<times> globals \<times> int)))) option" where
  "main_program hubpp opts t w lg st =
     (case main_log_setup (s_log w) t (s_slgCfg w) (s_files w (''/etc/'' @ SERVICE_LOG_CFG)) lg of
        None \<Rightarrow> None
      | Some (Inl e) \<Rightarrow> Some (Inl e)
      | Some (Inr lg') \<Rightarrow>
          (case init_network_log (s_group w) None 5555 (s_net w) of
             Inl e \<Rightarrow> Some (Inl e)
           | Inr (socks, ignored) \<Rightarrow>
               (let (names, res) = start_inotify_service ''/etc'' SERVICE_LOG_CFG (s_inotify w);
                    (listensock, bind, created) = s_check w;
                    reached = (case parse_options opts CONFIGURATION_FILE of
                                 Inr (Some fname) \<Rightarrow> start_service_check listensock bind created = 0 | _ \<Rightarrow> False) in
                case main_start hubpp opts (s_check w) res (s_files w) (s_os w) st of
                  None \<Rightarrow> None
                | Some r \<Rightarrow> Some (Inr (lg', socks, if reached then Some names else None, r)))))"

section \<open>A start that succeeds\<close>

text \<open>The network side of the log can be opened; whether its thread starts is not looked at.\<close>

definition net_willing :: "net_answers \<Rightarrow> bool" where
  "net_willing a \<longleftrightarrow> 0 \<le> n_send a \<and> 0 \<le> n_ttl_opt a \<and> 0 \<le> n_loop_opt a \<and> 0 \<le> n_recv a \<and> 0 \<le> n_reuse_opt a \<and> 0 \<le> n_bind a
     \<and> 0 \<le> n_member_opt a \<and> 0 \<le> n_unicast a \<and> 0 \<le> n_uname a"

lemma init_network_log_willing:
  "net_willing a \<Longrightarrow> \<exists>s r. init_network_log addr None port a = Inr (s, r) \<and> group_port s = port \<and> ttl s = 1"
  by (auto simp: init_network_log_def net_willing_def Let_def)

text \<open>
  C36: On a machine that refuses nothing but, perhaps, threads, with a file of log
  settings and options \<open>-i\<close> of names that fit, \<open>main\<close> reaches its idle loop: the log is free and
  has the level of its file, the ports are those of the file named last, the service is enabled,
  the threads that could be created run, once each and in their order, and the state they run in
  satisfies the invariant of the system with 63 buffers in each pool; the inotify thread is told to
  watch the file of log settings.
\<close>

theorem main_starts_service:
  assumes "\<forall>f \<in> set fs. length f < 256" "os_willing (s_os w)" "s_check w = (l, b, 0)" "0 \<le> l \<and> b control_address = 0" "s_inotify w = 0"
    and "get_configuration (s_files w (last (CONFIGURATION_FILE # fs))) (g_ports globals_0) = (ps, 0)"
    and "e_mutex (s_log w)" "\<forall>e \<in> set es. setting_ok e" "s_files w (''/etc/'' @ SERVICE_LOG_CFG) = Some (settings_text es)" "net_willing (s_net w)"
    and "unat (os_block (s_os w) 0) + 64 * 99 \<le> 2 ^ 64" "unat (os_block (s_os w) 1) + 64 * 99 \<le> 2 ^ 64"
    and "unat (os_block (s_os w) 0) + 64 * 99 \<le> unat (os_block (s_os w) 1) \<or> unat (os_block (s_os w) 1) + 64 * 99 \<le> unat (os_block (s_os w) 0)"
    and "\<forall>p. wf_Msg_Buf (mem p)" "length stack = 1500" "wf_Msg_Buf msg"
  shows "\<exists>lg' socks names st' g cl A B. main_program hubpp (map (Pair (CHR ''i'')) fs) t w lg st = Some (Inr (lg', socks, names, Inr (st', g, 0)))
    \<and> holds t lg' 0 \<and> sModuleName (cfg lg') = ''UDP-service'' \<and> nLogLevel (cfg lg') = setting es ''LOGLEVEL'' of_nat 0
    \<and> group_port socks = 5555 \<and> names = Some \<lparr> i_dirname = ''/etc'', i_filename = SERVICE_LOG_CFG \<rparr> \<and> g_ports g = ps \<and> \<not> service_disabled st'
    \<and> sorted (map fst (g_threads g)) \<and> distinct (map fst (g_threads g)) \<and> set (map fst (g_threads g)) = {i. os_thread (s_os w) i = 0}
    \<and> cluster_of g = Some cl \<and> length A = 63 \<and> length B = 63 \<and> sys_inv A B (booted mem stack msg st' g cl)"
proof -
  obtain lg' where lg: "main_log_setup (s_log w) t (s_slgCfg w) (s_files w (''/etc/'' @ SERVICE_LOG_CFG)) lg = Some (Inr lg')"
    "holds t lg' 0" "sModuleName (cfg lg') = ''UDP-service''" "nLogLevel (cfg lg') = setting es ''LOGLEVEL'' of_nat 0"
    using main_log_setup_done [OF assms(7-9)] by blast
  obtain socks r where n: "init_network_log (s_group w) None 5555 (s_net w) = Inr (socks, r)" "group_port socks = 5555"
    using init_network_log_willing [OF assms(10)] by blast
  let ?os = "(s_os w)\<lparr>os_file := s_files w (last (CONFIGURATION_FILE # fs))\<rparr>" and ?st = "st\<lparr>service_disabled := False\<rparr>"
  let ?all = "[IotReceive, IotTransmit, FusionTransmit, FusionReceive, RUdp, RUdpReq]"
  from main_start_willing [where files = "s_files w" and fs = fs and hubpp = hubpp and st = st, OF assms(1,2) _ _ assms(6), of l b] assms(4) obtain g where
    g: "main_start hubpp (map (Pair (CHR ''i'')) fs) (l, b, 0) 0 (s_files w) (s_os w) st = Some (Inr (?st, g, 0))"
      "start_udp_service hubpp ?os globals_0 = Some (Inr (g, 0))" "g_ports g = ps"
      "map fst (g_threads g) = filter (\<lambda>t. os_thread (s_os w) t = 0) ?all" by blast
  have "os_pipe_size ?os = 8 * 8192" using assms(2) by (simp add: os_willing_def)
  from start_invariant [OF g(2) this _ _ _ assms(14-16), of ?st] assms(11-13) obtain cl A B where
    i: "cluster_of g = Some cl" "length A = 63" "length B = 63" "sys_inv A B (booted mem stack msg ?st g cl)" by auto
  have "main_program hubpp (map (Pair (CHR ''i'')) fs) t w lg st 
      = Some (Inr (lg', socks, Some \<lparr> i_dirname = ''/etc'', i_filename = SERVICE_LOG_CFG \<rparr>, Inr (?st, g, 0)))"
    using lg(1) n(1) g(1) assms(3-5) parse_options_files [OF assms(1), of CONFIGURATION_FILE]
    by (simp add: main_program_def start_inotify_service_def start_service_check_def)
  moreover have "i \<in> set ?all" for i by (cases i) simp_all
  then have "set (map fst (g_threads g)) = {i. os_thread (s_os w) i = 0}" by (simp add: g(4) del: filter.simps list.set)
  moreover have "sorted (map fst (g_threads g))" "distinct (map fst (g_threads g))"
    unfolding g(4) using created_in_order by blast+
  ultimately show ?thesis using lg(2-4) n(2) g(3) i by auto
qed

text \<open>A machine that refuses the thread of the history and that of the network commands of the log.\<close>

definition surroundings_example :: surroundings where
  "surroundings_example = \<lparr> s_log = env_noon, s_slgCfg = cfg log_example, s_group = 0xE3000005,
     s_net = \<lparr> n_send = 5, n_ttl_opt = 0, n_loop_opt = 0, n_recv = 6, n_reuse_opt = 0, n_bind = 0, n_member_opt = 0,
       n_unicast = 7, n_uname = 0, n_attr = 0, n_thread = 11 \<rparr>,
     s_check = (4, \<lambda>_. 0, 0), s_inotify = 0, s_os = os_example,
     s_files = [''b'' \<mapsto> the (os_file os_example), ''/etc/udpservice_log.cfg'' \<mapsto> settings_text [(''LOGLEVEL'', 2)]] \<rparr>"

theorem main_starts_service_witness:
  "\<exists>lg' socks names st' g cl A B. main_program True (map (Pair (CHR ''i'')) [''a'', ''b'']) 1 surroundings_example log_example
      \<lparr> service_disabled = True, stats = zero_stats \<rparr> = Some (Inr (lg', socks, names, Inr (st', g, 0)))
    \<and> nLogLevel (cfg lg') = 2 \<and> g_ports g = \<lparr> IOTPort = 8080, fusionRxPort = 8841, fusionTxPort = 8842 \<rparr>
    \<and> RUdp \<notin> set (map fst (g_threads g)) \<and> length A = 63
    \<and> sys_inv A B (booted (\<lambda>_. zero_Msg_Buf) (replicate 1500 0) zero_Msg_Buf st' g cl)"
proof -
  let ?w = surroundings_example and ?es = "[(''LOGLEVEL'', 2)] :: (string \<times> nat) list"
  have w: "s_os ?w = os_example" "s_check ?w = (4, \<lambda>_. 0, 0)" "s_inotify ?w = 0" "s_log ?w = env_noon"
    "s_files ?w (last (CONFIGURATION_FILE # [''a'', ''b''])) = os_file os_example"
    "s_files ?w (''/etc/'' @ SERVICE_LOG_CFG) = Some (settings_text ?es)" "net_willing (s_net ?w)"
    by (simp_all add: surroundings_example_def SERVICE_LOG_CFG_def net_willing_def os_example_def)
  have c: "get_configuration (s_files ?w (last (CONFIGURATION_FILE # [''a'', ''b'']))) (g_ports globals_0)
      = (\<lparr> IOTPort = 8080, fusionRxPort = 8841, fusionTxPort = 8842 \<rparr>, 0)"
    unfolding w(5) by (rule os_example_configuration)
  have e: "\<forall>e \<in> set ?es. setting_ok e" by (simp add: setting_ok_def is_space_def)
  have o: "os_willing (s_os ?w)" "e_mutex (s_log ?w)" "setting ?es ''LOGLEVEL'' of_nat 0 = (2 :: u16)" "os_thread (s_os ?w) RUdp \<noteq> 0"
    "unat (os_block (s_os ?w) 0) + 64 * 99 \<le> unat (os_block (s_os ?w) 1)" "unat (os_block (s_os ?w) 1) + 64 * 99 \<le> 2 ^ 64"
    using os_example_willing by (simp_all add: w env_noon_def setting_def os_example_def)
  have "unat (os_block (s_os ?w) 0) + 64 * 99 \<le> 2 ^ 64" using o(5,6) by simp
  from main_starts_service [OF _ o(1) w(2) _ w(3) c o(2) e w(6,7) this o(6) disjI1 [OF o(5)], where hubpp = True and t = 1
      and lg = log_example and st = "\<lparr> service_disabled = True, stats = zero_stats \<rparr>"
      and mem = "\<lambda>_. zero_Msg_Buf" and stack = "replicate 1500 0" and msg = zero_Msg_Buf]
  show ?thesis using o(3,4) by auto
qed

end
