(* ===== verification/Demos.thy ===== *)
theory Demos
  imports Inotify Hs_Udp
begin

text \<open>
  The two programs beside the service: \<open>src/inotity_example.c\<close>, which prints the events of
  watched directories until a key is pressed, and \<open>src/hslog/multicast-send.c\<close>, which sends one
  datagram to a multicast group, such as the commands of the log.  The results are what they
  print or send and how they end.
\<close>

section \<open>\<open>inotity_example.c\<close>\<close>

definition IN_CLOSE_NOWRITE :: u32 where "IN_CLOSE_NOWRITE = 0x10"
definition IN_OPEN :: u32 where "IN_OPEN = 0x20"
definition IN_ISDIR :: u32 where "IN_ISDIR = 0x40000000"

text \<open>A program or function has come to its end, has called \<open>exit\<close>, fails, or waits for input.\<close>

datatype demo_end = Returned | Exited int | Faults c_error | Waiting

text \<open>
  \<open>wds\<close> is the table of watches from entry 1 on: the descriptor and the directory of each.
\<close>

definition event_text :: "(int \<times> string) list \<Rightarrow> int \<Rightarrow> u32 \<Rightarrow> string \<Rightarrow> string" where
  "event_text wds wd evmask name =
     (if evmask AND IN_OPEN \<noteq> 0 then ''IN_OPEN: '' else [])
     @ (if evmask AND IN_CLOSE_NOWRITE \<noteq> 0 then ''IN_CLOSE_NOWRITE: '' else [])
     @ (if evmask AND IN_CLOSE_WRITE \<noteq> 0 then ''IN_CLOSE_WRITE: '' else [])
     @ (case List.find (\<lambda>w. fst w = wd) wds of None \<Rightarrow> [] | Some w \<Rightarrow> snd w @ ''/'')
     @ name
     @ (if evmask AND IN_ISDIR \<noteq> 0 then '' [directory]'' @ [nl] else '' [file]'' @ [nl])"

text \<open>The loop over the events of one \<open>read\<close>: 16 bytes of header, then the name up to its first NUL.\<close>

function example_buffer :: "(int \<times> string) list \<Rightarrow> byte list \<Rightarrow> string \<times> demo_end" where
  "example_buffer wds bs =
     (if bs = [] then ([], Returned)
      else if length bs < 16 then ([], Faults OutOfBounds)
      else (let wd = sint (of_nat (le_nat (take 4 bs)) :: u32);
                evmask = of_nat (le_nat (take 4 (drop 4 bs)));
                len = le_nat (take 4 (drop 12 bs));
                name = (if len \<noteq> 0 then bytes_text (takeWhile (\<lambda>b. b \<noteq> 0) (drop 16 bs)) else []);
                (out, e) = example_buffer wds (drop (16 + len) bs)
            in (event_text wds wd evmask name @ out, e)))"
  by pat_completeness auto
termination
  by (relation "measure (\<lambda>(wds, bs). length bs)") auto

declare example_buffer.simps [simp del]

text \<open>
  \<open>handle_events\<close> on what the successive calls of \<open>read\<close> return; \<open>None\<close> is an error other than
  \<open>EAGAIN\<close>.  The descriptor does not block, so the calls end with one that finds nothing.
\<close>

fun example_handle_events :: "(int \<times> string) list \<Rightarrow> byte list option list \<Rightarrow> string \<times> demo_end" where
  "example_handle_events wds [] = ([], Returned)"
| "example_handle_events wds (r # reads) =
     (case r of None \<Rightarrow> ([], Exited 1)
      | Some bs \<Rightarrow>
          if bs = [] then ([], Returned)
          else (case example_buffer wds bs of
                  (out, e) \<Rightarrow> if e \<noteq> Returned then (out, e)
                     else (let (out', e') = example_handle_events wds reads in (out @ out', e'))))"

text \<open>
  One round of the loop in \<open>main\<close>: the result of \<open>poll\<close>, whether it was interrupted, the event
  bits of the console and of the watches, and what can be read from the watches.
\<close>

record demo_round =
  d_poll :: int
  d_eintr :: bool
  d_stdin :: bool
  d_inotify :: bool
  d_reads :: "byte list option list"

fun example_rounds :: "(int \<times> string) list \<Rightarrow> demo_round list \<Rightarrow> string \<times> demo_end" where
  "example_rounds wds [] = ([], Waiting)"
| "example_rounds wds (r # rs) =
     (if d_poll r = -1
      then (if d_eintr r then example_rounds wds rs else ([], Exited 1))
      else if 0 < d_poll r \<and> d_stdin r then ([], Returned)
      else if 0 < d_poll r \<and> d_inotify r
      then (case example_handle_events wds (d_reads r) of
              (out, e) \<Rightarrow> if e \<noteq> Returned then (out, e)
                 else (let (out', e') = example_rounds wds rs in (out @ out', e')))
      else example_rounds wds rs)"

text \<open>
  \<open>main\<close>: \<open>argv\<close> with the name of the program, the results of \<open>inotify_init1\<close> and \<open>calloc\<close>, the
  watch descriptor for each directory, and the rounds.  Text for the error stream is left out.
\<close>

definition example_main :: "string list \<Rightarrow> int \<Rightarrow> bool \<Rightarrow> (string \<Rightarrow> int) \<Rightarrow> demo_round list \<Rightarrow> string \<times> demo_end" where
  "example_main argv fd calloc_ok add_watch rs =
     (if length argv < 2 then (''Usage: '' @ argv ! 0 @ '' PATH [PATH ...]'' @ [nl], Exited 1)
      else (let out1 = ''Press ENTER key to terminate.'' @ [nl] in
        if fd = -1 then (out1, Exited 1)
        else if \<not> calloc_ok then (out1, Exited 1)
        else (let wds = map (\<lambda>a. (add_watch a, a)) (tl argv) in
          if \<exists>w \<in> set wds. fst w = -1 then (out1, Exited 1)
          else (let out2 = out1 @ ''Listening for events.'' @ [nl];
                    (out3, e) = example_rounds wds rs
                in if e \<noteq> Returned then (out2 @ out3, e)
                   else (out2 @ out3 @ ''Listening for events stopped.'' @ [nl], Exited 0)))))"

section \<open>\<open>multicast-send.c\<close>\<close>

text \<open>
  What the program sends, and where: the arguments, what \<open>inet_addr\<close> makes of the address, the
  results of \<open>socket\<close>, \<open>setsockopt\<close> and whether \<open>sendto\<close> takes the datagram.  The errors are
  printed and otherwise ignored; with a wrong number of arguments the program exits with 1.
\<close>

record multicast_packet =
  mp_to :: sockaddr_in
  mp_ttl :: u8
  mp_data :: string

definition multicast_send_main :: "string list \<Rightarrow> (string \<Rightarrow> u32) \<Rightarrow> int \<Rightarrow> int \<Rightarrow> bool
    \<Rightarrow> multicast_packet list \<times> string list \<times> demo_end" where
  "multicast_send_main argv inet_addr sock opt_res accepted =
     (if length argv < 4 \<or> 5 < length argv
      then ([], [''Usage:  '' @ argv ! 0 @ '' <Multicast Address> <Port> <Send String> [<TTL>]'' @ [nl]], Exited 1)
      else (let multicastIP = argv ! 1;
                multicastPort = of_int (atoi (argv ! 2)) :: u16;
                sendString = argv ! 3;
                multicastTTL = (if length argv = 5 then of_int (atoi (argv ! 4)) else 1) :: u8;
                e1 = (if sock < 0 then [''socket() failed''] else []);
                e2 = (if opt_res < 0 then [''setsockopt() failed''] else []);
                multicastAddr = \<lparr> sin_family = AF_INET, sin_port = htons multicastPort, s_addr = inet_addr multicastIP \<rparr>;
                sent = (0 \<le> sock \<and> accepted);
                ttl = (if opt_res < 0 then 1 else multicastTTL)
            in (if sent then [\<lparr> mp_to = multicastAddr, mp_ttl = ttl, mp_data = sendString \<rparr>] else [],
                e1 @ e2 @ (if sent then [] else [''sendto() sent a different number of bytes than expected'']),
                Returned)))"

section \<open>What the demos do\<close>

lemma example_buffer_events:
  assumes "\<forall>e \<in> set es. event_ok e"
  shows "example_buffer wds (concat (map event_bytes es))
    = (concat (map (\<lambda>e. event_text wds (sint (ev_wd e)) (ev_mask e) (bytes_text (ev_name e))) es), Returned)"
  using assms
proof (induction es)
  case Nil
  show ?case by (simp add: example_buffer.simps)
next
  case (Cons e es)
  then have e: "event_ok e" by simp
  note x = event_fields [OF e, of "concat (map event_bytes es)"]
  let ?n = "length (ev_name e) + ev_pad e" and ?x = "event_bytes e @ concat (map event_bytes es)"
  have nm: "(if ?n \<noteq> 0 then bytes_text (takeWhile (\<lambda>b. b \<noteq> 0) (drop 16 ?x)) else []) = bytes_text (ev_name e)"
    using x(7) e by (cases "ev_name e = []") (auto simp: bytes_text_def event_ok_def)
  have "concat (map event_bytes (e # es)) = ?x" by simp
  then show ?case using Cons
    by (subst example_buffer.simps) (simp only: x(1-6) if_False Let_def nm, simp)
qed

text \<open>
  The line that belongs to an event: the names of the kinds in its mask, the directory that was
  given for its watch, the name, and what it is.  The bits are those of the kernel's interface.
\<close>

definition event_line :: "(int \<times> string) list \<Rightarrow> inotify_event \<Rightarrow> string" where
  "event_line wds e = concat (map fst (filter (\<lambda>(s, i). bit (ev_mask e) i)
        [(''IN_OPEN: '', 5), (''IN_CLOSE_NOWRITE: '', 4), (''IN_CLOSE_WRITE: '', 3)]))
     @ (case map_of wds (sint (ev_wd e)) of None \<Rightarrow> [] | Some d \<Rightarrow> d @ ''/'') @ bytes_text (ev_name e)
     @ (if bit (ev_mask e) 30 then '' [directory]'' else '' [file]'') @ [nl]"

lemma find_map_of: "(case List.find (\<lambda>w. fst w = k) ws of None \<Rightarrow> [] | Some w \<Rightarrow> snd w @ t) = (case map_of ws k of None \<Rightarrow> [] | Some d \<Rightarrow> d @ t)"
  by (induction ws) auto

lemma event_text_line: "event_text wds (sint (ev_wd e)) (ev_mask e) (bytes_text (ev_name e)) = event_line wds e"
proof -
  have "ev_mask e AND 2 ^ n \<noteq> 0 \<longleftrightarrow> bit (ev_mask e) n" for n
    by (simp add: bit_iff_and_push_bit_not_eq_0 push_bit_eq_mult)
  from this [of 5] this [of 4] this [of 3] this [of 30]
  show ?thesis by (simp add: event_text_def event_line_def find_map_of IN_OPEN_def IN_CLOSE_NOWRITE_def IN_CLOSE_WRITE_def IN_ISDIR_def)
qed

text \<open>Several buffers read one after the other, until a read that finds nothing.\<close>

lemma example_handle_buffers:
  assumes "\<forall>es \<in> set bufs. es \<noteq> [] \<and> (\<forall>e \<in> set es. event_ok e)"
  shows "example_handle_events wds (map (\<lambda>es. Some (concat (map event_bytes es))) bufs @ Some [] # unread)
    = (concat (map (event_line wds) (concat bufs)), Returned)"
  using assms
proof (induction bufs)
  case (Cons es bufs)
  have "concat (map event_bytes es) \<noteq> []" using Cons.prems by (cases es) (simp_all add: event_bytes_def)
  then show ?case using Cons example_buffer_events [of es wds] by (simp add: event_text_line del: concat_eq_Nil_conv)
qed simp

text \<open>
  A round in which no key is pressed and the buffers of events \<open>bufs\<close> are read from the watches,
  up to a read that finds nothing; there are none when \<open>poll\<close> was interrupted or nothing came.
\<close>

definition round_gives :: "demo_round \<Rightarrow> inotify_event list list \<Rightarrow> bool" where
  "round_gives r bufs \<longleftrightarrow>
     (if d_poll r = -1 then d_eintr r \<and> bufs = []
      else if 0 < d_poll r
      then \<not> d_stdin r \<and> (if d_inotify r then (\<exists>unread. d_reads r = map (\<lambda>es. Some (concat (map event_bytes es))) bufs @ Some [] # unread) else bufs = [])
      else bufs = [])"

lemma example_rounds_events:
  assumes "list_all2 round_gives rs batches" "0 < d_poll key" "d_stdin key"
    and "\<forall>bufs \<in> set batches. \<forall>es \<in> set bufs. es \<noteq> [] \<and> (\<forall>e \<in> set es. event_ok e)"
  shows "example_rounds wds (rs @ key # rest) = (concat (map (event_line wds) (concat (concat batches))), Returned)"
  using assms(1,4)
proof (induction rule: list_all2_induct)
  case Nil
  then show ?case using assms(2,3) by simp
next
  case (Cons r rs bufs batches)
  then show ?case using example_handle_buffers [of bufs wds] by (auto simp: round_gives_def split: if_splits)
qed

text \<open>
  C40: The demo on directories that can all be watched prints one line for each
  event, in their order, whatever rounds of \<open>poll\<close> and buffers of a round the kernel puts them
  in, interrupted and empty rounds in between, until a key is pressed, and then exits with 0;
  events that come together with the key are not printed.
\<close>

theorem example_prints_events:
  assumes "2 \<le> length argv" "fd \<noteq> -1" "\<forall>a \<in> set (tl argv). add_watch a \<noteq> -1"
    and "list_all2 round_gives rs batches" "0 < d_poll key" "d_stdin key"
    and "\<forall>bufs \<in> set batches. \<forall>es \<in> set bufs. es \<noteq> [] \<and> (\<forall>e \<in> set es. event_ok e)"
  shows "example_main argv fd True add_watch (rs @ key # rest)
    = (''Press ENTER key to terminate.'' @ [nl] @ ''Listening for events.'' @ [nl]
       @ concat (map (event_line (map (\<lambda>a. (add_watch a, a)) (tl argv))) (concat (concat batches)))
       @ ''Listening for events stopped.'' @ [nl], Exited 0)"
  using assms(1-3) example_rounds_events [OF assms(4-7)]
  by (auto simp: example_main_def Let_def)

text \<open>An interrupted round, and one with two buffers.\<close>

theorem example_prints_events_witness:
  "example_main [''demo'', ''/tmp''] 3 True (\<lambda>_. 1)
     ([\<lparr> d_poll = -1, d_eintr = True, d_stdin = False, d_inotify = False, d_reads = [] \<rparr>,
       \<lparr> d_poll = 1, d_eintr = False, d_stdin = False, d_inotify = True,
         d_reads = [Some (event_bytes \<lparr> ev_wd = 1, ev_mask = 0x20, ev_cookie = 0, ev_name = text_bytes ''a'', ev_pad = 3 \<rparr>),
           Some (event_bytes \<lparr> ev_wd = 1, ev_mask = 0x40000010, ev_cookie = 0, ev_name = [], ev_pad = 0 \<rparr>), Some []] \<rparr>]
      @ \<lparr> d_poll = 2, d_eintr = False, d_stdin = True, d_inotify = True, d_reads = [] \<rparr> # [])
   = (''Press ENTER key to terminate.'' @ [nl] @ ''Listening for events.'' @ [nl]
      @ ''IN_OPEN: /tmp/a [file]'' @ [nl] @ ''IN_CLOSE_NOWRITE: /tmp/ [directory]'' @ [nl]
      @ ''Listening for events stopped.'' @ [nl], Exited 0)"
proof -
  let ?a = "\<lparr> ev_wd = 1, ev_mask = 0x20, ev_cookie = 0, ev_name = text_bytes ''a'', ev_pad = 3 \<rparr>"
  let ?b = "\<lparr> ev_wd = 1, ev_mask = 0x40000010, ev_cookie = 0, ev_name = [], ev_pad = 0 \<rparr>"
  let ?rs = "[\<lparr> d_poll = -1, d_eintr = True, d_stdin = False, d_inotify = False, d_reads = [] \<rparr>,
       \<lparr> d_poll = 1, d_eintr = False, d_stdin = False, d_inotify = True, d_reads = [Some (event_bytes ?a), Some (event_bytes ?b), Some []] \<rparr>]"
  have "\<forall>bufs \<in> set [[], [[?a], [?b]]]. \<forall>es \<in> set bufs. es \<noteq> [] \<and> (\<forall>e \<in> set es. event_ok e)"
    by (simp add: event_ok_def text_bytes_def)
  moreover have "list_all2 round_gives ?rs [[], [[?a], [?b]]]" by (simp add: round_gives_def)
  ultimately have "example_main [''demo'', ''/tmp''] 3 True (\<lambda>_. 1)
      (?rs @ \<lparr> d_poll = 2, d_eintr = False, d_stdin = True, d_inotify = True, d_reads = [] \<rparr> # [])
    = (''Press ENTER key to terminate.'' @ [nl] @ ''Listening for events.'' @ [nl]
       @ concat (map (event_line (map (\<lambda>a. (1, a)) (tl [''demo'', ''/tmp'']))) (concat (concat [[], [[?a], [?b]]])))
       @ ''Listening for events stopped.'' @ [nl], Exited 0)"
    by (intro example_prints_events) simp_all
  moreover have "event_line [(1, ''/tmp'')] ?a = ''IN_OPEN: /tmp/a [file]'' @ [nl]"
    "event_line [(1, ''/tmp'')] ?b = ''IN_CLOSE_NOWRITE: /tmp/ [directory]'' @ [nl]"
    by (simp_all add: event_line_def bytes_text_bytes bit_numeral_rec bytes_text_def [of "[]"])
  ultimately show ?thesis by simp
qed

lemma multicast_send_datagram:
  assumes "p < 2 ^ 16" "n < 2 ^ 8" "0 \<le> sock" "0 \<le> opt_res" "args = [] \<and> n = 1 \<or> args = [decimal n]"
  shows "multicast_send_main ([prog, ip, decimal p, txt] @ args) inet_addr sock opt_res True
    = ([\<lparr> mp_to = \<lparr> sin_family = AF_INET, sin_port = htons (of_nat p), s_addr = inet_addr ip \<rparr>, mp_ttl = of_nat n,
         mp_data = txt \<rparr>], [], Returned)"
proof -
  have "atoi (decimal p) = int p" "atoi (decimal n) = int n" using assms(1,2) by (simp_all add: atoi_decimal)
  with assms(3-5) show ?thesis by (auto simp: multicast_send_main_def Let_def)
qed

text \<open>A command line of the sender: the TTL may be left out.\<close>

definition send_args :: "string \<Rightarrow> nat \<Rightarrow> string \<times> nat option \<Rightarrow> string list" where
  "send_args ip p = (\<lambda>(s, n). [''send'', ip, decimal p, s] @ (case n of None \<Rightarrow> [] | Some k \<Rightarrow> [decimal k]))"

text \<open>
  C39: Called any number of times with an address and a port, a text shorter
  than the receiver's buffer and possibly a TTL, the demo sends exactly one datagram per call, to
  that address and port and with the TTL given or 1.  The log that receives the datagrams ends
  with its network output switched by the last \<open>START_LOGGING\<close> or \<open>STOP_LOGGING\<close> among the texts,
  others having no effect, and ends the program when receiving fails after them.
\<close>

theorem multicast_send_switches_log:
  assumes "p < 2 ^ 16" "0 \<le> sock" "0 \<le> opt_res"
    and "\<forall>(s, n) \<in> set cs. length s < 1024 \<and> (\<forall>k \<in> set_option n. k < 256)"
  shows "\<exists>pks. map (\<lambda>c. multicast_send_main (send_args ip p c) inet_addr sock opt_res True) cs = map (\<lambda>pk. ([pk], [], Returned)) pks
    \<and> map mp_to pks = replicate (length cs) \<lparr> sin_family = AF_INET, sin_port = htons (of_nat p), s_addr = inet_addr ip \<rparr>
    \<and> map (unat \<circ> mp_ttl) pks = map (\<lambda>(s, n). case n of None \<Rightarrow> 1 | Some k \<Rightarrow> k) cs
    \<and> process_network_logging_commands (map (Some \<circ> mp_data) pks) ml
      = Inr (ml\<lparr>networkLoggingEnabled :=
          (if log_switches (map fst cs) = [] then networkLoggingEnabled ml else last (log_switches (map fst cs)))\<rparr>)
    \<and> process_network_logging_commands (map (Some \<circ> mp_data) pks @ [None]) ml = Inl ExitFailure"
proof -
  define pk where "pk = (\<lambda>(s, n). \<lparr> mp_to = \<lparr> sin_family = AF_INET, sin_port = htons (of_nat p), s_addr = inet_addr ip \<rparr>,
    mp_ttl = (case n of None \<Rightarrow> 1 | Some k \<Rightarrow> of_nat k), mp_data = s \<rparr> :: multicast_packet)"
  have 1: "map (\<lambda>c. multicast_send_main (send_args ip p c) inet_addr sock opt_res True) cs = map (\<lambda>pk. ([pk], [], Returned)) (map pk cs)"
    unfolding map_map comp_def
  proof (rule map_cong [OF refl])
    fix c assume c: "c \<in> set cs"
    show "multicast_send_main (send_args ip p c) inet_addr sock opt_res True = ([pk c], [], Returned)"
      using assms(4) c multicast_send_datagram [OF assms(1) _ assms(2,3), of "case snd c of None \<Rightarrow> 1 | Some k \<Rightarrow> k"]
      by (fastforce simp: send_args_def pk_def split: option.splits)
  qed
  have 2: "map (unat \<circ> mp_ttl) (map pk cs) = map (\<lambda>(s, n). case n of None \<Rightarrow> 1 | Some k \<Rightarrow> k) cs"
    using assms(4) by (auto simp: pk_def unat_of_nat_small split: option.splits)
  have 3: "map mp_to (map pk cs) = replicate (length cs) \<lparr> sin_family = AF_INET, sin_port = htons (of_nat p), s_addr = inet_addr ip \<rparr>"
    unfolding map_map comp_def by (simp add: pk_def case_prod_beta map_replicate_const)
  have d: "map (Some \<circ> mp_data) (map pk cs) = map Some (map fst cs)" by (auto simp: pk_def)
  have l: "\<forall>s \<in> set (map fst cs). length s < MAXLEN" using assms(4) by (auto simp: MAXLEN_def)
  show ?thesis
    using 1 2 3 log_commands_run [OF l, of "[]" ml] log_commands_stop(1) [OF l, of "[]" ml] unfolding append_Nil2 d [symmetric]
    by (intro exI [of _ "map pk cs"] conjI) simp_all
qed

theorem multicast_send_switches_log_witness:
  "\<exists>pks. map (\<lambda>c. multicast_send_main (send_args ''227.0.0.5'' 5555 c) (\<lambda>_. 0xE3000005) 3 0 True)
        [(''START_LOGGING'', Some 4), (''HELLO'', None)] = map (\<lambda>pk. ([pk], [], Returned)) pks
    \<and> map mp_to pks = replicate 2 \<lparr> sin_family = AF_INET, sin_port = htons (of_nat 5555), s_addr = 0xE3000005 \<rparr>
    \<and> map (unat \<circ> mp_ttl) pks = [4, 1]
    \<and> process_network_logging_commands (map (Some \<circ> mp_data) pks)
        \<lparr> ml_seq = 0, networkLoggingEnabled = False, unicastLoggingEnabled = False \<rparr>
      = Inr (\<lparr> ml_seq = 0, networkLoggingEnabled = False, unicastLoggingEnabled = False \<rparr>\<lparr>networkLoggingEnabled := True\<rparr>)
    \<and> process_network_logging_commands (map (Some \<circ> mp_data) pks @ [None])
        \<lparr> ml_seq = 0, networkLoggingEnabled = False, unicastLoggingEnabled = False \<rparr> = Inl ExitFailure"
proof -
  have s: "log_switches (map fst [(''START_LOGGING'', Some (4::nat)), (''HELLO'', None)]) = [True]"
    by (simp add: log_switches_def map_filter_simps)
  have "length [(''START_LOGGING'', Some (4::nat)), (''HELLO'', None)] = 2"
    "map (\<lambda>(s, n). case n of None \<Rightarrow> 1 | Some k \<Rightarrow> k) [(''START_LOGGING'', Some (4::nat)), (''HELLO'', None)] = [4, 1]" by simp_all
  note e = this s
  show ?thesis
    using multicast_send_switches_log [of 5555 3 0 "[(''START_LOGGING'', Some 4), (''HELLO'', None)]" "''227.0.0.5''" "\<lambda>_. 0xE3000005"
      "\<lparr> ml_seq = 0, networkLoggingEnabled = False, unicastLoggingEnabled = False \<rparr>", unfolded e]
    by simp
qed

end
