(* ===== verification/Flash_Config.thy ===== *)
theory Flash_Config
  imports Startup Log_Config
begin

text \<open>
  \<open>src/conf_read.c\<close>: the settings of the device are read from flash memory as tagged text such as
  \<open><s>name</s>\<close>.  The device is the bytes a \<open>read\<close> returns.  \<open>strtok_r\<close> cuts the buffer up in
  place; what matters of it at any time is the part from the current token to its end.
\<close>

section \<open>The data\<close>

definition SSID_MAX_SIZE :: nat where "SSID_MAX_SIZE = 32"
definition WPA2_PSWD_MAX_SIZE :: nat where "WPA2_PSWD_MAX_SIZE = 63"
definition START_TAG_LEN :: nat where "START_TAG_LEN = 3"
definition END_TAG_LEN :: nat where "END_TAG_LEN = 4"
definition SSID_BUFF_SIZE :: nat where "SSID_BUFF_SIZE = START_TAG_LEN + SSID_MAX_SIZE + END_TAG_LEN"
definition WPA2_PSWD_BUFF_SIZE :: nat where "WPA2_PSWD_BUFF_SIZE = START_TAG_LEN + WPA2_PSWD_MAX_SIZE + END_TAG_LEN"
definition BEAM_NAME_MAX_SIZE :: nat where "BEAM_NAME_MAX_SIZE = START_TAG_LEN + 32 + 4 + END_TAG_LEN"
definition BLE_ADDR_SIZE :: nat where "BLE_ADDR_SIZE = 6"

lemmas conf_sizes = SSID_MAX_SIZE_def WPA2_PSWD_MAX_SIZE_def START_TAG_LEN_def END_TAG_LEN_def
  SSID_BUFF_SIZE_def WPA2_PSWD_BUFF_SIZE_def BEAM_NAME_MAX_SIZE_def BLE_ADDR_SIZE_def

definition SSID_TAG_CHAR :: char where "SSID_TAG_CHAR = CHR ''s''"
definition WPA2_PSWD_TAG_CHAR :: char where "WPA2_PSWD_TAG_CHAR = CHR ''p''"
definition BLE_ADDR_TAG_CHAR :: char where "BLE_ADDR_TAG_CHAR = CHR ''b''"
definition SERVICE_TAG_CHAR :: char where "SERVICE_TAG_CHAR = CHR ''v''"
definition SATID_TAG_CHAR :: char where "SATID_TAG_CHAR = CHR ''i''"

lemmas tag_chars = SSID_TAG_CHAR_def WPA2_PSWD_TAG_CHAR_def BLE_ADDR_TAG_CHAR_def SERVICE_TAG_CHAR_def SATID_TAG_CHAR_def

text \<open>The tags as text; the code only looks at the character.\<close>

definition SSID_START_TAG :: string where "SSID_START_TAG = ''<s>''"
definition SSID_END_TAG :: string where "SSID_END_TAG = ''</s>''"
definition WPA2_PSWD_START_TAG :: string where "WPA2_PSWD_START_TAG = ''<p>''"
definition WPA2_PSWD_END_TAG :: string where "WPA2_PSWD_END_TAG = ''</p>''"
definition BLE_ADDR_START_TAG :: string where "BLE_ADDR_START_TAG = ''<b>''"
definition BLE_ADDR_END_TAG :: string where "BLE_ADDR_END_TAG = ''</b>''"
definition SERVICE_START_TAG :: string where "SERVICE_START_TAG = ''<v>''"
definition SERVICE_END_TAG :: string where "SERVICE_END_TAG = ''</v>''"
definition SATID_START_TAG :: string where "SATID_START_TAG = ''<i>''"
definition SATID_END_TAG :: string where "SATID_END_TAG = ''</i>''"

lemmas tag_texts = SSID_START_TAG_def SSID_END_TAG_def
  WPA2_PSWD_START_TAG_def WPA2_PSWD_END_TAG_def
  BLE_ADDR_START_TAG_def BLE_ADDR_END_TAG_def
  SERVICE_START_TAG_def SERVICE_END_TAG_def
  SATID_START_TAG_def SATID_END_TAG_def

definition CONFIG_MTD_DEV_0 :: string where "CONFIG_MTD_DEV_0 = ''/dev/mtd0''"
definition CONFIG_MTD_DEV_1 :: string where "CONFIG_MTD_DEV_1 = ''/dev/mtd1''"

record conf_data =
  ssid :: string
  wpa2_pswd :: string
  selected_beam :: string
  ble_addr :: string
  wpa2_pswd_len :: u8
  ssid_len :: u8
  beam_len :: u8
  service_id :: u8
  conf_status :: u8

definition wf_conf :: "conf_data \<Rightarrow> bool" where
  "wf_conf c \<longleftrightarrow> length (ssid c) = SSID_BUFF_SIZE \<and> length (wpa2_pswd c) = WPA2_PSWD_BUFF_SIZE
     \<and> length (selected_beam c) = BEAM_NAME_MAX_SIZE \<and> length (ble_addr c) = BLE_ADDR_SIZE"

section \<open>Reading\<close>

text \<open>
  \<open>strtok_r\<close> with the delimiter \<open><\<close> on the memory from \<open>saveptr\<close> on: the memory seen from the
  token, which now ends in a NUL, and the new \<open>saveptr\<close>.  \<open>None\<close> at the end of the text; without
  a NUL in the memory the search leaves it.
\<close>

definition strtok_r :: "string \<Rightarrow> (c_error + (string \<times> string)) option" where
  "strtok_r m =
     (let t = dropWhile (\<lambda>c. c = CHR ''<'') m;
          tok = takeWhile (\<lambda>c. c \<noteq> CHR ''<'' \<and> c \<noteq> nul) t;
          r = drop (length tok) t
      in if t \<noteq> [] \<and> hd t = nul then None
         else if r = [] then Some (Inl OutOfBounds)
         else if hd r = nul then Some (Inr (tok @ r, r))
         else Some (Inr (tok @ nul # tl r, tl r)))"

text \<open>The string at an address, and \<open>n\<close> bytes from there.\<close>

definition c_str :: "string \<Rightarrow> c_error + string" where
  "c_str m = (if nul \<in> set m then Inr (takeWhile (\<lambda>c. c \<noteq> nul) m) else Inl OutOfBounds)"

text \<open>One pass of the \<open>switch\<close>: \<open>p\<close> is the memory from the token on.\<close>

definition read_tag :: "string \<Rightarrow> conf_data \<Rightarrow> c_error + conf_data" where
  "read_tag p c =
     (if hd p = SSID_TAG_CHAR
      then (case c_str (drop 2 p) of Inl e \<Rightarrow> Inl e
            | Inr v \<Rightarrow> (let n = of_nat (length v) :: u8 in
                case memcpy (ssid c) 0 (drop 2 p) (unat n) of Inl e \<Rightarrow> Inl e | Inr d \<Rightarrow> Inr (c\<lparr>ssid_len := n, ssid := d\<rparr>)))
      else if hd p = WPA2_PSWD_TAG_CHAR
      then (case c_str (drop 2 p) of Inl e \<Rightarrow> Inl e
            | Inr v \<Rightarrow> (let n = of_nat (length v) :: u8 in
                case memcpy (wpa2_pswd c) 0 (drop 2 p) (unat n) of Inl e \<Rightarrow> Inl e | Inr d \<Rightarrow> Inr (c\<lparr>wpa2_pswd_len := n, wpa2_pswd := d\<rparr>)))
      else if hd p = BLE_ADDR_TAG_CHAR
      then (case memcpy (ble_addr c) 0 (drop 2 p) BLE_ADDR_SIZE of Inl e \<Rightarrow> Inl e | Inr d \<Rightarrow> Inr (c\<lparr>ble_addr := d\<rparr>))
      else if hd p = SERVICE_TAG_CHAR
      then (case c_str (drop 2 p) of Inl e \<Rightarrow> Inl e | Inr v \<Rightarrow> Inr (c\<lparr>service_id := of_int (atoi v)\<rparr>))
      else if hd p = SATID_TAG_CHAR
      then (case c_str (drop 2 p) of Inl e \<Rightarrow> Inl e
            | Inr v \<Rightarrow> (let n = of_nat (length v) :: u8 in
                case memcpy (selected_beam c) 0 (drop 2 p) (unat n) of Inl e \<Rightarrow> Inl e | Inr d \<Rightarrow> Inr (c\<lparr>beam_len := n, selected_beam := d\<rparr>)))
      else Inr c)"

lemma strtok_r_shorter: "strtok_r m = Some (Inr (p, m')) \<Longrightarrow> length m' < length m"
proof -
  assume s: "strtok_r m = Some (Inr (p, m'))"
  define t where "t = dropWhile (\<lambda>c. c = CHR ''<'') m"
  define tok where "tok = takeWhile (\<lambda>c. c \<noteq> CHR ''<'' \<and> c \<noteq> nul) t"
  note u = s [unfolded strtok_r_def Let_def, folded t_def, folded tok_def]
  have t: "t \<noteq> []" using u by (cases t) simp_all
  have n: "hd t \<noteq> nul" using u t by (cases "hd t = nul") simp_all
  have "hd t \<noteq> CHR ''<''" using hd_dropWhile [of "\<lambda>c. c = CHR ''<''" m] t by (simp add: t_def)
  then have k: "0 < length tok" using t n by (cases t) (simp_all add: tok_def)
  have "length m' \<le> length t - length tok" using u t n by (cases "drop (length tok) t = []"; cases "hd (drop (length tok) t) = nul") auto
  also have "\<dots> < length t" using k t by simp
  also have "\<dots> \<le> length m" by (simp add: t_def length_dropWhile_le)
  finally show ?thesis .
qed

text \<open>The loop over the tokens after the first.\<close>

function read_tags :: "string \<Rightarrow> conf_data \<Rightarrow> c_error + conf_data" where
  "read_tags m c =
     (case strtok_r m of
        None \<Rightarrow> Inr c
      | Some r \<Rightarrow> (case r of Inl e \<Rightarrow> Inl e
         | Inr (p, m') \<Rightarrow> (case read_tag p c of Inl e \<Rightarrow> Inl e | Inr c' \<Rightarrow> read_tags m' c')))"
  by pat_completeness auto
termination
  by (relation "measure (\<lambda>(m, c). length m)") (auto dest: strtok_r_shorter)

declare read_tags.simps [simp del]

text \<open>
  The flash devices of the system: opening or reading one may fail, with the text of the error.
\<close>

datatype flash_dev = CannotOpen string | CannotRead string | Flash string

text \<open>\<open>read_config\<close> clears the buffer first: the buffer, the result and the calls of the log.\<close>

definition read_config :: "(string \<Rightarrow> flash_dev) \<Rightarrow> string \<Rightarrow> nat \<Rightarrow> string \<times> int \<times> log_call list" where
  "read_config devs dev n =
     (case devs dev of
        CannotOpen err \<Rightarrow> (replicate n nul, -1,
          [Log_error (''read_config: open config '' @ dev @ '' failed. err:'' @ err @ [nl])])
      | CannotRead err \<Rightarrow> (replicate n nul, -1, [Log_error (''read_config: read config failed. err:'' @ err @ [nl])])
      | Flash bs \<Rightarrow> (take n bs @ replicate (n - length bs) nul, 0, []))"

definition read_config1 :: "(string \<Rightarrow> flash_dev) \<Rightarrow> nat \<Rightarrow> string \<times> int \<times> log_call list" where
  "read_config1 devs n = read_config devs CONFIG_MTD_DEV_1 n"

text \<open>\<open>_read_config\<close>: the first token is used without a test for NULL.\<close>

definition read_conf_data :: "(string \<Rightarrow> flash_dev) \<Rightarrow> conf_data \<Rightarrow> c_error + (conf_data \<times> int \<times> log_call list)" where
  "read_conf_data devs c =
     (let (buff, r, logs) = read_config1 devs 1024 in
      if r \<noteq> 0 then Inr (c, -1, logs)
      else (case strtok_r buff of
              None \<Rightarrow> Inl NullDeref
            | Some t \<Rightarrow> (case t of Inl e \<Rightarrow> Inl e
               | Inr (p, m) \<Rightarrow> (case read_tag p c of Inl e \<Rightarrow> Inl e
                  | Inr c1 \<Rightarrow> (case read_tags m c1 of Inl e \<Rightarrow> Inl e | Inr c2 \<Rightarrow> Inr (c2, 0, logs))))))"

text \<open>\<open>%2.2X\<close> of a byte.\<close>

definition fmt_2X :: "char \<Rightarrow> string" where
  "fmt_2X b = (let n = of_char b :: nat; d = (\<lambda>k. if k < 10 then char_of (48 + k) else char_of (55 + k))
     in [d (n div 16), d (n mod 16)])"

text \<open>
  The \<open>main\<close> of a \<open>DEBUG\<close> build prints the address and the service.  \<open>conf\<close> is its uninitialised
  structure; whether it could be read is not tested.
\<close>

definition conf_debug_main :: "(string \<Rightarrow> flash_dev) \<Rightarrow> conf_data \<Rightarrow> c_error + log_call list" where
  "conf_debug_main devs conf =
     (case read_conf_data devs conf of
        Inl e \<Rightarrow> Inl e
      | Inr (c, r, logs) \<Rightarrow>
          Inr (logs @ [Log_info (fmt_2X (ble_addr c ! 0) @ '':'' @ fmt_2X (ble_addr c ! 1) @ '':''
            @ fmt_2X (ble_addr c ! 2) @ '':'' @ fmt_2X (ble_addr c ! 3) @ '':''
            @ fmt_2X (ble_addr c ! 4) @ '':'' @ fmt_2X (ble_addr c ! 5)
            @ '' SERVICE ID='' @ (if service_id c = SERVICE_ID_BLE then ''BLE'' else ''UDP'') @ [nl])]))"

section \<open>Files of tags\<close>

datatype tag = Ssid string | Wpa2 string | Ble string | Service nat | Beam string

fun tag_char :: "tag \<Rightarrow> char" where
  "tag_char (Ssid _) = SSID_TAG_CHAR" | "tag_char (Wpa2 _) = WPA2_PSWD_TAG_CHAR" | "tag_char (Ble _) = BLE_ADDR_TAG_CHAR"
| "tag_char (Service _) = SERVICE_TAG_CHAR" | "tag_char (Beam _) = SATID_TAG_CHAR"

fun tag_value :: "tag \<Rightarrow> string" where
  "tag_value (Ssid s) = s" | "tag_value (Wpa2 s) = s" | "tag_value (Ble s) = s"
| "tag_value (Service n) = decimal n" | "tag_value (Beam s) = s"

fun tag_start :: "tag \<Rightarrow> string" where
  "tag_start (Ssid _) = SSID_START_TAG" | "tag_start (Wpa2 _) = WPA2_PSWD_START_TAG" | "tag_start (Ble _) = BLE_ADDR_START_TAG"
| "tag_start (Service _) = SERVICE_START_TAG" | "tag_start (Beam _) = SATID_START_TAG"

fun tag_end :: "tag \<Rightarrow> string" where
  "tag_end (Ssid _) = SSID_END_TAG" | "tag_end (Wpa2 _) = WPA2_PSWD_END_TAG" | "tag_end (Ble _) = BLE_ADDR_END_TAG"
| "tag_end (Service _) = SERVICE_END_TAG" | "tag_end (Beam _) = SATID_END_TAG"

definition tag_text :: "tag \<Rightarrow> string" where
  "tag_text t = tag_start t @ tag_value t @ tag_end t"

text \<open>The code finds the value by the character: two more bytes come before it and four behind it.\<close>

lemma tag_text_chars: "tag_text t = ''<'' @ [tag_char t] @ ''>'' @ tag_value t @ ''</'' @ [tag_char t] @ ''>''"
  by (cases t) (simp_all add: tag_text_def tag_texts tag_chars)

lemma length_tag_text: "length (tag_text t) = START_TAG_LEN + length (tag_value t) + END_TAG_LEN"
  by (simp add: tag_text_chars START_TAG_LEN_def END_TAG_LEN_def)

definition tags_text :: "tag list \<Rightarrow> string" where
  "tags_text ts = concat (map tag_text ts)"

text \<open>A value that fits its field and holds no delimiter.\<close>

fun tag_ok :: "tag \<Rightarrow> bool" where
  "tag_ok (Ssid s) \<longleftrightarrow> CHR ''<'' \<notin> set s \<and> nul \<notin> set s \<and> length s \<le> SSID_BUFF_SIZE"
| "tag_ok (Wpa2 s) \<longleftrightarrow> CHR ''<'' \<notin> set s \<and> nul \<notin> set s \<and> length s \<le> WPA2_PSWD_BUFF_SIZE"
| "tag_ok (Ble s) \<longleftrightarrow> CHR ''<'' \<notin> set s \<and> nul \<notin> set s \<and> length s = BLE_ADDR_SIZE"
| "tag_ok (Service n) \<longleftrightarrow> n < 256"
| "tag_ok (Beam s) \<longleftrightarrow> CHR ''<'' \<notin> set s \<and> nul \<notin> set s \<and> length s \<le> BEAM_NAME_MAX_SIZE"

text \<open>What a tag means.\<close>

fun set_tag :: "tag \<Rightarrow> conf_data \<Rightarrow> conf_data" where
  "set_tag (Ssid s) c = c\<lparr>ssid_len := of_nat (length s), ssid := mem_write (ssid c) 0 s\<rparr>"
| "set_tag (Wpa2 s) c = c\<lparr>wpa2_pswd_len := of_nat (length s), wpa2_pswd := mem_write (wpa2_pswd c) 0 s\<rparr>"
| "set_tag (Ble s) c = c\<lparr>ble_addr := s\<rparr>"
| "set_tag (Service n) c = c\<lparr>service_id := of_nat n\<rparr>"
| "set_tag (Beam s) c = c\<lparr>beam_len := of_nat (length s), selected_beam := mem_write (selected_beam c) 0 s\<rparr>"

lemma set_tag_wf: "wf_conf c \<Longrightarrow> tag_ok t \<Longrightarrow> wf_conf (set_tag t c)"
  by (cases t) (simp_all add: wf_conf_def bytes_simps)

lemma tag_value_chars:
  assumes "tag_ok t"
  shows "\<forall>c \<in> set (tag_value t). c \<noteq> CHR ''<'' \<and> c \<noteq> nul"
proof (cases t)
  case (Service n)
  have "c \<noteq> CHR ''<'' \<and> c \<noteq> nul" if "c \<in> set (decimal n)" for c
  proof -
    obtain d where d: "d < 10" "c = char_of (48 + d :: nat)" using decimal_chars(2) \<open>c \<in> set (decimal n)\<close> by blast
    then have "is_digit c" using digit_char(1) by blast
    then show ?thesis by (auto simp: is_digit_def)
  qed
  with Service show ?thesis by simp
qed (use assms in auto)

lemma strtok_r_token:
  assumes "k \<noteq> []" "\<forall>c \<in> set k. c \<noteq> CHR ''<'' \<and> c \<noteq> nul"
  shows "strtok_r (CHR ''<'' # k @ CHR ''<'' # m) = Some (Inr (k @ nul # m, m))"
    "strtok_r (k @ CHR ''<'' # m) = Some (Inr (k @ nul # m, m))"
    "strtok_r (k @ nul # m) = Some (Inr (k @ nul # m, nul # m))"
proof -
  obtain a k' where k: "k = a # k'" "a \<noteq> CHR ''<''" "a \<noteq> nul" using assms by (cases k) auto
  have d: "dropWhile (\<lambda>c. c = CHR ''<'') (k @ x) = k @ x" for x using k by simp
  have t: "takeWhile (\<lambda>c. c \<noteq> CHR ''<'' \<and> c \<noteq> nul) (k @ CHR ''<'' # m) = k"
    "takeWhile (\<lambda>c. c \<noteq> CHR ''<'' \<and> c \<noteq> nul) (k @ nul # m) = k"
    using assms(2) by (simp_all add: takeWhile_append2)
  have h: "hd (k @ x) \<noteq> nul" "k \<noteq> []" for x using k by simp_all
  have 2: "strtok_r (k @ CHR ''<'' # m) = Some (Inr (k @ nul # m, m))" 
    unfolding strtok_r_def Let_def d t using h by simp
  show "strtok_r (CHR ''<'' # k @ CHR ''<'' # m) = Some (Inr (k @ nul # m, m))"
    using 2 by (simp add: strtok_r_def Let_def)
  show "strtok_r (k @ CHR ''<'' # m) = Some (Inr (k @ nul # m, m))" by (rule 2)
  show "strtok_r (k @ nul # m) = Some (Inr (k @ nul # m, nul # m))" unfolding strtok_r_def Let_def d t using h by simp
qed

lemma read_tag_tag:
  assumes "tag_ok t" "wf_conf c"
  shows "read_tag (tag_char t # CHR ''>'' # tag_value t @ nul # m) c = Inr (set_tag t c)"
proof -
  have v: "takeWhile (\<lambda>c. c \<noteq> nul) (tag_value t @ nul # m) = tag_value t"
    using tag_value_chars [OF assms(1)] by (simp add: takeWhile_append2)
  have c: "c_str (tag_value t @ nul # m) = Inr (tag_value t)" by (simp add: c_str_def v)
  have l: "unat (of_nat (length s) :: u8) = length s" if "length s \<le> 70" for s :: string
    by (rule unat_of_nat_small) (use that in simp)
  show ?thesis
  proof (cases t)
    case (Service n)
    then have "atoi (decimal n) = int n" using assms(1) by (intro atoi_decimal) simp
    with Service c show ?thesis by (simp add: read_tag_def tag_chars)
  qed (use assms c l in \<open>simp_all add: read_tag_def Let_def wf_conf_def conf_sizes tag_chars memcpy_def mem_write_0\<close>)
qed

lemma read_tags_delim: "read_tags (CHR ''<'' # m) c = read_tags m c"
proof -
  have "strtok_r (CHR ''<'' # m) = strtok_r m" by (simp add: strtok_r_def)
  then show ?thesis by (simp add: read_tags.simps [of m] read_tags.simps [of "CHR ''<'' # m"])
qed

lemma read_tags_token:
  assumes "k \<noteq> []" "\<forall>c \<in> set k. c \<noteq> CHR ''<'' \<and> c \<noteq> nul" "read_tag (k @ nul # m) c = Inr c'" "d = CHR ''<'' \<or> d = nul"
  shows "read_tags (k @ d # m) c = read_tags (d # m) c'"
  using assms(4)
proof
  assume "d = CHR ''<''"
  then show ?thesis using strtok_r_token(2) [OF assms(1,2), of m] assms(3)
    by (simp add: read_tags.simps [of "k @ CHR ''<'' # m"] read_tags_delim)
next
  assume "d = nul"
  then show ?thesis using strtok_r_token(3) [OF assms(1,2), of m] assms(3)
    by (simp add: read_tags.simps [of "k @ nul # m"])
qed

lemma read_tags_tag:
  assumes "tag_ok t" "wf_conf c" "d = CHR ''<'' \<or> d = nul"
  shows "read_tags (tag_text t @ d # m) c = read_tags (d # m) (set_tag t c)"
proof -
  let ?k = "tag_char t # CHR ''>'' # tag_value t" and ?e = "[CHR ''/'', tag_char t, CHR ''>'']"
  have tc: "tag_char t \<noteq> CHR ''<'' \<and> tag_char t \<noteq> nul" by (cases t) (simp_all add: tag_chars)
  have k: "\<forall>c \<in> set ?k. c \<noteq> CHR ''<'' \<and> c \<noteq> nul" using tag_value_chars [OF assms(1)] tc by simp
  have 1: "read_tags (?k @ CHR ''<'' # (?e @ d # m)) c = read_tags (CHR ''<'' # (?e @ d # m)) (set_tag t c)"
    by (rule read_tags_token [OF _ k]) (use read_tag_tag [OF assms(1,2)] in simp_all)
  have 2: "read_tags (?e @ d # m) (set_tag t c) = read_tags (d # m) (set_tag t c)"
    by (rule read_tags_token) (use tc assms(3) in \<open>auto simp: read_tag_def tag_chars\<close>)
  have "tag_text t @ d # m = CHR ''<'' # ?k @ CHR ''<'' # (?e @ d # m)" by (simp add: tag_text_chars)
  then show ?thesis using 1 2 by (simp only: read_tags_delim)
qed

lemma read_tags_tags:
  assumes "\<forall>t \<in> set ts. tag_ok t" "wf_conf c"
  shows "read_tags (tags_text ts @ nul # m) c = Inr (fold set_tag ts c)"
  using assms
proof (induction ts arbitrary: c)
  case Nil
  show ?case by (simp add: tags_text_def read_tags.simps strtok_r_def)
next
  case (Cons t ts)
  have "\<exists>d m'. tags_text ts @ nul # m = d # m' \<and> (d = CHR ''<'' \<or> d = nul)"
    by (cases ts) (simp_all add: tags_text_def tag_text_chars)
  then obtain d m' where d: "tags_text ts @ nul # m = d # m'" "d = CHR ''<'' \<or> d = nul" by blast
  have "tags_text (t # ts) @ nul # m = tag_text t @ d # m'" unfolding d(1) [symmetric] by (simp add: tags_text_def)
  then have "read_tags (tags_text (t # ts) @ nul # m) c = read_tags (tags_text ts @ nul # m) (set_tag t c)"
    using read_tags_tag [OF _ Cons.prems(2) d(2), of t m'] Cons.prems(1) d(1) by simp
  also have "\<dots> = Inr (fold set_tag ts (set_tag t c))"
    using Cons.IH [of "set_tag t c"] Cons.prems set_tag_wf by simp
  finally show ?case by simp
qed

lemma read_conf_data_tags:
  assumes "strtok_r (bs @ replicate (1024 - length bs) nul) \<noteq> None" "length bs < 1024"
    and "devs CONFIG_MTD_DEV_1 = Flash bs"
  shows "read_conf_data devs c = (case read_tags (bs @ replicate (1024 - length bs) nul) c of Inl e \<Rightarrow> Inl e | Inr c' \<Rightarrow> Inr (c', 0, []))"
  using assms
  by (auto simp: read_conf_data_def read_config1_def read_config_def read_tags.simps [of "bs @ replicate (1024 - length bs) nul"]
      split: option.splits sum.splits)

lemma conf_tags_read:
  assumes "ts \<noteq> []" "\<forall>t \<in> set ts. tag_ok t" "wf_conf c" "length (tags_text ts) < 1024"
    and "devs CONFIG_MTD_DEV_1 = Flash (tags_text ts)"
  shows "read_conf_data devs c = Inr (fold set_tag ts c, 0, [])" "wf_conf (fold set_tag ts c)"
proof -
  let ?b = "tags_text ts @ replicate (1024 - length (tags_text ts)) nul"
  obtain j where "1024 - length (tags_text ts) = Suc j" using assms(4) by (cases "1024 - length (tags_text ts)") simp_all
  then have b: "?b = tags_text ts @ nul # replicate j nul" by simp
  obtain t ts' where ts: "ts = t # ts'" using assms(1) by (cases ts) simp_all
  have "tag_char t \<noteq> CHR ''<'' \<and> tag_char t \<noteq> nul" by (cases t) (simp_all add: tag_chars)
  then have "strtok_r ?b \<noteq> None" by (simp add: ts tags_text_def tag_text_chars strtok_r_def Let_def)
  then have "read_conf_data devs c = (case read_tags ?b c of Inl e \<Rightarrow> Inl e | Inr c' \<Rightarrow> Inr (c', 0, []))"
    by (rule read_conf_data_tags) (rule assms(4,5))+
  then show "read_conf_data devs c = Inr (fold set_tag ts c, 0, [])" unfolding b using read_tags_tags [OF assms(2,3)] by simp
  show "wf_conf (fold set_tag ts c)" using assms(2,3)
    by (induction ts arbitrary: c) (simp_all add: set_tag_wf)
qed

definition conf_example :: conf_data where
  "conf_example = \<lparr> ssid = replicate 39 nul, wpa2_pswd = replicate 70 nul, selected_beam = replicate 43 nul,
     ble_addr = replicate 6 nul, wpa2_pswd_len = 0, ssid_len = 0, beam_len = 0, service_id = 7, conf_status = 0 \<rparr>"

lemma wf_conf_example: "wf_conf conf_example"
  by (simp add: conf_example_def wf_conf_def conf_sizes)

text \<open>
  C32: When the second flash device holds any sequence of tags, at least one, each
  with a value that fits its field, it is read as the effects of the tags in their order, later
  ones of a kind replacing earlier ones; nothing is logged and the structure stays well-formed.
  The other device is never looked at, and a device that cannot be opened or read leaves the
  structure as it was, with one line in the log.
\<close>

theorem flash_config_roundtrip:
  assumes "ts \<noteq> []" "\<forall>t \<in> set ts. tag_ok t" "wf_conf c" "length (tags_text ts) < 1024"
    and "devs CONFIG_MTD_DEV_1 = Flash (tags_text ts)"
    and "bad CONFIG_MTD_DEV_1 = CannotOpen err \<or> bad CONFIG_MTD_DEV_1 = CannotRead err"
  shows "read_conf_data devs c = Inr (fold set_tag ts c, 0, []) \<and> wf_conf (fold set_tag ts c)
    \<and> (\<exists>msg. read_conf_data bad c = Inr (c, -1, [Log_error msg]))"
  using conf_tags_read [of ts c devs, OF assms(1-5)] assms(6) by (auto simp: read_conf_data_def read_config1_def read_config_def)

theorem flash_config_roundtrip_witness:
  "read_conf_data (\<lambda>d. if d = CONFIG_MTD_DEV_1 then Flash (tags_text [Ssid ''cafe'', Service 1]) else CannotOpen ''ENOENT'') conf_example
   = Inr (conf_example\<lparr> ssid := ''cafe'' @ replicate 35 nul, ssid_len := 4, service_id := 1 \<rparr>, 0, [])"
proof -
  let ?devs = "\<lambda>d. if d = CONFIG_MTD_DEV_1 then Flash (tags_text [Ssid ''cafe'', Service 1]) else CannotOpen ''ENOENT''"
  have "read_conf_data ?devs conf_example = Inr (fold set_tag [Ssid ''cafe'', Service 1] conf_example, 0, [])
    \<and> wf_conf (fold set_tag [Ssid ''cafe'', Service 1] conf_example)
    \<and> (\<exists>msg. read_conf_data (\<lambda>_. CannotRead ''EIO'') conf_example = Inr (conf_example, -1, [Log_error msg]))"
    by (rule flash_config_roundtrip [where err = "''EIO''"])
      (simp_all add: conf_sizes wf_conf_example tags_text_def tag_text_chars decimal.simps)
  then show ?thesis by (simp add: mem_write_def conf_example_def)
qed

text \<open>
  A name longer than its field is copied past its end, and a device that
  begins with a NUL, as an erased or missing text does, makes the code look at a NULL token.
\<close>

theorem flash_config_overflows:
  assumes "CHR ''<'' \<notin> set s" "nul \<notin> set s" "SSID_BUFF_SIZE < length s" "length s < 256" "wf_conf c"
    and "long CONFIG_MTD_DEV_1 = Flash (''<s>'' @ s @ ''</s>'')" "blank CONFIG_MTD_DEV_1 = Flash (nul # xs)"
  shows "read_conf_data long c = Inl OutOfBounds \<and> read_conf_data blank c = Inl NullDeref"
proof
  let ?x = "''<s>'' @ s @ ''</s>''"
  have len: "length ?x < 1024" using assms(4) by simp
  let ?m = "''/s>'' @ replicate (1024 - length ?x) nul"
  have k: "\<forall>c \<in> set (''s>'' @ s). c \<noteq> CHR ''<'' \<and> c \<noteq> nul" using assms(1,2) by auto
  have tok: "strtok_r (?x @ replicate (1024 - length ?x) nul) = Some (Inr ((''s>'' @ s) @ nul # ?m, ?m))"
    using strtok_r_token(1) [OF _ k, of ?m] by simp
  have "takeWhile (\<lambda>c. c \<noteq> nul) (s @ nul # ?m) = s" using k by (simp add: takeWhile_append2)
  then have "c_str (s @ nul # ?m) = Inr s" by (simp add: c_str_def)
  moreover have "unat (of_nat (length s) :: u8) = length s" by (rule unat_of_nat_small) (use assms(4) in simp)
  ultimately have "read_tag ((''s>'' @ s) @ nul # ?m) c = Inl OutOfBounds"
    using assms(3,5) by (simp add: read_tag_def tag_chars memcpy_overflow wf_conf_def)
  then have "read_tags (?x @ replicate (1024 - length ?x) nul) c = Inl OutOfBounds"
    by (subst read_tags.simps, unfold tok) simp
  then show "read_conf_data long c = Inl OutOfBounds"
    using read_conf_data_tags [of ?x long c] tok len assms(6) by simp
  show "read_conf_data blank c = Inl NullDeref"
    using assms(7) by (simp add: read_conf_data_def read_config1_def read_config_def strtok_r_def)
qed

theorem flash_config_overflows_witness:
  "read_conf_data (\<lambda>_. Flash (''<s>'' @ replicate 40 (CHR ''x'') @ ''</s>'')) conf_example = Inl OutOfBounds"
  using flash_config_overflows [of "replicate 40 (CHR ''x'')" conf_example "\<lambda>_. Flash (''<s>'' @ replicate 40 (CHR ''x'') @ ''</s>'')" "\<lambda>_. Flash [nul]" "[]"]
  by (simp add: conf_sizes wf_conf_example)

section \<open>The printing program\<close>

text \<open>The six bytes of the address, separated by colons.\<close>

fun address_text :: "string \<Rightarrow> string" where
  "address_text [] = []"
| "address_text [b] = fmt_2X b"
| "address_text (b # bs) = fmt_2X b @ '':'' @ address_text bs"

lemma fmt_2X_inj: "fmt_2X a = fmt_2X b \<longleftrightarrow> a = b"
proof
  define d where "d = (\<lambda>k. if k < (10 :: nat) then char_of (48 + k) else char_of (55 + k) :: char)"
  have d: "k = l" if "k < 16" "l < 16" "d k = d l" for k l
  proof -
    have v: "(of_char (d k) :: nat) = (if k < 10 then 48 + k else 55 + k)" if "k < 16" for k
      using that by (simp add: d_def)
    have "(if k < 10 then 48 + k else 55 + k) = (if l < 10 then 48 + l else 55 + l)"
      using v [OF that(1)] v [OF that(2)] that(3) by simp
    with that(1,2) show ?thesis by (auto split: if_splits)
  qed
  assume "fmt_2X a = fmt_2X b"
  then have "d (of_char a div 16) = d (of_char b div 16)" "d (of_char a mod 16) = d (of_char b mod 16)"
    by (simp_all add: fmt_2X_def Let_def flip: d_def)
  moreover have "(of_char c :: nat) div 16 < 16" for c :: char using nat_of_char_less_256 [of c] by (simp add: less_mult_imp_div_less)
  ultimately have "of_char a div 16 = (of_char b :: nat) div 16" "of_char a mod 16 = (of_char b :: nat) mod 16"
    by (simp_all add: d)
  then have "(of_char a :: nat) = of_char b" by (metis div_mult_mod_eq)
  then show "a = b" by simp
qed simp

lemma length_fmt_2X [simp]: "length (fmt_2X b) = 2"
  by (simp add: fmt_2X_def Let_def)

lemma address_text_inj:
  assumes "length a = length b" "address_text a = address_text b"
  shows "a = b"
  using assms
proof (induction a b rule: list_induct2)
  case (Cons x xs y ys)
  then show ?case by (cases xs; cases ys) (auto simp: fmt_2X_inj)
qed simp

text \<open>
  On tags that fit, the program prints the last address and service; the
  printed address determines the six bytes.
\<close>

theorem conf_debug_main_prints:
  assumes "ts \<noteq> []" "\<forall>t \<in> set ts. tag_ok t" "wf_conf c" "length (tags_text ts) < 1024"
    and "devs CONFIG_MTD_DEV_1 = Flash (tags_text ts)"
  shows "conf_debug_main devs c = Inr [Log_info (address_text (ble_addr (fold set_tag ts c)) @ '' SERVICE ID=''
      @ (if service_id (fold set_tag ts c) = SERVICE_ID_BLE then ''BLE'' else ''UDP'') @ [nl])]
    \<and> (length a = 6 \<and> address_text a = address_text (ble_addr (fold set_tag ts c)) \<longrightarrow> a = ble_addr (fold set_tag ts c))"
proof -
  note r = conf_tags_read [of ts c devs, OF assms]
  let ?a = "ble_addr (fold set_tag ts c)"
  have l: "length ?a = 6" using r(2) by (simp add: wf_conf_def BLE_ADDR_SIZE_def)
  then obtain a0 a1 a2 a3 a4 a5 where "?a = [a0, a1, a2, a3, a4, a5]"
    by (auto simp: numeral_eq_Suc length_Suc_conv)
  with r(1) have "conf_debug_main devs c = Inr [Log_info (address_text ?a @ '' SERVICE ID=''
      @ (if service_id (fold set_tag ts c) = SERVICE_ID_BLE then ''BLE'' else ''UDP'') @ [nl])]"
    by (simp add: conf_debug_main_def)
  with l show ?thesis by (auto intro: address_text_inj)
qed

theorem conf_debug_main_prints_witness:
  "conf_debug_main (\<lambda>_. Flash (tags_text [Ble ''ABCDEF'', Service 1])) conf_example
    = Inr [Log_info (''41:42:43:44:45:46 SERVICE ID=BLE'' @ [nl])]"
  using conf_debug_main_prints [of "[Ble ''ABCDEF'', Service 1]" conf_example "\<lambda>_. Flash (tags_text [Ble ''ABCDEF'', Service 1])"]
  by (simp add: conf_sizes wf_conf_example tags_text_def tag_text_chars decimal.simps fmt_2X_def SERVICE_ID_BLE_def)
    (simp add: char_of_eq_iff)

end
