(* ===== verification/Wire_Formats.thy ===== *)
theory Wire_Formats
  imports Service_Check Log_Config Fragments
begin

text \<open>
  The remaining message structs of the headers (\<open>src/pkt_headers.h\<close>, \<open>src/hs_udp.h\<close>,
  \<open>src/hs_udp_service.h\<close>, \<open>src/udp_sat_data.h\<close>, \<open>src/hslog/hslog_icd.h\<close>), declared for the protocol and
  not used by the code of this side, and what all the formats of the program share: every struct
  has a fixed size and is read back from any memory that begins with it.
\<close>

section \<open>Structs\<close>

record rUdp_Handshake =
  hs_msgCode :: "2 word"
  hs_pad :: "6 word"
  transmition_timeout_secs :: u16
  retransmission_timeout_secs :: u16
  iot_port :: u16

record HUB_Message =
  hub_size :: u16
  hub_data :: "byte list"

record UDP_Payload =
  up_size :: u16
  up_data :: "byte list"

record Connect_Info =
  IOTServicePort :: u32
  fusionPort :: u32
  IOTip :: "byte list"
  fusionIp :: "byte list"

text \<open>The first byte: bit 0 marks a fragment, bits 1 to 7 are its index.\<close>

record udp_sat_data =
  frgmntByte :: u8
  sat_port :: u16
  sat_data :: "byte list"

record icd_hslog =
  icd_hdr :: icd_hslog_hdr
  icd_text :: "byte list"

text \<open>The arrays have their declared lengths.\<close>

definition wf_HUB_Message :: "HUB_Message \<Rightarrow> bool" where
  "wf_HUB_Message m \<longleftrightarrow> length (hub_data m) = MAX_MSG_SIZE"

definition wf_UDP_Payload :: "UDP_Payload \<Rightarrow> bool" where
  "wf_UDP_Payload m \<longleftrightarrow> length (up_data m) = NET_PACKET_SIZE"

definition wf_Connect_Info :: "Connect_Info \<Rightarrow> bool" where
  "wf_Connect_Info m \<longleftrightarrow> length (IOTip m) = 16 \<and> length (fusionIp m) = 16"

definition wf_udp_sat_data :: "udp_sat_data \<Rightarrow> bool" where
  "wf_udp_sat_data m \<longleftrightarrow> length (sat_data m) = 1"

definition wf_icd_hslog :: "icd_hslog \<Rightarrow> bool" where
  "wf_icd_hslog m \<longleftrightarrow> length (icd_text m) = 1"

section \<open>Their bytes\<close>

text \<open>Two or four bytes at a position.\<close>

definition u16_at :: "nat \<Rightarrow> byte list \<Rightarrow> u16" where
  "u16_at i bs = of_nat (le_nat (take 2 (drop i bs)))"

definition u32_at :: "nat \<Rightarrow> byte list \<Rightarrow> u32" where
  "u32_at i bs = of_nat (le_nat (take 4 (drop i bs)))"

definition rUdp_Handshake_bytes :: "rUdp_Handshake \<Rightarrow> byte list" where
  "rUdp_Handshake_bytes m =
     [ucast (hs_msgCode m) OR push_bit 2 (ucast (hs_pad m))]
     @ le_bytes 2 (unat (transmition_timeout_secs m)) @ le_bytes 2 (unat (retransmission_timeout_secs m))
     @ le_bytes 2 (unat (iot_port m))"

definition rUdp_Handshake_of_bytes :: "byte list \<Rightarrow> rUdp_Handshake" where
  "rUdp_Handshake_of_bytes bs =
     \<lparr> hs_msgCode = ucast (bs ! 0), hs_pad = ucast (drop_bit 2 (bs ! 0)), transmition_timeout_secs = u16_at 1 bs,
       retransmission_timeout_secs = u16_at 3 bs, iot_port = u16_at 5 bs \<rparr>"

definition HUB_Message_bytes :: "HUB_Message \<Rightarrow> byte list" where
  "HUB_Message_bytes m = le_bytes 2 (unat (hub_size m)) @ hub_data m"

definition HUB_Message_of_bytes :: "byte list \<Rightarrow> HUB_Message" where
  "HUB_Message_of_bytes bs = \<lparr> hub_size = u16_at 0 bs, hub_data = take MAX_MSG_SIZE (drop 2 bs) \<rparr>"

definition UDP_Payload_bytes :: "UDP_Payload \<Rightarrow> byte list" where
  "UDP_Payload_bytes m = le_bytes 2 (unat (up_size m)) @ up_data m"

definition UDP_Payload_of_bytes :: "byte list \<Rightarrow> UDP_Payload" where
  "UDP_Payload_of_bytes bs = \<lparr> up_size = u16_at 0 bs, up_data = take NET_PACKET_SIZE (drop 2 bs) \<rparr>"

definition Connect_Info_bytes :: "Connect_Info \<Rightarrow> byte list" where
  "Connect_Info_bytes m = le_bytes 4 (unat (IOTServicePort m)) @ le_bytes 4 (unat (fusionPort m)) @ IOTip m @ fusionIp m"

definition Connect_Info_of_bytes :: "byte list \<Rightarrow> Connect_Info" where
  "Connect_Info_of_bytes bs =
     \<lparr> IOTServicePort = u32_at 0 bs, fusionPort = u32_at 4 bs, IOTip = take 16 (drop 8 bs), fusionIp = take 16 (drop 24 bs) \<rparr>"

definition udp_sat_data_bytes :: "udp_sat_data \<Rightarrow> byte list" where
  "udp_sat_data_bytes m = [frgmntByte m] @ le_bytes 2 (unat (sat_port m)) @ sat_data m"

definition udp_sat_data_of_bytes :: "byte list \<Rightarrow> udp_sat_data" where
  "udp_sat_data_of_bytes bs = \<lparr> frgmntByte = bs ! 0, sat_port = u16_at 1 bs, sat_data = take 1 (drop 3 bs) \<rparr>"

definition icd_hslog_bytes :: "icd_hslog \<Rightarrow> byte list" where
  "icd_hslog_bytes m = icd_hslog_hdr_bytes (icd_hdr m) @ icd_text m"

definition icd_hslog_of_bytes :: "byte list \<Rightarrow> icd_hslog" where
  "icd_hslog_of_bytes bs = \<lparr> icd_hdr = icd_hslog_hdr_of_bytes bs, icd_text = take 1 (drop 8 bs) \<rparr>"

section \<open>What a format promises\<close>

text \<open>A memory cut into structs of \<open>n\<close> bytes; bytes left over at the end are not read.\<close>

function decode_all :: "(byte list \<Rightarrow> 'a) \<Rightarrow> nat \<Rightarrow> byte list \<Rightarrow> 'a list" where
  "decode_all dec n bs = (if n = 0 \<or> length bs < n then [] else dec bs # decode_all dec n (drop n bs))"
  by pat_completeness auto
termination
  by (relation "measure (\<lambda>(dec, n, bs). length bs)") auto

declare decode_all.simps [simp del]

text \<open>
  \<open>enc\<close> gives the \<open>n\<close> bytes of a struct whose arrays are as declared, \<open>dec\<close> casts a memory to the
  struct and looks at its beginning only.
\<close>

locale wire_format =
  fixes enc :: "'a \<Rightarrow> byte list" and dec :: "byte list \<Rightarrow> 'a" and wf :: "'a \<Rightarrow> bool" and n :: nat
  assumes length_enc: "wf x \<Longrightarrow> length (enc x) = n"
    and dec_enc: "wf x \<Longrightarrow> dec (enc x @ bs) = x"
    and not_empty: "0 < n"
begin

lemma prefix_free:
  assumes "wf x" "wf y" "enc x @ as = enc y @ bs"
  shows "x = y \<and> as = bs"
proof -
  have "x = dec (enc x @ as)" using dec_enc [OF assms(1)] by simp
  also have "\<dots> = y" using dec_enc [OF assms(2)] assms(3) by simp
  finally show ?thesis using assms(3) by simp
qed

lemma decode_stream:
  assumes "\<forall>x \<in> set xs. wf x" "length rest < n"
  shows "decode_all dec n (concat (map enc xs) @ rest) = xs"
  using assms
proof (induction xs)
  case Nil
  then show ?case by (simp add: decode_all.simps)
next
  case (Cons x xs)
  then have "decode_all dec n (enc x @ concat (map enc xs) @ rest) = x # xs"
    using not_empty length_enc [of x] dec_enc [of x] by (subst decode_all.simps) simp
  then show ?case by simp
qed

end

section \<open>The formats of the program\<close>

lemma u16_at_le_bytes [bytes_simps]: "take 2 (drop i bs) = le_bytes 2 (unat w) \<Longrightarrow> u16_at i bs = w"
  by (simp add: u16_at_def of_nat_le_nat_le_bytes)

lemma u32_at_le_bytes [bytes_simps]: "take 4 (drop i bs) = le_bytes 4 (unat w) \<Longrightarrow> u32_at i bs = w"
  by (simp add: u32_at_def of_nat_le_nat_le_bytes)

lemma bit_fields_2_6:
  "ucast ((ucast c OR push_bit 2 (ucast p)) :: u8) = (c :: 2 word)"
  "ucast (drop_bit 2 ((ucast c OR push_bit 2 (ucast p)) :: u8)) = (p :: 6 word)"
  by (rule bit_word_eqI; auto simp: bit_simps dest: bit_imp_le_length)+

interpretation Msg_Header_format: wire_format Msg_Header_bytes Msg_Header_of_bytes "\<lambda>_. True" 3
  by unfold_locales (simp_all add: Msg_Header_roundtrip)

interpretation rUdpFragmntReq_format: wire_format rUdpFragmntReq_bytes rUdpFragmntReq_of_bytes "\<lambda>_. True" 3
  by (unfold_locales; (rule rUdpFragmntReq_roundtrip | simp add: rUdpFragmntReq_bytes_def))

interpretation rUdp_Handshake_format: wire_format rUdp_Handshake_bytes rUdp_Handshake_of_bytes "\<lambda>_. True" 7
  by unfold_locales (simp_all add: rUdp_Handshake_bytes_def rUdp_Handshake_of_bytes_def bit_fields_2_6 bytes_simps
      del: drop_bit_or)

interpretation HUB_Message_format: wire_format HUB_Message_bytes HUB_Message_of_bytes wf_HUB_Message 62
  by unfold_locales (simp_all add: HUB_Message_bytes_def HUB_Message_of_bytes_def wf_HUB_Message_def MAX_MSG_SIZE_def bytes_simps)

interpretation UDP_Payload_format: wire_format UDP_Payload_bytes UDP_Payload_of_bytes wf_UDP_Payload 1502
  by unfold_locales (simp_all add: UDP_Payload_bytes_def UDP_Payload_of_bytes_def wf_UDP_Payload_def NET_PACKET_SIZE_def bytes_simps)

interpretation Connect_Info_format: wire_format Connect_Info_bytes Connect_Info_of_bytes wf_Connect_Info 40
  by unfold_locales (simp_all add: Connect_Info_bytes_def Connect_Info_of_bytes_def wf_Connect_Info_def bytes_simps)

interpretation udp_sat_data_format: wire_format udp_sat_data_bytes udp_sat_data_of_bytes wf_udp_sat_data 4
  by unfold_locales (simp_all add: udp_sat_data_bytes_def udp_sat_data_of_bytes_def wf_udp_sat_data_def bytes_simps)

interpretation sensor_stats_format: wire_format stats_bytes stats_of_bytes "\<lambda>_. True" 12
  by unfold_locales (simp_all add: stats_roundtrip bytes_simps)

interpretation icd_hslog_hdr_format: wire_format icd_hslog_hdr_bytes icd_hslog_hdr_of_bytes "\<lambda>_. True" 8
  by unfold_locales (simp_all add: icd_hslog_hdr_bytes_def icd_hslog_hdr_of_bytes_def nth_append of_nat_le_nat_le_bytes)

interpretation icd_hslog_format: wire_format icd_hslog_bytes icd_hslog_of_bytes wf_icd_hslog 9
  by unfold_locales (simp_all add: icd_hslog_bytes_def icd_hslog_of_bytes_def wf_icd_hslog_def
      icd_hslog_hdr_format.dec_enc icd_hslog_hdr_format.length_enc)

lemma Msg_Buf_of_bytes_take: "Msg_Buf_of_bytes (take sizeof_Msg_Buf bs) = Msg_Buf_of_bytes bs"
  by (simp add: Msg_Buf_of_bytes_def sizeofs drop_take min_def)

lemma Msg_Buf_of_bytes_prefix: "wf_Msg_Buf m \<Longrightarrow> Msg_Buf_of_bytes (Msg_Buf_bytes m @ bs) = m"
  using Msg_Buf_of_bytes_take [of "Msg_Buf_bytes m @ bs"] by (simp add: bytes_simps Msg_Buf_roundtrip)

interpretation Msg_Buf_format: wire_format Msg_Buf_bytes Msg_Buf_of_bytes wf_Msg_Buf sizeof_Msg_Buf
  by unfold_locales (simp_all add: bytes_simps Msg_Buf_of_bytes_prefix sizeofs)

text \<open>
  In the message formats of the program a sequence of structs written
  behind one another, and followed by a piece too short for one more, is read back as the same
  sequence.
\<close>

theorem formats_are_self_delimiting:
  assumes "\<forall>m \<in> set ms. wf_Msg_Buf m" "\<forall>p \<in> set ps. wf_UDP_Payload p" "length rest < 3"
  shows "decode_all Msg_Header_of_bytes 3 (concat (map Msg_Header_bytes hs) @ rest) = hs
   \<and> decode_all rUdpFragmntReq_of_bytes 3 (concat (map rUdpFragmntReq_bytes rs) @ rest) = rs
   \<and> decode_all Msg_Buf_of_bytes 99 (concat (map Msg_Buf_bytes ms) @ rest) = ms
   \<and> decode_all rUdp_Handshake_of_bytes 7 (concat (map rUdp_Handshake_bytes ks) @ rest) = ks
   \<and> decode_all UDP_Payload_of_bytes 1502 (concat (map UDP_Payload_bytes ps) @ rest) = ps
   \<and> decode_all stats_of_bytes 12 (concat (map stats_bytes ss) @ rest) = ss
   \<and> decode_all icd_hslog_hdr_of_bytes 8 (concat (map icd_hslog_hdr_bytes ls) @ rest) = ls"
  using Msg_Header_format.decode_stream [of hs rest] rUdpFragmntReq_format.decode_stream [of rs rest]
    Msg_Buf_format.decode_stream [of ms rest] rUdp_Handshake_format.decode_stream [of ks rest]
    UDP_Payload_format.decode_stream [of ps rest] sensor_stats_format.decode_stream [of ss rest]
    icd_hslog_hdr_format.decode_stream [of ls rest] assms
  by (simp add: sizeofs)

section \<open>Macros\<close>

text \<open>\<open>MAKE_UINT16_T\<close> computes in C \<open>int\<close>s and is not used.\<close>

definition MAKE_UINT16_T :: "u16 \<Rightarrow> u16 \<Rightarrow> int" where
  "MAKE_UINT16_T high low = push_bit 8 (uint (high AND 0xff)) + uint (low AND 0xff)"

text \<open>
  \<open>debug\<close> puts the time before a text for \<open>log_debug_message\<close>, which is defined nowhere in the
  program and therefore an argument.
\<close>

definition LOG_MAX_SIZE :: nat where "LOG_MAX_SIZE = 10000"

definition debug :: "(string \<Rightarrow> 'a) \<Rightarrow> tm option \<Rightarrow> string \<Rightarrow> 'a" where
  "debug log_debug_message now fmtd = log_debug_message (GetTimestamp now 32 @ fmtd)"

lemma MAKE_UINT16_T_bytes: "MAKE_UINT16_T (of_nat (n div 256)) (of_nat n) = int (n mod 2 ^ 16)"
proof -
  have b: "uint (w AND 0xff) = uint w mod 256" for w :: u16
  proof -
    have "w AND 0xff = take_bit 8 w" by (simp add: take_bit_eq_mask mask_eq_exp_minus_1)
    then have "uint (w AND 0xff) = take_bit 8 (uint w)" by (simp only: unsigned_take_bit_eq)
    then show ?thesis by (simp only: take_bit_eq_mod) simp
  qed
  have m: "uint (of_nat k :: u16) mod 256 = int (k mod 256)" for k
    by (simp add: unsigned_of_nat take_bit_eq_mod zmod_int mod_mod_cancel)
  have "n mod (256 * 256) = 256 * (n div 256 mod 256) + n mod 256" by (rule mod_mult2_eq)
  then show ?thesis by (simp add: MAKE_UINT16_T_def b m push_bit_eq_mult)
qed

end
