(* ===== verification/Spec2Isabelle.thy ===== *)
theory Spec2Isabelle
  imports Rudp_Behaviour Buffer_Pool System Terminals Recovery Duplicates Network Interleaving Intact Thread_Loops
    Program Demos Flash_Config Wire_Formats
begin

text \<open>
  The hiSky UDP service: a model of the C program under \<^verbatim>\<open>src/\<close> and its verification.

  \<^bold>\<open>The program.\<close>  The service relays datagrams between an IoT device and a radio process, Fusion,
  whose messages carry at most 60 bytes of data.  \<^verbatim>\<open>main\<close> sets up the log, reads the configuration,
  starts the control socket and the watch on the log configuration, and then \<^verbatim>\<open>start_udp_service\<close>
  makes four sockets, five queues, two buffer pools and six threads:
  \<^item> \<^verbatim>\<open>iot_receive_routine\<close> takes datagrams of the device, cuts them into fragments, each in a
    buffer from the queue of free buffers, and queues them;
  \<^item> \<^verbatim>\<open>fusion_transmit_routine\<close> completes the header of each, sends it to Fusion and appends the
    buffer to the history of sent fragments;
  \<^item> \<^verbatim>\<open>fusion_receive_routine\<close> takes messages of Fusion: a request for a lost fragment is answered
    from the history, everything else is copied into a free buffer and queued;
  \<^item> \<^verbatim>\<open>iot_transmit_routine\<close> reassembles the queued messages, asks Fusion for missing fragments, and
    sends complete datagrams to the device;
  \<^item> \<^verbatim>\<open>r_udp_routine\<close> returns expired buffers of the history to the free queue each second;
  \<^item> \<^verbatim>\<open>r_udp_req_routine\<close> drops packets that stay incomplete.

  \<^bold>\<open>Theories, in the order of the code they model.\<close>
  \<^item> \<open>Prelude\<close>: machine types, failure modes as values (\<open>c_error\<close>), bounds-checked \<^verbatim>\<open>memcpy\<close> and
    \<^verbatim>\<open>sendto\<close>, little-endian coding, and the collections \<open>bytes_simps\<close> and \<open>step_simps\<close>.
  \<^item> \<open>Pkt_Headers\<close> (\<^verbatim>\<open>pkt_headers.h\<close>): the packed structs with their bit fields, to and from bytes.
  \<^item> \<open>Queue_Spec\<close>: the locale \<open>queue\<close>, a first-in first-out queue of pointers.  It is interpreted by
    \<open>Fifo\<close> (\<^verbatim>\<open>hs_fifo.c\<close>, a byte pipe) and by \<open>History\<close> (\<^verbatim>\<open>r_udp.c\<close>, a linked list through the buffers).
  \<^item> \<open>Buffer_Pool\<close> (\<^verbatim>\<open>hs_buffer_pool.c\<close>): the ring, with \<open>int\<close> differences masked in 32 bits; the locale
    \<open>buffer_source\<close> and its interpretation by rings of \<open>2 ^ k\<close> buffers.
  \<^item> \<open>Fragments\<close> (\<^verbatim>\<open>hs_udp_fragments.c\<close>), the locale \<open>slot_array\<close>; \<open>Rudp_Req\<close> (\<^verbatim>\<open>rudp_req.c\<close>):
    \<^verbatim>\<open>defragment\<close> with its branches, the requests and the sweep.
  \<^item> \<open>Reassembly\<close>: the abstract reassembler (per sequence number the fragments so far) and the
    simulation; \<open>Rudp_Behaviour\<close>: the requests, the sweep and the faults; \<open>Duplicates\<close>: one
    fragment that arrives again and again, up to a send past the end of its slot.
  \<^item> \<open>Hs_Udp\<close> (\<^verbatim>\<open>hs_udp.c\<close>), \<open>Sensor_Stats\<close> (\<^verbatim>\<open>sensor_stats.c\<close>), \<open>Service_Check\<close> (\<^verbatim>\<open>service_check.c\<close>).
  \<^item> \<open>Service\<close> (\<^verbatim>\<open>hs_udp_service.c\<close>): the four data threads, each a record of its locals with a program
    counter; \<open>Sender\<close>: fragmentation and the wire; \<open>System\<close>: the step relation \<open>sys_step\<close> of all threads
    and its invariant \<open>sys_inv\<close>; \<open>Recovery\<close>: requests and replies across the two sides; \<open>Network\<close>: runs
    with their datagrams and a datagram that crosses two services; \<open>Interleaving\<close>: reassembly with
    the sweep before, after and within it.
  \<^item> \<open>Lossy\<close>: the abstract reassembler when packets can be forgotten, and \<^verbatim>\<open>defragment\<close> in its phases with
    sweeps between them; \<open>Delivery\<close>: every run of the threads follows it, on the messages that arrived
    and were not dropped; \<open>Intact\<close>: so the device gets datagrams that were sent, and only those.
  \<^item> \<open>Terminals\<close> (\<^verbatim>\<open>Terminals_Handler.c\<close>): the locale \<open>registry\<close> and its interpretation for both builds.
  \<^item> \<open>C_Text\<close>: \<^verbatim>\<open>fgets\<close>, \<^verbatim>\<open>strtok\<close>, \<^verbatim>\<open>strtoul\<close> on strings; \<open>Config\<close> (\<^verbatim>\<open>hs_config_file_reader.c\<close> and
    \<^verbatim>\<open>get_configuration\<close>); \<open>Startup\<close> (\<^verbatim>\<open>start_udp_service\<close>, \<^verbatim>\<open>main.c\<close>); \<open>Thread_Loops\<close>: the loops of the
    data threads around epoll, and the system in which threads are missing or have returned.
  \<^item> \<open>Lock_Spec\<close>: the locale \<open>recursive_lock\<close>; \<open>Hslog\<close> (\<^verbatim>\<open>hslog.c\<close> and the senders of
    \<^verbatim>\<open>hslog-multicast.c\<close>), which interprets it; \<open>Log_Config\<close>: the settings file,
    \<^verbatim>\<open>hslog-rotate.c\<close>, \<^verbatim>\<open>init_network_log\<close>; \<open>Inotify\<close> (\<^verbatim>\<open>inotify.c\<close>): the watch on that file; \<open>Program\<close>: \<^verbatim>\<open>main\<close> as a whole.
  \<^item> \<open>Flash_Config\<close> (\<^verbatim>\<open>conf_read.c\<close>): the tagged settings of the device; \<open>Demos\<close>
    (\<^verbatim>\<open>inotity_example.c\<close>, \<^verbatim>\<open>hslog/multicast-send.c\<close>): the two programs beside the service.
  \<^item> \<open>Wire_Formats\<close>: the structs the headers declare for the protocol but this side does not use, and
    the locale \<open>wire_format\<close>, which every struct that crosses a process boundary interprets.

  \<^bold>\<open>State.\<close>  A C struct is a record with the struct's field names, prefixed where two structs share
  one; globals are fields of the state of the theory that models their file.  Buffers live in a
  store from 64-bit pointers to \<open>Msg_Buf\<close>, shared by the two pools, the queues and the history, so
  that aliasing is visible; \<open>NULL\<close> is 0.  Integers have the width of the source.  A call that can
  block answers \<open>None\<close>; undefined behaviour and the errors of the source are \<open>Inl\<close>, a send or copy
  of more bytes than the array has included, where the machine would go on in the memory behind it
  (a thread that meets it has no step; \<open>Duplicates\<close> shows how it comes about); loops over a
  list that may be cyclic are partial functions.  Requests and datagrams a step sends are
  returned as lists.

  \<^bold>\<open>The outside.\<close>  What the operating system or the C library answers is an argument: results of
  system calls, the clock, files as their contents, the blocks \<^verbatim>\<open>malloc\<close> returns, padding bits.

  \<^bold>\<open>What is proved.\<close>
  \<^item> Each data structure against its contract: the pipe and the history are queues, the pool a
    bounded source of buffers, the registry a finite map, the table an array of slots.
  \<^item> Reassembly refines the abstract reassembler on every interleaving of packets with sequence
    numbers 0 to 3, and what goes wrong outside of that: numbers 4 to 15, duplicates, overlong
    indices.
  \<^item> The invariant \<open>sys_inv\<close>: every buffer has one owner, or was lost with a dropped message;
    it is established by \<open>start_udp_service\<close>, kept by every step of whatever threads run, and gives
    that putting a buffer never blocks and that outside of \<^verbatim>\<open>iot_transmit_routine\<close> a data thread
    fails in one case only, a reply before its socket is set.
  \<^item> In every run of the receiving service the device gets what the abstract reassembler delivers,
    and when packets time out still only whole datagrams that were sent.
  \<^item> End to end: a datagram survives fragmentation, the wire in any order, retransmission and
    reassembly, as functions and as a run of the threads of two services; and the limits of this,
    the simulated loss that ends all forwarding, the reply that overtakes its buffer, the sweep
    in the middle of \<^verbatim>\<open>defragment\<close>, and a receiving thread that has returned unnoticed.
  \<^item> Control, configuration, log, reload, rotation and flash settings: what they compute from
    their inputs, with round trips for the formats, and the inputs on which they misbehave.

  \<^bold>\<open>Bounds.\<close>  A pipe holds 8192 pointers (64 KiB, the default of Linux).  The pools have 64 elements
  of which 63 can be handed out; both fit in any queue, which is why puts never block.  Counting
  the dropped messages, a receiving pool of \<open>n\<close> buffers accepts at most \<open>13 n - 12\<close> messages, so the
  message counter never wraps.  No definition needs fuel: \<open>iot_rx_run\<close>, \<open>free_history\<close> and
  the searches are partial functions whose termination is a theorem.

  \<^bold>\<open>Grain of the steps.\<close>  A thread runs from one blocking call to the next.  Walks over the history
  hold its mutex in the source and are one step.  \<^verbatim>\<open>defragment\<close> and the sweep of old packets share the
  table without a lock: lookup, store, and sending with release of the slot are three steps of
  \<^verbatim>\<open>iot_transmit_routine\<close>, between which a sweep can come; one sweep, and each of the three, is not
  divided further.  The second added to a fragment's lifetime
  after the lookup is part of the lookup.  The two blocking phases of a reply, lookup and
  send, are separate steps.

  \<^bold>\<open>Not modelled.\<close>  The calls of the log and of \<^verbatim>\<open>printf\<close> in most operations (those of the control
  socket, of the epoll loops, of \<^verbatim>\<open>conf_read.c\<close> and of \<^verbatim>\<open>debug_buffer\<close> are modelled, and the log itself
  is); failures of \<^verbatim>\<open>sendto\<close> in the data threads, which are only logged, so that a datagram the
  system refuses is one the network loses; closing of descriptors; the constants of \<^verbatim>\<open>spi_config.h\<close>
  for other programs, and declarations without a definition.
\<close>

end
